(* ===== verification/Sha256.thy ===== *)
theory Sha256
  imports Prelude
begin

unbundle bit_operations_syntax

text \<open>
  SHA-256 of Go's \<open>crypto/sha256\<close> (FIPS 180-4), which every digest of the program is computed
  with. The definitions compute; evaluated on the empty message they give the digest that the
  repository's tests record for the empty directory (\<open>e3b0c442...\<close>).
\<close>

type_synonym w32 = "32 word"

definition rotr :: "nat \<Rightarrow> w32 \<Rightarrow> w32" where
  "rotr n x = drop_bit n x OR push_bit (32 - n) x"

text \<open>
  The constants, computed from their definition: the first 32 bits of the fractional parts of the
  cube roots of the first 64 primes, and of the square roots of the first eight.
\<close>

fun int_root :: "nat \<Rightarrow> int \<Rightarrow> nat \<Rightarrow> int \<Rightarrow> int" where
  "int_root e n 0 acc = acc"
| "int_root e n (Suc i) acc =
     int_root e n i (if (acc + 2 ^ i) ^ e \<le> n then acc + 2 ^ i else acc)"

definition first_primes :: "nat \<Rightarrow> int list" where
  "first_primes k = take k (filter (\<lambda>n. list_all (\<lambda>d. n mod d \<noteq> 0) [2..n - 1]) [2..311])"

definition sha_k :: "w32 list" where
  "sha_k = map (\<lambda>p. of_int (int_root 3 (p * 2 ^ 96) 36 0)) (first_primes 64)"

definition sha_init :: "w32 list" where
  "sha_init = map (\<lambda>p. of_int (int_root 2 (p * 2 ^ 64) 37 0)) (first_primes 8)"

text \<open>The message schedule, kept with its newest word first.\<close>

definition sha_next :: "w32 list \<Rightarrow> w32" where
  "sha_next w =
     (let w2 = w ! 1; w15 = w ! 14
      in (rotr 17 w2 XOR rotr 19 w2 XOR drop_bit 10 w2) + w ! 6
         + (rotr 7 w15 XOR rotr 18 w15 XOR drop_bit 3 w15) + w ! 15)"

fun sha_extend :: "nat \<Rightarrow> w32 list \<Rightarrow> w32 list" where
  "sha_extend 0 w = w"
| "sha_extend (Suc n) w = sha_extend n (sha_next w # w)"

definition sha_schedule :: "w32 list \<Rightarrow> w32 list" where
  "sha_schedule block = rev (sha_extend 48 (rev block))"

fun sha_round :: "w32 \<times> w32 \<Rightarrow> w32 list \<Rightarrow> w32 list" where
  "sha_round (k, w) [a, b, c, d, e, f, g, h] =
     (let t1 = h + (rotr 6 e XOR rotr 11 e XOR rotr 25 e) + ((e AND f) XOR (NOT e AND g)) + k + w;
          t2 = (rotr 2 a XOR rotr 13 a XOR rotr 22 a) + ((a AND b) XOR (a AND c) XOR (b AND c))
      in [t1 + t2, a, b, c, d + t1, e, f, g])"
| "sha_round _ st = st"

definition sha_compress :: "w32 list \<Rightarrow> w32 list \<Rightarrow> w32 list" where
  "sha_compress block st =
     map2 (+) st (fold sha_round (zip sha_k (sha_schedule block)) st)"

text \<open>Padding: a one bit, zeros, and the length in bits as a 64-bit big-endian number.\<close>

definition word_bytes :: "w32 \<Rightarrow> bytes" where
  "word_bytes w = [ucast (drop_bit 24 w), ucast (drop_bit 16 w), ucast (drop_bit 8 w), ucast w]"

definition sha_pad :: "bytes \<Rightarrow> bytes" where
  "sha_pad m =
     (let bits = 8 * of_nat (length m) :: 64 word
      in m @ 0x80 # replicate ((119 - length m mod 64) mod 64) 0
           @ word_bytes (ucast (drop_bit 32 bits)) @ word_bytes (ucast bits))"

fun be_words :: "bytes \<Rightarrow> w32 list" where
  "be_words (a # b # c # d # r) =
     (push_bit 24 (ucast a) OR push_bit 16 (ucast b) OR push_bit 8 (ucast c) OR ucast d) # be_words r"
| "be_words _ = []"

fun chunks_of :: "nat \<Rightarrow> 'a list \<Rightarrow> 'a list list" where
  "chunks_of n xs = (if n = 0 \<or> xs = [] then [] else take n xs # chunks_of n (drop n xs))"

declare chunks_of.simps [simp del]

definition sha256 :: "bytes \<Rightarrow> bytes" where
  "sha256 m =
     concat (map word_bytes (fold sha_compress (chunks_of 16 (be_words (sha_pad m))) sha_init))"

lemma eight_primes: "length (filter (\<lambda>n::int. list_all (\<lambda>d. n mod d \<noteq> 0) [2..n - 1]) [2..19]) = 8"
  by code_simp

lemma length_first_primes: "length (first_primes 8) = 8"
proof -
  let ?P = "\<lambda>n::int. list_all (\<lambda>d. n mod d \<noteq> 0) [2..n - 1]"
  have "[2..311] = [2..19] @ [19 + 1..311::int]"
    by (rule upto_split2) simp_all
  then have "filter ?P [2..311] = filter ?P [2..19] @ filter ?P [19 + 1..311]"
    by (simp only: filter_append)
  moreover note eight_primes
  ultimately show ?thesis
    by (simp only: first_primes_def take_append length_append length_take)
qed

lemma length_sha_round: "length st = 8 \<Longrightarrow> length (sha_round kw st) = 8"
  by (cases "(kw, st)" rule: sha_round.cases) (auto simp: Let_def)

lemma length_sha_rounds: "length st = 8 \<Longrightarrow> length (fold sha_round kws st) = 8"
  by (induction kws arbitrary: st) (auto simp: length_sha_round)

lemma length_sha_blocks: "length st = 8 \<Longrightarrow> length (fold sha_compress bs st) = 8"
  by (induction bs arbitrary: st) (auto simp: sha_compress_def length_sha_rounds)

lemma length_sha256 [simp]: "length (sha256 m) = 32"
proof -
  have "length (fold sha_compress (chunks_of 16 (be_words (sha_pad m))) sha_init) = 8"
    by (rule length_sha_blocks) (simp add: sha_init_def length_first_primes)
  then show ?thesis
    by (simp add: sha256_def length_concat word_bytes_def comp_def sum_list_triv)
qed

lemma pad_to_block: "(64::nat) dvd n + 9 + (119 - n mod 64) mod 64"
proof -
  define q r where "q = n div 64" and "r = n mod 64"
  have n: "n = 64 * q + r" and "r < 64" by (simp_all add: q_def r_def)
  show ?thesis
  proof (cases "r \<le> 55")
    case True
    then have "(119 - r) mod 64 = 55 - r" using mod_if [of "119 - r" 64] by simp
    with True n show ?thesis unfolding r_def [symmetric] by simp
  next
    case False
    then have "(119 - r) mod 64 = 119 - r" by simp
    with False \<open>r < 64\<close> n show ?thesis unfolding r_def [symmetric] by simp
  qed
qed

lemma length_sha_pad: "64 dvd length (sha_pad m)"
proof -
  have "length (sha_pad m) = length m + 9 + (119 - length m mod 64) mod 64"
    by (simp add: sha_pad_def word_bytes_def Let_def)
  then show ?thesis by (simp only: pad_to_block)
qed

end
