(* ===== verification/Os.thy ===== *)
theory Os
  imports Prelude "HOL-Library.Char_ord" "HOL-Library.List_Lexorder"
begin

text \<open>
  What the program uses of the operating system: a file system, the wall clock, and the random
  choices of the Go runtime. Everything that is outside the program's control is an oracle that is
  consulted once per system call, with the number of calls made so far: \<open>sys_fault\<close> says
  whether the call fails (\<open>Some k\<close>: it fails, a write after \<open>k\<close> bytes), \<open>sys_clock\<close>
  what \<open>time.Now()\<close> reads, \<open>sys_rand\<close> what the random source yields. A theorem that does
  not constrain an oracle holds for every behaviour of it.

  Paths are compared as strings: cache directories are given in the clean form that
  \<open>filepath.Join\<close> produces.
\<close>

record file_node =
  f_data :: bytes
  f_mtime :: time

record sys =
  sys_files :: "path \<rightharpoonup> file_node"
  sys_dirs :: "path set"
  sys_fault :: "nat \<Rightarrow> nat option"
  sys_clock :: "nat \<Rightarrow> time"
  sys_rand :: "nat \<Rightarrow> nat"
  sys_calls :: nat

definition called :: "sys \<Rightarrow> sys" where
  "called s = s\<lparr>sys_calls := Suc (sys_calls s)\<rparr>"

definition faulty :: "sys \<Rightarrow> bool" where
  "faulty s \<longleftrightarrow> sys_fault s (sys_calls s) \<noteq> None"

definition no_faults :: "sys \<Rightarrow> bool" where
  "no_faults s \<longleftrightarrow> (\<forall>n \<ge> sys_calls s. sys_fault s n = None)"

definition io_error :: err where
  "io_error = Plain ''input/output error''"

definition not_exist :: err where
  "not_exist = Plain ''no such file or directory''"

subsection \<open>Paths\<close>

text \<open>\<open>filepath.Dir\<close> of a clean path: what precedes the last separator.\<close>

definition filepath_dir :: "path \<Rightarrow> path" where
  "filepath_dir p =
     (case dropWhile (\<lambda>c. c \<noteq> CHR ''/'') (rev p) of [] \<Rightarrow> ''.'' | c # cs \<Rightarrow> rev cs)"

text \<open>The directories from the root down to \<open>p\<close>, \<open>p\<close> included: what \<open>os.MkdirAll\<close> makes.\<close>

fun dir_prefixes :: "path \<Rightarrow> path \<Rightarrow> path list" where
  "dir_prefixes acc [] = [acc]"
| "dir_prefixes acc (c # cs) =
     (if c = CHR ''/'' \<and> acc \<noteq> [] then acc # dir_prefixes (acc @ [c]) cs
      else dir_prefixes (acc @ [c]) cs)"

lemma filepath_dir_append [path_simps]:
  assumes "CHR ''/'' \<notin> set b"
  shows "filepath_dir (d @ CHR ''/'' # b) = d"
proof -
  have "dropWhile (\<lambda>c. c \<noteq> CHR ''/'') (rev b @ CHR ''/'' # rev d) = CHR ''/'' # rev d"
    using assms by (subst dropWhile_append2) auto
  then show ?thesis by (simp add: filepath_dir_def)
qed

lemma last_dir_prefixes: "dir_prefixes acc cs \<noteq> [] \<and> last (dir_prefixes acc cs) = acc @ cs"
  by (induction acc cs rule: dir_prefixes.induct) auto

lemma self_in_dir_prefixes [simp]: "p \<in> set (dir_prefixes [] p)"
  using last_dir_prefixes [of "[]" p] by (metis append_Nil last_in_set)

subsection \<open>System calls\<close>

definition now :: "sys \<Rightarrow> time \<times> sys" where
  "now s = (sys_clock s (sys_calls s), called s)"

definition random :: "sys \<Rightarrow> nat \<times> sys" where
  "random s = (sys_rand s (sys_calls s), called s)"

text \<open>\<open>os.Stat\<close>: the size and modification time of a file, or of a directory (size 0 here).\<close>

record file_info =
  fi_size :: int
  fi_mtime :: time

definition stat :: "path \<Rightarrow> sys \<Rightarrow> (err + file_info) \<times> sys" where
  "stat p s =
     (if faulty s then (Inl io_error, called s)
      else case sys_files s p of
             Some f \<Rightarrow> (Inr \<lparr>fi_size = int (length (f_data f)), fi_mtime = f_mtime f\<rparr>, called s)
           | None \<Rightarrow> if p \<in> sys_dirs s then (Inr \<lparr>fi_size = 0, fi_mtime = 0\<rparr>, called s)
                     else (Inl not_exist, called s))"

definition mkdir_all :: "path \<Rightarrow> sys \<Rightarrow> (err + unit) \<times> sys" where
  "mkdir_all p s =
     (if faulty s then (Inl io_error, called s)
      else if \<exists>q \<in> set (dir_prefixes [] p). sys_files s q \<noteq> None
        then (Inl (Plain ''not a directory''), called s)
      else (Inr (), (called s)\<lparr>sys_dirs := sys_dirs s \<union> set (dir_prefixes [] p)\<rparr>))"

definition rename :: "path \<Rightarrow> path \<Rightarrow> sys \<Rightarrow> (err + unit) \<times> sys" where
  "rename old new s =
     (if faulty s then (Inl io_error, called s)
      else case sys_files s old of
             None \<Rightarrow> (Inl not_exist, called s)
           | Some f \<Rightarrow>
               if filepath_dir new \<notin> sys_dirs s then (Inl not_exist, called s)
               else if new \<in> sys_dirs s then (Inl (Plain ''file exists''), called s)
               else (Inr (), (called s)\<lparr>sys_files := (sys_files s)(old := None, new \<mapsto> f)\<rparr>))"

text \<open>\<open>os.Remove\<close> of a file; its error is ignored wherever the program calls it.\<close>

definition remove :: "path \<Rightarrow> sys \<Rightarrow> sys" where
  "remove p s = (if faulty s then called s else (called s)\<lparr>sys_files := (sys_files s)(p := None)\<rparr>)"

text \<open>\<open>os.ReadFile\<close>, and \<open>os.Open\<close> followed by reads of the whole file.\<close>

definition read_file :: "path \<Rightarrow> sys \<Rightarrow> (err + bytes) \<times> sys" where
  "read_file p s =
     (if faulty s then (Inl io_error, called s)
      else case sys_files s p of None \<Rightarrow> (Inl not_exist, called s)
           | Some f \<Rightarrow> (Inr (f_data f), called s))"

text \<open>\<open>os.Open\<close>, which only needs the file to exist.\<close>

definition open_file :: "path \<Rightarrow> sys \<Rightarrow> (err + unit) \<times> sys" where
  "open_file p s =
     (if faulty s then (Inl io_error, called s)
      else if sys_files s p = None then (Inl not_exist, called s) else (Inr (), called s))"

text \<open>
  One \<open>f.Read(buf)\<close> at the start of an open file, with a buffer of \<open>n\<close> bytes: up to \<open>n\<close> bytes of
  it, or the error \<open>EOF\<close> for an empty file.
\<close>

definition read_prefix :: "path \<Rightarrow> nat \<Rightarrow> sys \<Rightarrow> (err + bytes) \<times> sys" where
  "read_prefix p n s =
     (if faulty s then (Inl io_error, called s)
      else case sys_files s p of None \<Rightarrow> (Inl not_exist, called s)
           | Some f \<Rightarrow> if f_data f = [] then (Inl (Plain ''EOF''), called s)
                     else (Inr (take n (f_data f)), called s))"

text \<open>\<open>os.OpenFile(p, O_WRONLY|O_CREATE|O_TRUNC)\<close>.\<close>

definition open_trunc :: "path \<Rightarrow> sys \<Rightarrow> (err + unit) \<times> sys" where
  "open_trunc p s =
     (if faulty s then (Inl io_error, called s)
      else if filepath_dir p \<notin> sys_dirs s then (Inl not_exist, called s)
      else if p \<in> sys_dirs s then (Inl (Plain ''is a directory''), called s)
      else (Inr (), (called s)\<lparr>sys_files :=
              (sys_files s)(p \<mapsto> \<lparr>f_data = [], f_mtime = sys_clock s (sys_calls s)\<rparr>)\<rparr>))"

text \<open>
  \<open>f.Write(data)\<close> on a file open for writing at its end: a failing write may have written a
  prefix of the data.
\<close>

definition append_data :: "path \<Rightarrow> bytes \<Rightarrow> sys \<Rightarrow> sys" where
  "append_data p data s =
     (case sys_files s p of None \<Rightarrow> s
      | Some f \<Rightarrow> s\<lparr>sys_files := (sys_files s)(p \<mapsto>
          \<lparr>f_data = f_data f @ data, f_mtime = sys_clock s (sys_calls s)\<rparr>)\<rparr>)"

definition write_data :: "path \<Rightarrow> bytes \<Rightarrow> sys \<Rightarrow> (err + unit) \<times> sys" where
  "write_data p data s =
     (case sys_fault s (sys_calls s) of
        Some k \<Rightarrow> (Inl io_error, called (append_data p (take k data) s))
      | None \<Rightarrow> (Inr (), called (append_data p data s)))"

definition close_file :: "path \<Rightarrow> sys \<Rightarrow> (err + unit) \<times> sys" where
  "close_file p s = (if faulty s then (Inl io_error, called s) else (Inr (), called s))"

text \<open>
  \<open>os.CreateTemp(dir, "tmp-*")\<close>: an empty file under a name that the random source chooses and
  that no file has yet; it gives up with an error when it finds no free name.
\<close>

definition temp_name :: "path \<Rightarrow> nat \<Rightarrow> path" where
  "temp_name dir n = dir @ ''/tmp-'' @ nat_digits n"

definition create_temp :: "path \<Rightarrow> sys \<Rightarrow> (err + path) \<times> sys" where
  "create_temp dir s =
     (let p = temp_name dir (sys_rand s (sys_calls s))
      in if faulty s then (Inl io_error, called s)
         else if dir \<notin> sys_dirs s then (Inl not_exist, called s)
         else if sys_files s p \<noteq> None \<or> p \<in> sys_dirs s then (Inl (Plain ''file exists''), called s)
         else (Inr p, (called s)\<lparr>sys_files :=
                 (sys_files s)(p \<mapsto> \<lparr>f_data = [], f_mtime = sys_clock s (sys_calls s)\<rparr>)\<rparr>))"

text \<open>
  \<open>os.ReadDir\<close>: the names in a directory, sorted, each with its \<open>IsDir\<close>.
\<close>

definition child_names :: "path \<Rightarrow> path set \<Rightarrow> string set" where
  "child_names dir ps =
     (\<lambda>p. drop (Suc (length dir)) p) `
       {p \<in> ps. take (Suc (length dir)) p = dir @ ''/'' \<and> drop (Suc (length dir)) p \<noteq> []
          \<and> CHR ''/'' \<notin> set (drop (Suc (length dir)) p)}"

definition read_dir :: "path \<Rightarrow> sys \<Rightarrow> (err + (string \<times> bool) list) \<times> sys" where
  "read_dir dir s =
     (if faulty s then (Inl io_error, called s)
      else if dir \<notin> sys_dirs s then (Inl not_exist, called s)
      else (Inr (map (\<lambda>n. (n, dir @ ''/'' @ n \<in> sys_dirs s))
                  (sorted_list_of_set (child_names dir (dom (sys_files s) \<union> sys_dirs s)))), called s))"

subsection \<open>Frames\<close>

text \<open>The oracles never change; only the number of calls made does.\<close>

definition same_oracles :: "sys \<Rightarrow> sys \<Rightarrow> bool" where
  "same_oracles s t \<longleftrightarrow> sys_fault t = sys_fault s \<and> sys_clock t = sys_clock s
     \<and> sys_rand t = sys_rand s \<and> sys_calls s \<le> sys_calls t"

lemma same_oracles_refl [simp]: "same_oracles s s"
  by (simp add: same_oracles_def)

lemma same_oracles_trans: "same_oracles s t \<Longrightarrow> same_oracles t u \<Longrightarrow> same_oracles s u"
  by (auto simp: same_oracles_def)

lemma no_faults_mono: "no_faults s \<Longrightarrow> same_oracles s t \<Longrightarrow> no_faults t"
  by (auto simp: no_faults_def same_oracles_def)

lemma no_faults_not_faulty [simp]: "no_faults s \<Longrightarrow> \<not> faulty s"
  by (simp add: no_faults_def faulty_def)

lemma called_simps [simp]:
  "sys_files (called s) = sys_files s" "sys_dirs (called s) = sys_dirs s"
  "sys_fault (called s) = sys_fault s" "sys_clock (called s) = sys_clock s"
  "sys_rand (called s) = sys_rand s" "sys_calls (called s) = Suc (sys_calls s)"
  by (simp_all add: called_def)

lemma no_faults_called [simp]: "no_faults s \<Longrightarrow> no_faults (called s)"
  by (simp add: no_faults_def)

lemma no_faults_files [simp]:
  "no_faults (s\<lparr>sys_files := f\<rparr>) = no_faults s" "no_faults (s\<lparr>sys_dirs := d\<rparr>) = no_faults s"
  by (simp_all add: no_faults_def)

text \<open>
  What each call may change: its own file, and (only \<open>MkdirAll\<close>) the directories, which grow.
\<close>

definition touches :: "path set \<Rightarrow> sys \<Rightarrow> sys \<Rightarrow> bool" where
  "touches P s t \<longleftrightarrow> same_oracles s t \<and> sys_dirs s \<subseteq> sys_dirs t
     \<and> (\<forall>q. q \<notin> P \<longrightarrow> sys_files t q = sys_files s q)"

lemma touches_refl [simp]: "touches P s s"
  by (simp add: touches_def)

lemma touches_trans [trans]: "touches P s t \<Longrightarrow> touches P t u \<Longrightarrow> touches P s u"
  by (auto simp: touches_def intro: same_oracles_trans)

lemma touches_mono: "touches P s t \<Longrightarrow> P \<subseteq> Q \<Longrightarrow> touches Q s t"
  by (auto simp: touches_def)

lemma touches_file: "touches P s t \<Longrightarrow> q \<notin> P \<Longrightarrow> sys_files t q = sys_files s q"
  by (simp add: touches_def)

lemma touches_no_faults: "touches P s t \<Longrightarrow> no_faults s \<Longrightarrow> no_faults t"
  by (auto simp: touches_def intro: no_faults_mono)

lemma touches_dirs: "touches P s t \<Longrightarrow> d \<in> sys_dirs s \<Longrightarrow> d \<in> sys_dirs t"
  by (auto simp: touches_def)

lemma touches_called [simp]: "touches P s (called s)"
  by (simp add: touches_def same_oracles_def)

lemmas call_defs = stat_def mkdir_all_def rename_def remove_def read_file_def read_prefix_def
  open_file_def open_trunc_def append_data_def write_data_def close_file_def create_temp_def
  now_def random_def

lemma calls_touch:
  "touches P s (snd (now s))"
  "touches P s (snd (stat p s))"
  "touches P s (snd (mkdir_all p s))"
  "touches P s (snd (read_file p s))"
  "touches P s (snd (read_prefix p n s))"
  "touches P s (snd (open_file p s))"
  "touches P s (snd (close_file p s))"
  "p \<in> P \<Longrightarrow> touches P s (remove p s)"
  "p \<in> P \<Longrightarrow> touches P s (snd (open_trunc p s))"
  "p \<in> P \<Longrightarrow> touches P s (snd (write_data p data s))"
  "p \<in> P \<Longrightarrow> q \<in> P \<Longrightarrow> touches P s (snd (rename p q s))"
  by (auto simp: call_defs touches_def same_oracles_def Let_def split: option.splits)

lemma touches_called_remove: "p \<in> P \<Longrightarrow> touches P s (remove p (called s))"
  by (rule touches_trans [OF touches_called calls_touch(8)])

text \<open>
  A call, then what the code does on its error and on its result: the shape of
  \<open>if err != nil\<close>.
\<close>

lemma touches_case [intro]:
  assumes "touches P s (snd c)"
    and "\<And>e s1. c = (Inl e, s1) \<Longrightarrow> touches P s1 (snd (h e s1))"
    and "\<And>x s1. c = (Inr x, s1) \<Longrightarrow> touches P s1 (snd (k x s1))"
  shows "touches P s (snd (case c of (Inl e, s1) \<Rightarrow> h e s1 | (Inr x, s1) \<Rightarrow> k x s1))"
  using assms by (auto split: prod.splits sum.splits intro: touches_trans)

text \<open>A file that a call does not name stays as it was; so does every file when \<open>rename\<close> fails.\<close>

lemma calls_file:
  "now s = (x, t) \<Longrightarrow> sys_files t q = sys_files s q"
  "stat p s = (y, t) \<Longrightarrow> sys_files t q = sys_files s q"
  "mkdir_all p s = (z, t) \<Longrightarrow> sys_files t q = sys_files s q"
  "close_file p s = (w, t) \<Longrightarrow> sys_files t q = sys_files s q"
  "open_trunc p s = (w, t) \<Longrightarrow> q \<noteq> p \<Longrightarrow> sys_files t q = sys_files s q"
  "write_data p data s = (w, t) \<Longrightarrow> q \<noteq> p \<Longrightarrow> sys_files t q = sys_files s q"
  "rename p p' s = (w, t) \<Longrightarrow> q \<noteq> p \<Longrightarrow> q \<noteq> p' \<Longrightarrow> sys_files t q = sys_files s q"
  "rename p p' s = (Inl e, t) \<Longrightarrow> sys_files t q = sys_files s q"
  by (auto simp: call_defs Let_def split: option.splits if_splits)

lemma remove_file [simp]: "q \<noteq> p \<Longrightarrow> sys_files (remove p s) q = sys_files s q"
  by (simp add: remove_def)

lemma close_file_snd [simp]: "snd (close_file p s) = called s"
  by (simp add: close_file_def)

lemma stat_state [simp]: "snd (stat p s) = called s"
  by (auto simp: stat_def split: option.splits)

end
