(* ===== verification/Digest.thy ===== *)
theory Digest
  imports Sha256 Os
begin

text \<open>
  Hexadecimal encoding and content digests: \<open>internal/reapi/digest.go\<close>, with the decoder of Go's
  \<open>encoding/hex\<close> that \<open>HexDecode\<close> calls.
\<close>

subsection \<open>Hex\<close>

definition hex_digits :: string where
  "hex_digits = ''0123456789abcdef''"

text \<open>The loop of \<open>HexEncodeFixed\<close>: two digits per byte, the high nibble first.\<close>

fun hex_encode_fixed :: "bytes \<Rightarrow> string" where
  "hex_encode_fixed [] = []"
| "hex_encode_fixed (v # src) =
     hex_digits ! unat (drop_bit 4 v) # hex_digits ! unat (v AND 0x0f) # hex_encode_fixed src"

definition hex_encode :: "bytes \<Rightarrow> string" where
  "hex_encode b = hex_encode_fixed b"

text \<open>
  \<open>hex.DecodeString\<close>: pairs of digits of either case; the first byte that is no digit is
  reported before an odd length is.
\<close>

datatype hex_error = InvalidByte char | ErrLength

definition from_hex_char :: "char \<Rightarrow> byte option" where
  "from_hex_char c =
     (let n = of_char c :: nat
      in if 0x30 \<le> n \<and> n \<le> 0x39 then Some (of_nat (n - 0x30))
         else if 0x61 \<le> n \<and> n \<le> 0x66 then Some (of_nat (n - 0x61 + 10))
         else if 0x41 \<le> n \<and> n \<le> 0x46 then Some (of_nat (n - 0x41 + 10))
         else None)"

fun hex_decode :: "string \<Rightarrow> hex_error + bytes" where
  "hex_decode [] = Inr []"
| "hex_decode [a] = (case from_hex_char a of None \<Rightarrow> Inl (InvalidByte a) | Some _ \<Rightarrow> Inl ErrLength)"
| "hex_decode (a # b # s) =
     (case from_hex_char a of
        None \<Rightarrow> Inl (InvalidByte a)
      | Some x \<Rightarrow> (case from_hex_char b of
          None \<Rightarrow> Inl (InvalidByte b)
        | Some y \<Rightarrow> (case hex_decode s of
            Inl e \<Rightarrow> Inl e
          | Inr bs \<Rightarrow> Inr ((push_bit 4 x OR y) # bs))))"

lemma nibble_bounds:
  "unat (drop_bit 4 (v::byte)) < 16" "unat ((v::byte) AND 0x0f) < 16"
proof -
  have "unat v < 2 ^ LENGTH(8)" by (rule unsigned_less)
  then have "unat v div 2 ^ 4 < 16"
    by simp
  then show "unat (drop_bit 4 v) < 16"
    by (metis drop_bit_eq_div unat_drop_bit_eq)
  have "unat (v AND 0x0f) \<le> unat (0x0f :: byte)"
    by (rule word_and_le1 [THEN word_le_nat_alt [THEN iffD1]])
  then show "unat (v AND 0x0f) < 16" by simp
qed

lemma nibbles_join: "push_bit 4 (drop_bit 4 v) OR (v AND 0x0f) = (v :: byte)"
proof -
  have "v AND 0x0f = take_bit 4 v"
    by (simp add: take_bit_eq_mask mask_eq_exp_minus_1)
  then show ?thesis
    by (auto intro!: bit_eqI simp: bit_simps)
qed

lemma less_16_cases:
  "(n::nat) < 16 \<longleftrightarrow> n \<in> {0, 1, 2, 3, 4, 5, 6, 7, 8, 9, 10, 11, 12, 13, 14, 15}"
  by (simp only: insert_iff empty_iff) arith

lemma from_hex_char_digit: "n < 16 \<Longrightarrow> from_hex_char (hex_digits ! n) = Some (of_nat n)"
  unfolding less_16_cases by (auto simp: from_hex_char_def hex_digits_def Let_def)

lemma hex_digit_in_set: "n < 16 \<Longrightarrow> hex_digits ! n \<in> set hex_digits"
  by (rule nth_mem) (simp add: hex_digits_def)

lemma length_hex_encode [simp]: "length (hex_encode b) = 2 * length b"
  unfolding hex_encode_def by (induction b) auto

lemma set_hex_encode: "set (hex_encode b) \<subseteq> set hex_digits"
  unfolding hex_encode_def
  by (induction b) (auto simp: nibble_bounds intro: hex_digit_in_set)

lemma hex_decode_encode [simp]: "hex_decode (hex_encode b) = Inr b"
  unfolding hex_encode_def
  by (induction b) (auto simp: from_hex_char_digit nibble_bounds nibbles_join)

lemma hex_encode_inject [simp]: "hex_encode a = hex_encode b \<longleftrightarrow> a = b"
  by (metis hex_decode_encode sum.inject(2))

lemma hex_encode_no_slash: "CHR ''/'' \<notin> set (hex_encode b)"
  using set_hex_encode [of b] by (auto simp: hex_digits_def)

text \<open>What the decoder accepts: an even number of hexadecimal digits.\<close>

definition is_hex :: "char \<Rightarrow> bool" where
  "is_hex c \<longleftrightarrow> from_hex_char c \<noteq> None"

lemma hex_decode_accepts:
  "(\<exists>bs. hex_decode s = Inr bs) \<longleftrightarrow> even (length s) \<and> (\<forall>c \<in> set s. is_hex c)"
  by (induction s rule: hex_decode.induct)
     (auto simp: is_hex_def split: option.splits sum.splits)

text \<open>Decoding forgets the case of the digits and nothing else.\<close>

definition lower_hex :: "char \<Rightarrow> char" where
  "lower_hex c = (let n = of_char c :: nat
     in if 0x41 \<le> n \<and> n \<le> 0x46 then char_of (n + 0x20) else c)"

lemma hex_char_cases:
  assumes "is_hex c"
  shows "c \<in> set ''0123456789abcdefABCDEF''"
proof -
  have "(of_char c :: nat) \<in> {48..<58} \<union> {97..<103} \<union> {65..<71}"
    using assms by (auto simp: is_hex_def from_hex_char_def Let_def split: if_splits)
  then have "char_of (of_char c :: nat) \<in> char_of ` ({48..<58} \<union> {97..<103} \<union> {65..<71::nat})"
    by (rule imageI)
  also have "{48..<58} \<union> {97..<103} \<union> {65..<71::nat} = set ([48..<58] @ [97..<103] @ [65..<71])"
    by (simp only: set_append atLeastLessThan_upt Un_assoc)
  finally have "c \<in> char_of ` set ([48..<58::nat] @ [97..<103] @ [65..<71])"
    by (simp only: char_of_char)
  then show ?thesis
    by (simp add: upt_rec_numeral char_of_def bit_numeral_rec bit_0)
qed

lemma hex_char_lower:
  "from_hex_char c = Some x \<Longrightarrow> unat x < 16 \<and> hex_digits ! unat x = lower_hex c"
  using hex_char_cases [of c]
  by (auto simp: is_hex_def from_hex_char_def lower_hex_def hex_digits_def Let_def
      char_of_def bit_numeral_rec bit_0)

lemma nibbles_split:
  assumes "unat x < 16" and "unat y < 16"
  shows "drop_bit 4 (push_bit 4 x OR y) = (x :: byte)" "(push_bit 4 x OR y) AND 0x0f = (y :: byte)"
proof -
  have "take_bit 4 x = x" "take_bit 4 y = y"
    using assms by (simp_all add: word_unat_eq_iff unsigned_take_bit_eq take_bit_nat_eq_self)
  then have xy: "bit x n \<Longrightarrow> n < 4" "bit y n \<Longrightarrow> n < 4" for n
    by (metis bit_take_bit_iff)+
  show "drop_bit 4 (push_bit 4 x OR y) = x"
    by (auto intro!: bit_eqI simp: bit_simps dest: xy)
  have "(push_bit 4 x OR y) AND 0x0f = take_bit 4 (push_bit 4 x OR y)"
    by (simp add: take_bit_eq_mask mask_eq_exp_minus_1)
  also have "\<dots> = y"
    using xy by (auto intro!: bit_eqI simp: bit_simps)
  finally show "(push_bit 4 x OR y) AND 0x0f = y" .
qed

lemma hex_encode_decode: "hex_decode s = Inr bs \<Longrightarrow> hex_encode bs = map lower_hex s"
  unfolding hex_encode_def
proof (induction s arbitrary: bs rule: hex_decode.induct)
  case (3 a b s)
  then obtain x y r where s: "from_hex_char a = Some x" "from_hex_char b = Some y"
    "hex_decode s = Inr r" "bs = (push_bit 4 x OR y) # r"
    by (auto split: option.splits sum.splits)
  note split = nibbles_split [of x y]
  from s 3 show ?case
    using hex_char_lower [of a x] hex_char_lower [of b y] split
    by (simp del: drop_bit_or)
qed (auto split: option.splits)

text \<open>
  Hexadecimal encoding is faithful. Decoding an encoded byte string gives it back; the encoding
  has two lower-case digits per byte; a string is decoded exactly when it has even length and
  only hexadecimal digits, and re-encoding the result gives the string in lower case.
\<close>

lemma hex_round_trip:
  "hex_decode (hex_encode b) = Inr b
   \<and> length (hex_encode b) = 2 * length b
   \<and> set (hex_encode b) \<subseteq> set hex_digits
   \<and> ((\<exists>bs. hex_decode s = Inr bs) = (even (length s) \<and> list_all is_hex s))
   \<and> (case hex_decode s of Inl _ \<Rightarrow> True | Inr bs \<Rightarrow> hex_encode bs = map lower_hex s)"
  using set_hex_encode [of b] hex_decode_accepts [of s]
  by (auto simp: hex_encode_decode list_all_iff split: sum.splits)

subsection \<open>Digests\<close>

record digest =
  d_hash :: string
  d_size :: int

text \<open>The protocol buffer \<open>Digest\<close>, with its two fields; reading a missing one gives zero values.\<close>

record proto_digest =
  pd_hash :: string
  pd_size_bytes :: int

definition to_proto :: "digest \<Rightarrow> proto_digest" where
  "to_proto d = \<lparr>pd_hash = d_hash d, pd_size_bytes = d_size d\<rparr>"

definition fill_proto :: "digest \<Rightarrow> proto_digest \<Rightarrow> proto_digest" where
  "fill_proto d pd = pd\<lparr>pd_hash := d_hash d, pd_size_bytes := d_size d\<rparr>"

definition digest_from_proto :: "proto_digest option \<Rightarrow> digest" where
  "digest_from_proto pd =
     (case pd of None \<Rightarrow> \<lparr>d_hash = [], d_size = 0\<rparr>
      | Some p \<Rightarrow> \<lparr>d_hash = pd_hash p, d_size = pd_size_bytes p\<rparr>)"

definition digest_bytes :: "bytes \<Rightarrow> digest" where
  "digest_bytes data = \<lparr>d_hash = hex_encode_fixed (sha256 data), d_size = int (length data)\<rparr>"

definition digest_file :: "path \<Rightarrow> sys \<Rightarrow> (err + digest) \<times> sys" where
  "digest_file p s =
     (case open_file p s of
        (Inl e, s1) \<Rightarrow> (Inl e, s1)
      | (Inr _, s1) \<Rightarrow>
          (case read_file p s1 of
             (Inl e, s2) \<Rightarrow> (Inl e, s2)
           | (Inr data, s2) \<Rightarrow>
               (Inr \<lparr>d_hash = hex_encode_fixed (sha256 data), d_size = int (length data)\<rparr>, s2)))"

lemma digest_from_to_proto [simp]: "digest_from_proto (Some (to_proto d)) = d"
  by (simp add: digest_from_proto_def to_proto_def)

lemma fill_proto_to_proto [simp]: "fill_proto d pd = to_proto d"
  by (simp add: fill_proto_def to_proto_def)

lemma digest_bytes_simps [simp]:
  "d_hash (digest_bytes data) = hex_encode (sha256 data)"
  "d_size (digest_bytes data) = int (length data)"
  by (simp_all add: digest_bytes_def hex_encode_def)

lemma digest_bytes_eq_iff:
  "digest_bytes a = digest_bytes b \<longleftrightarrow> sha256 a = sha256 b \<and> length a = length b"
  using hex_encode_inject by (auto simp: digest_bytes_def hex_encode_def [symmetric])

lemma length_digest_hash: "length (d_hash (digest_bytes data)) = 64"
  by simp

text \<open>
  A digest computed from a file is the digest of its contents: \<open>DigestFile\<close> fails only when
  a system call fails or the file is missing, and otherwise returns what \<open>DigestBytes\<close> returns
  on the file's bytes; the hash is always 64 hexadecimal digits.
\<close>

lemma digest_file_spec:
  "fst (digest_file p s) =
     (if faulty s \<or> (sys_files s p \<noteq> None \<and> faulty (called s)) then Inl io_error
      else case sys_files s p of None \<Rightarrow> Inl not_exist | Some f \<Rightarrow> Inr (digest_bytes (f_data f)))
   \<and> length (d_hash (digest_bytes data)) = 64 \<and> set (d_hash (digest_bytes data)) \<subseteq> set hex_digits"
  using set_hex_encode [of "sha256 data"] length_digest_hash [of data]
  by (auto simp: digest_file_def open_file_def read_file_def digest_bytes_def hex_encode_def
      split: option.splits)

end
