(* ===== verification/Text.thy ===== *)
theory Text
  imports Prelude
begin

unbundle bit_operations_syntax

text \<open>
  The textual encodings of Go's standard library that the program's files and messages use:
  UTF-8 (\<open>unicode/utf8\<close>), integers (\<open>strconv.ParseInt\<close>) and standard base64
  (\<open>encoding/base64\<close>).
\<close>

abbreviation code_of :: "char \<Rightarrow> nat" where
  "code_of c \<equiv> of_char c"

definition is_digit :: "char \<Rightarrow> bool" where
  "is_digit c \<longleftrightarrow> 0x30 \<le> code_of c \<and> code_of c \<le> 0x39"

subsection \<open>Integers\<close>

fun digits_value :: "int \<Rightarrow> string \<Rightarrow> int" where
  "digits_value n [] = n"
| "digits_value n (c # cs) = digits_value (10 * n + int (code_of c - 0x30)) cs"

definition parse_uint :: "string \<Rightarrow> int option" where
  "parse_uint s = (if s \<noteq> [] \<and> list_all is_digit s then Some (digits_value 0 s) else None)"

text \<open>\<open>strconv.ParseInt(s, 10, 64)\<close>; \<open>strconv.Atoi\<close> is the same on a 64-bit machine.\<close>

definition parse_int :: "string \<Rightarrow> int option" where
  "parse_int s =
     (let (sgn, body) = (case s of
            c # cs \<Rightarrow> if c = CHR ''-'' then (-1, cs) else if c = CHR ''+'' then (1, cs) else (1, s)
          | [] \<Rightarrow> (1, s))
      in case parse_uint body of
           None \<Rightarrow> None
         | Some n \<Rightarrow> if in_i64 (sgn * n) then Some (sgn * n) else None)"

lemma parse_int_range: "parse_int s = Some i \<Longrightarrow> in_i64 i"
  by (auto simp: parse_int_def split: prod.splits option.splits if_splits)

lemma digits_value_append: "digits_value n (a @ b) = digits_value (digits_value n a) b"
  by (induction n a rule: digits_value.induct) auto

lemma code_of_digit: "(d::nat) < 10 \<Longrightarrow> code_of (char_of (48 + d)) = 48 + d"
  by simp

lemma is_digit_digit: "(d::nat) < 10 \<Longrightarrow> is_digit (char_of (48 + d))"
  by (simp add: is_digit_def)

lemma nat_digits_parse:
  "list_all is_digit (nat_digits n) \<and> digits_value 0 (nat_digits n) = int n"
proof (induction n rule: nat_digits.induct)
  case (1 n)
  show ?case
  proof (cases "n < 10")
    case True
    then show ?thesis
      by (simp add: nat_digits.simps [of n] is_digit_def)
  next
    case False
    with 1 have IH: "list_all is_digit (nat_digits (n div 10))"
      "digits_value 0 (nat_digits (n div 10)) = int (n div 10)" by auto
    have "code_of (char_of (48 + n mod 10)) = 48 + n mod 10"
      by (rule code_of_digit) simp
    moreover have "10 * int (n div 10) + int (n mod 10) = int n"
      by (metis mult_div_mod_eq of_nat_add of_nat_mult of_nat_numeral)
    ultimately show ?thesis using False IH
      by (simp add: nat_digits.simps [of n] digits_value_append is_digit_digit)
  qed
qed

lemma parse_uint_digits [simp]: "parse_uint (nat_digits n) = Some (int n)"
  by (simp add: parse_uint_def nat_digits_parse)

lemma nat_digits_hd: "is_digit (hd (nat_digits n))"
  using nat_digits_parse [of n] by (cases "nat_digits n") auto

lemma parse_int_show [simp]: "in_i64 i \<Longrightarrow> parse_int (show_int i) = Some i"
proof (cases "i < 0")
  case True
  moreover assume "in_i64 i"
  ultimately show ?thesis by (simp add: parse_int_def show_int_def)
next
  case False
  assume "in_i64 i"
  have "hd (nat_digits (nat i)) \<noteq> CHR ''-''" "hd (nat_digits (nat i)) \<noteq> CHR ''+''"
    using nat_digits_hd [of "nat i"] by (auto simp: is_digit_def)
  then have "parse_int (nat_digits (nat i)) =
    (case parse_uint (nat_digits (nat i)) of None \<Rightarrow> None
     | Some n \<Rightarrow> if in_i64 (1 * n) then Some (1 * n) else None)"
    by (cases "nat_digits (nat i)") (auto simp: parse_int_def)
  with False \<open>in_i64 i\<close> show ?thesis by (simp add: show_int_def)
qed

subsection \<open>UTF-8\<close>

text \<open>
  \<open>utf8.DecodeRune\<close>: the first code point of a string and the number of bytes it takes; \<open>None\<close>
  for an invalid encoding (Go then yields U+FFFD, of width one).
\<close>

definition is_cont :: "char \<Rightarrow> bool" where
  "is_cont c \<longleftrightarrow> 0x80 \<le> code_of c \<and> code_of c \<le> 0xBF"

definition decode_rune :: "string \<Rightarrow> (nat \<times> nat) option" where
  "decode_rune s =
     (case s of [] \<Rightarrow> None
      | a # r \<Rightarrow>
          (let x = code_of a in
           if x < 0x80 then Some (x, 1)
           else if 0xC2 \<le> x \<and> x \<le> 0xDF then
             (case r of b # _ \<Rightarrow>
                if is_cont b then Some ((x - 0xC0) * 64 + (code_of b - 0x80), 2) else None
              | _ \<Rightarrow> None)
           else if 0xE0 \<le> x \<and> x \<le> 0xEF then
             (case r of b # c # _ \<Rightarrow>
                if is_cont b \<and> is_cont c \<and> (x = 0xE0 \<longrightarrow> 0xA0 \<le> code_of b)
                   \<and> (x = 0xED \<longrightarrow> code_of b \<le> 0x9F)
                then Some ((x - 0xE0) * 4096 + (code_of b - 0x80) * 64 + (code_of c - 0x80), 3)
                else None
              | _ \<Rightarrow> None)
           else if 0xF0 \<le> x \<and> x \<le> 0xF4 then
             (case r of b # c # d # _ \<Rightarrow>
                if is_cont b \<and> is_cont c \<and> is_cont d \<and> (x = 0xF0 \<longrightarrow> 0x90 \<le> code_of b)
                   \<and> (x = 0xF4 \<longrightarrow> code_of b \<le> 0x8F)
                then Some ((x - 0xF0) * 262144 + (code_of b - 0x80) * 4096
                           + (code_of c - 0x80) * 64 + (code_of d - 0x80), 4)
                else None
              | _ \<Rightarrow> None)
           else None))"

text \<open>\<open>utf8.EncodeRune\<close>; a surrogate or a number that is no code point is encoded as U+FFFD.\<close>

definition encode_rune :: "nat \<Rightarrow> string" where
  "encode_rune r0 =
     (let r = (if (0xD800 \<le> r0 \<and> r0 \<le> 0xDFFF) \<or> 0x10FFFF < r0 then 0xFFFD else r0) in
      if r < 0x80 then [char_of r]
      else if r < 0x800 then [char_of (0xC0 + r div 64), char_of (0x80 + r mod 64)]
      else if r < 0x10000 then
        [char_of (0xE0 + r div 4096), char_of (0x80 + r div 64 mod 64), char_of (0x80 + r mod 64)]
      else [char_of (0xF0 + r div 262144), char_of (0x80 + r div 4096 mod 64),
            char_of (0x80 + r div 64 mod 64), char_of (0x80 + r mod 64)])"

lemma decode_rune_ascii: "code_of c < 0x80 \<Longrightarrow> decode_rune (c # s) = Some (code_of c, 1)"
  by (simp add: decode_rune_def Let_def)

lemma decode_rune_width: "decode_rune s = Some (r, n) \<Longrightarrow> 0 < n \<and> n \<le> length s"
  by (auto simp: decode_rune_def Let_def split: list.splits if_splits)

subsection \<open>Quoting\<close>

text \<open>
  \<open>strconv.Quote\<close>, the verb \<open>%q\<close>. Exact for code points up to U+00FF; above, every code point counts
  as printable (the tables of \<open>strconv.IsPrint\<close> are not modelled).
\<close>

definition go_print :: "nat \<Rightarrow> bool" where
  "go_print r \<longleftrightarrow> (if r \<le> 0xFF then (0x20 \<le> r \<and> r < 0x7F) \<or> (0xA1 \<le> r \<and> r \<noteq> 0xAD) else True)"

fun hex_text :: "nat \<Rightarrow> nat \<Rightarrow> string" where
  "hex_text 0 n = []"
| "hex_text (Suc k) n = hex_text k (n div 16) @ [''0123456789abcdef'' ! (n mod 16)]"

definition quote_rune :: "nat \<Rightarrow> string" where
  "quote_rune r =
     (if r = 0x22 \<or> r = 0x5C then [CHR 0x5C, char_of r]
      else if go_print r then encode_rune r
      else case map_of (zip [7, 8, 12, 10, 13, 9, 11] ''abfnrtv'') r of
             Some c \<Rightarrow> [CHR 0x5C, c]
           | None \<Rightarrow> if r < 0x20 \<or> r = 0x7F then [CHR 0x5C, CHR ''x''] @ hex_text 2 r
                     else [CHR 0x5C, CHR ''u''] @ hex_text 4 r)"

function quote_text :: "string \<Rightarrow> string" where
  "quote_text s =
     (if s = [] then []
      else case decode_rune s of
             None \<Rightarrow> [CHR 0x5C, CHR ''x''] @ hex_text 2 (code_of (hd s)) @ quote_text (tl s)
           | Some (r, n) \<Rightarrow> quote_rune r @ quote_text (drop n s))"
  by pat_completeness auto

termination
  by (relation "measure length") (auto dest: decode_rune_width)

declare quote_text.simps [simp del]

definition go_quote :: "string \<Rightarrow> string" where
  "go_quote s = [CHR 0x22] @ quote_text s @ [CHR 0x22]"

subsection \<open>Base64\<close>

definition b64_alphabet :: string where
  "b64_alphabet = ''ABCDEFGHIJKLMNOPQRSTUVWXYZabcdefghijklmnopqrstuvwxyz0123456789+/''"

definition b64_char :: "nat \<Rightarrow> char" where
  "b64_char n = b64_alphabet ! n"

text \<open>\<open>StdEncoding.EncodeToString\<close>: three bytes to four characters, padded with \<open>=\<close>.\<close>

fun b64_encode :: "bytes \<Rightarrow> string" where
  "b64_encode [] = []"
| "b64_encode [a] =
     [b64_char (unat (drop_bit 2 a)), b64_char (unat (push_bit 4 (a AND 0x03))), CHR ''='', CHR ''='']"
| "b64_encode [a, b] =
     [b64_char (unat (drop_bit 2 a)),
      b64_char (unat (push_bit 4 (a AND 0x03) OR drop_bit 4 b)),
      b64_char (unat (push_bit 2 (b AND 0x0f))), CHR ''='']"
| "b64_encode (a # b # c # r) =
     b64_char (unat (drop_bit 2 a))
     # b64_char (unat (push_bit 4 (a AND 0x03) OR drop_bit 4 b))
     # b64_char (unat (push_bit 2 (b AND 0x0f) OR drop_bit 6 c))
     # b64_char (unat (c AND 0x3f)) # b64_encode r"

definition b64_value :: "char \<Rightarrow> byte option" where
  "b64_value c =
     (let n = code_of c in
      if 0x41 \<le> n \<and> n \<le> 0x5A then Some (of_nat (n - 0x41))
      else if 0x61 \<le> n \<and> n \<le> 0x7A then Some (of_nat (n - 0x61 + 26))
      else if 0x30 \<le> n \<and> n \<le> 0x39 then Some (of_nat (n - 0x30 + 52))
      else if c = CHR ''+'' then Some 62 else if c = CHR ''/'' then Some 63 else None)"

text \<open>
  \<open>StdEncoding.DecodeString\<close>, the non-strict decoder: line breaks are skipped, unused trailing bits
  are ignored, padding is required, nothing may follow it.
\<close>

fun b64_groups :: "string \<Rightarrow> bytes option" where
  "b64_groups [] = Some []"
| "b64_groups [a, b, c, d] =
     (case (b64_value a, b64_value b) of
        (Some w, Some x) \<Rightarrow>
          if d = CHR ''='' then
            (if c = CHR ''='' then Some [push_bit 2 w OR drop_bit 4 x]
             else case b64_value c of None \<Rightarrow> None
                  | Some y \<Rightarrow> Some [push_bit 2 w OR drop_bit 4 x, push_bit 4 x OR drop_bit 2 y])
          else (case (b64_value c, b64_value d) of
                  (Some y, Some z) \<Rightarrow>
                    Some [push_bit 2 w OR drop_bit 4 x, push_bit 4 x OR drop_bit 2 y,
                          push_bit 6 y OR z]
                | _ \<Rightarrow> None)
      | _ \<Rightarrow> None)"
| "b64_groups (a # b # c # d # e # r) =
     (case (b64_value a, b64_value b, b64_value c, b64_value d) of
        (Some w, Some x, Some y, Some z) \<Rightarrow>
          (case b64_groups (e # r) of None \<Rightarrow> None
           | Some bs \<Rightarrow> Some ((push_bit 2 w OR drop_bit 4 x) # (push_bit 4 x OR drop_bit 2 y)
                             # (push_bit 6 y OR z) # bs))
      | _ \<Rightarrow> None)"
| "b64_groups _ = None"

definition b64_decode :: "string \<Rightarrow> bytes option" where
  "b64_decode s = b64_groups (filter (\<lambda>c. c \<noteq> CHR 0x0D \<and> c \<noteq> CHR 0x0A) s)"

lemma less_64_b64_value:
  assumes "n < 64"
  shows "b64_value (b64_char n) = Some (of_nat n) \<and> b64_char n \<in> set b64_alphabet"
proof -
  have "n \<in> set ([0, 1] @ [2..<64])"
    using assms
    by (simp only: set_append set_upt atLeastLessThan_iff list.set Un_iff insert_iff empty_iff) arith
  moreover have "list_all (\<lambda>n. b64_value (b64_char n) = Some (of_nat n)) ([0, 1] @ [2..<64])"
    by (simp add: upt_rec_numeral b64_value_def b64_char_def b64_alphabet_def Let_def)
  moreover have "b64_char n \<in> set b64_alphabet"
    unfolding b64_char_def using assms by (intro nth_mem) (simp add: b64_alphabet_def)
  ultimately show ?thesis by (auto simp only: list_all_iff)
qed

lemma byte_eqI:
  assumes "list_all (\<lambda>n. bit a n = bit b n) [0, 1, 2, 3, 4, 5, 6, 7]"
  shows "a = (b :: byte)"
proof (rule bit_word_eqI)
  fix n assume "n < LENGTH(8)"
  then have "n \<in> set [0, 1, 2, 3, 4, 5, 6, 7]" by simp arith
  with assms show "bit a n = bit b n" by (simp only: list_all_iff)
qed

lemma byte_bit_high: "8 \<le> n \<Longrightarrow> \<not> bit (a :: byte) n"
  by (auto dest: bit_imp_le_length)

lemma mask_low:
  "(a::byte) AND 0x03 = take_bit 2 a" "(a::byte) AND 0x0f = take_bit 4 a" "(a::byte) AND 0x3f = take_bit 6 a"
  by (simp_all add: take_bit_eq_mask mask_eq_exp_minus_1)

lemma sextet_bound: "take_bit 6 (w::byte) = w \<Longrightarrow> unat w < 64"
proof -
  assume "take_bit 6 w = w"
  then have "unat w = take_bit 6 (unat w)" by (metis unsigned_take_bit_eq)
  also have "\<dots> < 2 ^ 6" by (rule take_bit_nat_less_exp)
  finally show ?thesis by simp
qed

lemma sextets:
  "take_bit 6 (drop_bit 2 (a::byte)) = drop_bit 2 a"
  "take_bit 6 (push_bit 4 (take_bit 2 (a::byte))) = push_bit 4 (take_bit 2 a)"
  "take_bit 6 (push_bit 2 (take_bit 4 (b::byte))) = push_bit 2 (take_bit 4 b)"
  "take_bit 6 (push_bit 4 (take_bit 2 (a::byte)) OR drop_bit 4 b) = push_bit 4 (take_bit 2 a) OR drop_bit 4 b"
  "take_bit 6 (push_bit 2 (take_bit 4 (b::byte)) OR drop_bit 6 c) = push_bit 2 (take_bit 4 b) OR drop_bit 6 c"
  "take_bit 6 (take_bit 6 (c::byte)) = take_bit 6 c"
  by (rule byte_eqI, simp add: bit_simps byte_bit_high
      numeral_2_eq_2 [symmetric] numeral_3_eq_3 [symmetric] del: bit_0)+

lemma octets:
  "push_bit 2 (drop_bit 2 a) OR drop_bit 4 (push_bit 4 (take_bit 2 a)) = (a::byte)"
  "push_bit 2 (drop_bit 2 a) OR drop_bit 4 (push_bit 4 (take_bit 2 a) OR drop_bit 4 b) = (a::byte)"
  "push_bit 4 (push_bit 4 (take_bit 2 a) OR drop_bit 4 b) OR drop_bit 2 (push_bit 2 (take_bit 4 b)) = (b::byte)"
  "push_bit 4 (push_bit 4 (take_bit 2 a) OR drop_bit 4 b)
     OR drop_bit 2 (push_bit 2 (take_bit 4 b) OR drop_bit 6 c) = (b::byte)"
  "push_bit 6 (push_bit 2 (take_bit 4 b) OR drop_bit 6 c) OR take_bit 6 c = (c::byte)"
  "push_bit 4 (drop_bit 4 b) OR drop_bit 2 (push_bit 2 (take_bit 4 b)) = (b::byte)"
  "push_bit 6 (drop_bit 6 c) OR take_bit 6 c = (c::byte)"
  by (rule byte_eqI, simp add: bit_simps byte_bit_high
      numeral_2_eq_2 [symmetric] numeral_3_eq_3 [symmetric] del: bit_0)+

lemmas sextet_values =
  sextets [THEN sextet_bound, THEN less_64_b64_value, THEN conjunct1]

lemmas sextet_chars =
  sextets [THEN sextet_bound, THEN less_64_b64_value, THEN conjunct2]

lemma set_b64_encode: "set (b64_encode bs) \<subseteq> insert (CHR ''='') (set b64_alphabet)"
  by (induction bs rule: b64_encode.induct) (auto simp: mask_low sextet_chars)

lemma b64_alphabet_plain:
  "c \<in> set b64_alphabet \<Longrightarrow> c \<noteq> CHR ''='' \<and> c \<noteq> CHR 0x0D \<and> c \<noteq> CHR 0x0A"
  by (auto simp: b64_alphabet_def)

lemma b64_encode_neq_Nil: "b64_encode (a # r) \<noteq> []"
  by (cases "a # r" rule: b64_encode.cases) auto

lemma b64_groups_encode: "b64_groups (b64_encode bs) = Some bs"
proof (induction bs rule: b64_encode.induct)
  case (4 a b c r)
  show ?case
  proof (cases r)
    case Nil
    then show ?thesis
      using sextet_chars(6) [of c, THEN b64_alphabet_plain]
      by (simp add: mask_low sextet_values octets)
  next
    case (Cons x xs)
    then obtain e s where "b64_encode r = e # s" using b64_encode_neq_Nil by (metis neq_Nil_conv)
    with 4 show ?thesis
      by (simp add: mask_low sextet_values octets)
  qed
next
  case (3 a b)
  then show ?case
    using sextet_chars(3) [of b, THEN b64_alphabet_plain]
    by (simp add: mask_low sextet_values octets)
qed (simp_all add: mask_low sextet_values octets)

lemma b64_decode_encode [simp]: "b64_decode (b64_encode bs) = Some bs"
proof -
  have "filter (\<lambda>c. c \<noteq> CHR 0x0D \<and> c \<noteq> CHR 0x0A) (b64_encode bs) = b64_encode bs"
    using set_b64_encode [of bs] b64_alphabet_plain by (intro filter_True) auto
  then show ?thesis by (simp add: b64_decode_def b64_groups_encode)
qed

end
