(* ===== verification/Json.thy ===== *)
theory Json
  imports Digest Text
begin

text \<open>
  JSON as Go's \<open>encoding/json\<close> reads and writes it: the grammar with its string escapes, and the
  rules by which \<open>Unmarshal\<close> stores values into struct fields. A number keeps its literal text, as
  the decoder does until it knows the field's type. The limit of 10000 nested values is left out.
\<close>

datatype json = JNull | JBool bool | JNum string | JStr string
  | JArr "json list" | JObj "(string \<times> json) list"

subsection \<open>Reading\<close>

definition is_ws :: "char \<Rightarrow> bool" where
  "is_ws c \<longleftrightarrow> c = CHR '' '' \<or> c = CHR 0x09 \<or> c = CHR 0x0A \<or> c = CHR 0x0D"

definition skip_ws :: "string \<Rightarrow> string" where
  "skip_ws s = dropWhile is_ws s"

definition span :: "(char \<Rightarrow> bool) \<Rightarrow> string \<Rightarrow> string \<times> string" where
  "span P s = (takeWhile P s, dropWhile P s)"

definition json_frac :: "string \<Rightarrow> (string \<times> string) option" where
  "json_frac s =
     (case s of
        c # r \<Rightarrow> if c = CHR ''.''
          then (case span is_digit r of (ds, q) \<Rightarrow> if ds = [] then None else Some (c # ds, q))
          else Some ([], s)
      | [] \<Rightarrow> Some ([], []))"

definition json_exp :: "string \<Rightarrow> (string \<times> string) option" where
  "json_exp s =
     (case s of
        c # r \<Rightarrow> if c = CHR ''e'' \<or> c = CHR ''E''
          then (let (sg, q) = (case r of d # q \<Rightarrow>
                      if d = CHR ''+'' \<or> d = CHR ''-'' then ([d], q) else ([], r) | [] \<Rightarrow> ([], r))
                in case span is_digit q of (ds, t) \<Rightarrow>
                     if ds = [] then None else Some (c # sg @ ds, t))
          else Some ([], s)
      | [] \<Rightarrow> Some ([], []))"

definition json_int :: "string \<Rightarrow> (string \<times> string) option" where
  "json_int s =
     (case s of
        c # r \<Rightarrow> if c = CHR ''0'' then Some ([c], r)
          else if is_digit c then Some (span is_digit s) else None
      | [] \<Rightarrow> None)"

definition json_number :: "string \<Rightarrow> (string \<times> string) option" where
  "json_number s =
     (let (sg, q) = (case s of c # r \<Rightarrow> if c = CHR ''-'' then ([c], r) else ([], s) | [] \<Rightarrow> ([], s))
      in case json_int q of None \<Rightarrow> None
         | Some (i, q1) \<Rightarrow> (case json_frac q1 of None \<Rightarrow> None
           | Some (f, q2) \<Rightarrow> (case json_exp q2 of None \<Rightarrow> None
             | Some (e, q3) \<Rightarrow> Some (sg @ i @ f @ e, q3))))"

text \<open>Four hexadecimal digits, and what follows a backslash.\<close>

definition json_u4 :: "string \<Rightarrow> (nat \<times> string) option" where
  "json_u4 s =
     (case s of
        a # b # c # d # r \<Rightarrow>
          (case (from_hex_char a, from_hex_char b, from_hex_char c, from_hex_char d) of
             (Some w, Some x, Some y, Some z) \<Rightarrow>
               Some (unat w * 4096 + unat x * 256 + unat y * 16 + unat z, r)
           | _ \<Rightarrow> None)
      | _ \<Rightarrow> None)"

definition json_unicode :: "nat \<Rightarrow> string \<Rightarrow> string \<times> string" where
  "json_unicode u r =
     (if 0xD800 \<le> u \<and> u \<le> 0xDFFF then
        (case r of
           a # b # q \<Rightarrow>
             (if a = CHR 0x5C \<and> b = CHR ''u'' then
                (case json_u4 q of
                   Some (v, q1) \<Rightarrow>
                     if u \<le> 0xDBFF \<and> 0xDC00 \<le> v \<and> v \<le> 0xDFFF
                     then (encode_rune ((u - 0xD800) * 1024 + (v - 0xDC00) + 0x10000), q1)
                     else (encode_rune 0xFFFD, r)
                 | None \<Rightarrow> (encode_rune 0xFFFD, r))
              else (encode_rune 0xFFFD, r))
         | _ \<Rightarrow> (encode_rune 0xFFFD, r))
      else (encode_rune u, r))"

definition json_escape :: "string \<Rightarrow> (string \<times> string) option" where
  "json_escape s =
     (case s of [] \<Rightarrow> None
      | e # r \<Rightarrow>
          if e = CHR 0x22 \<or> e = CHR 0x5C \<or> e = CHR ''/'' then Some ([e], r)
          else if e = CHR ''b'' then Some ([CHR 0x08], r)
          else if e = CHR ''f'' then Some ([CHR 0x0C], r)
          else if e = CHR ''n'' then Some ([CHR 0x0A], r)
          else if e = CHR ''r'' then Some ([CHR 0x0D], r)
          else if e = CHR ''t'' then Some ([CHR 0x09], r)
          else if e = CHR ''u'' then
            (case json_u4 r of None \<Rightarrow> None | Some (u, q) \<Rightarrow> Some (json_unicode u q))
          else None)"

lemma json_u4_length: "json_u4 s = Some (u, r) \<Longrightarrow> length r < length s"
  by (auto simp: json_u4_def split: list.splits option.splits)

lemma json_unicode_length: "json_unicode u r = (d, q) \<Longrightarrow> length q \<le> length r"
  by (auto simp: json_unicode_def split: list.splits option.splits if_splits dest!: json_u4_length)

lemma json_escape_length: "json_escape s = Some (d, r) \<Longrightarrow> length r < length s"
  by (fastforce simp: json_escape_def split: list.splits option.splits if_splits
      dest: json_u4_length json_unicode_length)

text \<open>The inside of a string literal, up to its closing quote.\<close>

function json_chars :: "string \<Rightarrow> (string \<times> string) option" where
  "json_chars [] = None"
| "json_chars (c # s) =
     (if c = CHR 0x22 then Some ([], s)
      else if c = CHR 0x5C then
        (case json_escape s of None \<Rightarrow> None
         | Some (d, r) \<Rightarrow> (case json_chars r of None \<Rightarrow> None | Some (t, q) \<Rightarrow> Some (d @ t, q)))
      else if code_of c < 0x20 then None
      else if code_of c < 0x80 then
        (case json_chars s of None \<Rightarrow> None | Some (t, q) \<Rightarrow> Some (c # t, q))
      else (case decode_rune (c # s) of
          None \<Rightarrow> (case json_chars s of None \<Rightarrow> None | Some (t, q) \<Rightarrow> Some (encode_rune 0xFFFD @ t, q))
        | Some (_, n) \<Rightarrow>
            (case json_chars (drop (n - 1) s) of None \<Rightarrow> None
             | Some (t, q) \<Rightarrow> Some (c # take (n - 1) s @ t, q))))"
  by pat_completeness auto
termination
  by (relation "measure length") (auto dest: json_escape_length)

lemma json_chars_length: "json_chars s = Some (t, r) \<Longrightarrow> length r < length s"
proof (induction s arbitrary: t r rule: json_chars.induct)
  case (2 c s)
  then show ?case
    by (fastforce split: if_splits option.splits dest: json_escape_length)
qed simp

text \<open>
  Values, with a fuel argument that bounds the nesting; \<open>json_parse\<close> gives enough of it for
  the whole text (\<open>json_fuel_enough\<close>).
\<close>

definition after_ws :: "string \<Rightarrow> (char \<times> string) option" where
  "after_ws s = (case skip_ws s of [] \<Rightarrow> None | c # r \<Rightarrow> Some (c, r))"

definition json_literal :: "string \<Rightarrow> json \<Rightarrow> string \<Rightarrow> (json \<times> string) option" where
  "json_literal w v r = (if take (length w) r = w then Some (v, drop (length w) r) else None)"

fun json_value :: "nat \<Rightarrow> string \<Rightarrow> (json \<times> string) option"
  and json_members :: "nat \<Rightarrow> string \<Rightarrow> ((string \<times> json) list \<times> string) option"
  and json_elements :: "nat \<Rightarrow> string \<Rightarrow> (json list \<times> string) option"
where
  "json_value 0 s = None"
| "json_value (Suc n) s =
     (case after_ws s of None \<Rightarrow> None
      | Some (c, r) \<Rightarrow>
          if c = CHR 0x22 then map_option (\<lambda>(t, q). (JStr t, q)) (json_chars r)
          else if c = CHR ''{'' then
            (case after_ws r of None \<Rightarrow> None
             | Some (d, q) \<Rightarrow> if d = CHR ''}'' then Some (JObj [], q)
                 else map_option (\<lambda>(kvs, q). (JObj kvs, q)) (json_members n r))
          else if c = CHR ''['' then
            (case after_ws r of None \<Rightarrow> None
             | Some (d, q) \<Rightarrow> if d = CHR '']'' then Some (JArr [], q)
                 else map_option (\<lambda>(vs, q). (JArr vs, q)) (json_elements n r))
          else if c = CHR ''t'' then json_literal ''rue'' (JBool True) r
          else if c = CHR ''f'' then json_literal ''alse'' (JBool False) r
          else if c = CHR ''n'' then json_literal ''ull'' JNull r
          else map_option (\<lambda>(t, q). (JNum t, q)) (json_number (c # r)))"
| "json_members 0 s = None"
| "json_members (Suc n) s =
     (case after_ws s of None \<Rightarrow> None
      | Some (c, r) \<Rightarrow> if c \<noteq> CHR 0x22 then None else
        (case json_chars r of None \<Rightarrow> None
         | Some (k, q) \<Rightarrow>
           (case after_ws q of None \<Rightarrow> None
            | Some (d, q1) \<Rightarrow> if d \<noteq> CHR '':'' then None else
              (case json_value n q1 of None \<Rightarrow> None
               | Some (v, q2) \<Rightarrow>
                 (case after_ws q2 of None \<Rightarrow> None
                  | Some (e, q3) \<Rightarrow>
                      if e = CHR ''}'' then Some ([(k, v)], q3)
                      else if e = CHR '','' then
                        map_option (\<lambda>(kvs, q). ((k, v) # kvs, q)) (json_members n q3)
                      else None)))))"
| "json_elements 0 s = None"
| "json_elements (Suc n) s =
     (case json_value n s of None \<Rightarrow> None
      | Some (v, q) \<Rightarrow>
        (case after_ws q of None \<Rightarrow> None
         | Some (e, q1) \<Rightarrow>
             if e = CHR '']'' then Some ([v], q1)
             else if e = CHR '','' then map_option (\<lambda>(vs, q). (v # vs, q)) (json_elements n q1)
             else None))"

definition json_parse :: "string \<Rightarrow> json option" where
  "json_parse s =
     (case json_value (2 * length s + 1) s of None \<Rightarrow> None
      | Some (v, r) \<Rightarrow> if skip_ws r = [] then Some v else None)"

subsection \<open>Enough fuel\<close>

lemma after_ws_length: "after_ws s = Some (c, r) \<Longrightarrow> length r < length s"
proof -
  assume "after_ws s = Some (c, r)"
  then have "dropWhile is_ws s = c # r"
    by (auto simp: after_ws_def skip_ws_def split: list.splits)
  then have "length (c # r) \<le> length s" by (metis length_dropWhile_le)
  then show ?thesis by simp
qed

lemma json_literal_length: "json_literal w v r = Some (u, q) \<Longrightarrow> length q \<le> length r"
  by (auto simp: json_literal_def split: if_splits)

lemma span_length: "span P s = (a, b) \<Longrightarrow> length b + length a = length s"
  by (simp add: span_def) (metis add.commute length_append takeWhile_dropWhile_id)

lemma json_int_length: "json_int s = Some (i, r) \<Longrightarrow> length r < length s"
  by (auto simp: json_int_def span_def split: list.splits if_splits
      intro: le_less_trans [OF length_dropWhile_le])

lemma json_frac_length: "json_frac s = Some (i, r) \<Longrightarrow> length r \<le> length s"
  by (auto simp: json_frac_def split: list.splits if_splits prod.splits dest: span_length)

lemma json_exp_length: "json_exp s = Some (i, r) \<Longrightarrow> length r \<le> length s"
  by (auto simp: json_exp_def Let_def split: list.splits if_splits prod.splits dest!: span_length)

lemma json_number_length: "json_number s = Some (i, r) \<Longrightarrow> length r < length s"
  by (fastforce simp: json_number_def Let_def split: list.splits if_splits prod.splits option.splits
      dest: json_int_length json_frac_length json_exp_length)

lemma json_length:
  "json_value n s = Some (v, r) \<Longrightarrow> length r < length s"
  "json_members n s = Some (kvs, r) \<Longrightarrow> length r < length s"
  "json_elements n s = Some (vs, r) \<Longrightarrow> length r < length s"
proof (induction n s and n s and n s arbitrary: v r and kvs r and vs r
    rule: json_value_json_members_json_elements.induct)
  case (2 n s)
  then show ?case
    by (fastforce split: option.splits if_splits prod.splits
        dest: after_ws_length json_literal_length json_number_length json_chars_length)
next
  case (4 n s)
  then show ?case
    by (fastforce split: option.splits if_splits prod.splits dest: after_ws_length json_chars_length)
next
  case (6 n s)
  then show ?case
    by (fastforce split: option.splits if_splits prod.splits dest: after_ws_length)
qed simp_all

lemma json_fuel_step:
  "(\<forall>s. 2 * length s + 1 \<le> n \<longrightarrow> json_value (Suc n) s = json_value n s)
   \<and> (\<forall>s. 2 * length s + 1 \<le> n \<longrightarrow> json_members (Suc n) s = json_members n s)
   \<and> (\<forall>s. 2 * length s + 2 \<le> n \<longrightarrow> json_elements (Suc n) s = json_elements n s)"
proof (induction n)
  case (Suc n)
  then have
    V: "\<And>s. 2 * length s + 1 \<le> n \<Longrightarrow> json_value (Suc n) s = json_value n s" and
    M: "\<And>s. 2 * length s + 1 \<le> n \<Longrightarrow> json_members (Suc n) s = json_members n s" and
    E: "\<And>s. 2 * length s + 2 \<le> n \<Longrightarrow> json_elements (Suc n) s = json_elements n s"
    by auto
  have "json_value (Suc (Suc n)) s = json_value (Suc n) s" if "2 * length s + 1 \<le> Suc n" for s
  proof (cases "after_ws s")
    case (Some cr)
    obtain c r where cr: "cr = (c, r)" by (cases cr)
    have "length r < length s" using Some cr by (auto dest: after_ws_length)
    with that have "2 * length r + 1 \<le> n" "2 * length r + 2 \<le> n" by simp_all
    then have "json_members (Suc n) r = json_members n r" "json_elements (Suc n) r = json_elements n r"
      by (blast intro: M E)+
    with Some cr show ?thesis
      by (simp add: json_value.simps(2) [of "Suc n" s] json_value.simps(2) [of n s]
          del: json_value.simps json_members.simps json_elements.simps split: option.split)
  qed (simp add: json_value.simps(2))
  moreover have "json_members (Suc (Suc n)) s = json_members (Suc n) s"
    if le: "2 * length s + 1 \<le> Suc n" for s
  proof -
    have "json_value (Suc n) q = json_value n q" "json_members (Suc n) q = json_members n q"
      if "length q < length s" for q
    proof -
      have "2 * length q + 1 \<le> n" using le that by simp
      then show "json_value (Suc n) q = json_value n q" "json_members (Suc n) q = json_members n q"
        by (blast intro: V M)+
    qed
    then show ?thesis
      unfolding json_members.simps(2) [of "Suc n" s] json_members.simps(2) [of n s]
      by (intro option.case_cong prod.case_cong if_cong refl arg_cong [where f = "map_option _"])
         (auto simp del: json_value.simps json_members.simps
           dest!: after_ws_length json_chars_length json_length)
  qed
  moreover have "json_elements (Suc (Suc n)) s = json_elements (Suc n) s"
    if le: "2 * length s + 2 \<le> Suc n" for s
  proof -
    have "json_value (Suc n) s = json_value n s" using le by (intro V) simp
    moreover have "json_elements (Suc n) q = json_elements n q" if "length q < length s" for q
      using le that by (intro E) simp
    ultimately show ?thesis
      unfolding json_elements.simps(2) [of "Suc n" s] json_elements.simps(2) [of n s]
      by (intro option.case_cong prod.case_cong if_cong refl arg_cong [where f = "map_option _"])
         (auto simp del: json_value.simps json_elements.simps dest!: after_ws_length json_length)
  qed
  ultimately show ?case by blast
qed simp

text \<open>The fuel \<open>json_parse\<close> gives is enough: more of it never changes the result.\<close>

lemma json_fuel_enough:
  "2 * length s + 1 \<le> n \<Longrightarrow> json_value n s = json_value (2 * length s + 1) s"
proof (induction n rule: dec_induct)
  case (step n)
  then show ?case using json_fuel_step [of n] by (metis Suc_eq_plus1)
qed simp

lemma json_parse_any_fuel:
  "json_value n s = Some (v, r) \<Longrightarrow> skip_ws r = [] \<Longrightarrow> 2 * length s + 1 \<le> n \<Longrightarrow> json_parse s = Some v"
  by (simp add: json_parse_def json_fuel_enough)

subsection \<open>Writing\<close>

text \<open>
  \<open>appendString\<close>: what a character becomes inside quotes. \<open>html\<close> is the encoder's
  \<open>escapeHTML\<close> flag, which \<open>Marshal\<close> sets and the response writer clears.
\<close>

definition json_u00 :: "nat \<Rightarrow> string" where
  "json_u00 n = [CHR 0x5C, CHR ''u'', CHR ''0'', CHR ''0'', hex_digits ! (n div 16), hex_digits ! (n mod 16)]"

definition json_char :: "bool \<Rightarrow> char \<Rightarrow> string" where
  "json_char html c =
     (if c = CHR 0x22 \<or> c = CHR 0x5C then [CHR 0x5C, c]
      else if c = CHR 0x08 then [CHR 0x5C, CHR ''b'']
      else if c = CHR 0x0C then [CHR 0x5C, CHR ''f'']
      else if c = CHR 0x0A then [CHR 0x5C, CHR ''n'']
      else if c = CHR 0x0D then [CHR 0x5C, CHR ''r'']
      else if c = CHR 0x09 then [CHR 0x5C, CHR ''t'']
      else if code_of c < 0x20 \<or> (html \<and> (c = CHR ''<'' \<or> c = CHR ''>'' \<or> c = CHR ''&''))
        then json_u00 (code_of c)
      else [c])"

function json_body :: "bool \<Rightarrow> string \<Rightarrow> string" where
  "json_body html [] = []"
| "json_body html (c # s) =
     (if code_of c < 0x80 then json_char html c @ json_body html s
      else (case decode_rune (c # s) of
          None \<Rightarrow> CHR 0x5C # ''ufffd'' @ json_body html s
        | Some (r, n) \<Rightarrow>
            (if r = 0x2028 then CHR 0x5C # ''u2028''
             else if r = 0x2029 then CHR 0x5C # ''u2029''
             else c # take (n - 1) s) @ json_body html (drop (n - 1) s)))"
  by pat_completeness auto
termination
  by (relation "measure (\<lambda>(h, s). length s)") auto

definition json_quote :: "bool \<Rightarrow> string \<Rightarrow> string" where
  "json_quote html s = CHR 0x22 # json_body html s @ [CHR 0x22]"

fun json_print :: "bool \<Rightarrow> json \<Rightarrow> string"
  and json_print_members :: "bool \<Rightarrow> (string \<times> json) list \<Rightarrow> string"
  and json_print_elements :: "bool \<Rightarrow> json list \<Rightarrow> string"
where
  "json_print h JNull = ''null''"
| "json_print h (JBool b) = (if b then ''true'' else ''false'')"
| "json_print h (JNum t) = t"
| "json_print h (JStr s) = json_quote h s"
| "json_print h (JArr vs) = CHR ''['' # (if vs = [] then [CHR '']''] else json_print_elements h vs)"
| "json_print h (JObj kvs) = CHR ''{'' # (if kvs = [] then [CHR ''}''] else json_print_members h kvs)"
| "json_print_members h [] = []"
| "json_print_members h ((k, v) # kvs) =
     json_quote h k @ CHR '':'' # json_print h v
       @ (if kvs = [] then [CHR ''}''] else CHR '','' # json_print_members h kvs)"
| "json_print_elements h [] = []"
| "json_print_elements h (v # vs) =
     json_print h v @ (if vs = [] then [CHR '']''] else CHR '','' # json_print_elements h vs)"

subsection \<open>Printed values are read back\<close>

text \<open>
  For ASCII strings: every character, escaped or not, is read back as itself. Strings outside
  ASCII are rewritten by the encoder when they are not valid UTF-8, so they do not round-trip.
\<close>

abbreviation ascii :: "string \<Rightarrow> bool" where
  "ascii s \<equiv> \<forall>c \<in> set s. code_of c < 0x80"

lemma json_escape_u00:
  assumes "code_of c < 0x80"
  shows "json_escape (tl (json_u00 (code_of c)) @ r) = Some ([c], r)"
proof -
  have "code_of c div 16 < 16" "code_of c mod 16 < 16" using assms by simp_all
  moreover have "unat (of_nat n :: byte) = n" if "n < 16" for n
    using that by (simp add: unat_of_nat)
  moreover have "from_hex_char (CHR ''0'') = Some 0"
    by (simp add: from_hex_char_def)
  moreover have "code_of c div 16 * 16 + code_of c mod 16 = code_of c" by simp
  ultimately show ?thesis
    using assms
    by (simp add: json_escape_def json_u00_def json_u4_def from_hex_char_digit json_unicode_def
        encode_rune_def Let_def)
qed

lemma json_chars_char:
  assumes "code_of c < 0x80"
  shows "json_chars (json_char h c @ r) = map_option (\<lambda>(t, q). (c # t, q)) (json_chars r)"
  using json_escape_u00 [OF assms] assms
  by (auto simp: json_char_def json_escape_def json_u00_def not_less split: option.splits)

lemma json_chars_body:
  "ascii s \<Longrightarrow> json_chars (json_body h s @ CHR 0x22 # r) = Some (s, r)"
  by (induction s) (auto simp: json_chars_char)

definition delim :: "string \<Rightarrow> bool" where
  "delim r \<longleftrightarrow> (case r of [] \<Rightarrow> True | c # _ \<Rightarrow> c \<in> set '',}]'')"

lemma delim_simps [simp]:
  "delim []" "delim (CHR '','' # r)" "delim (CHR ''}'' # r)" "delim (CHR '']'' # r)"
  by (simp_all add: delim_def)

lemma nat_digits_no_zero: "0 < n \<Longrightarrow> hd (nat_digits n) \<noteq> CHR ''0''"
proof (induction n rule: nat_digits.induct)
  case (1 n)
  show ?case
  proof (cases "n < 10")
    case True
    have "char_of (48 + n) \<noteq> CHR ''0''"
    proof
      assume "char_of (48 + n) = CHR ''0''"
      then have "code_of (char_of (48 + n)) = code_of (CHR ''0'')" by (rule arg_cong)
      with True 1 show False by simp
    qed
    with True show ?thesis by (simp add: nat_digits.simps [of n])
  next
    case False
    with 1 show ?thesis by (simp add: nat_digits.simps [of n])
  qed
qed

lemma span_digits: "list_all is_digit ds \<Longrightarrow> r = [] \<or> \<not> is_digit (hd r) \<Longrightarrow> span is_digit (ds @ r) = (ds, r)"
  by (cases r) (auto simp: span_def list_all_iff takeWhile_append dropWhile_append)

lemma delim_not_digit: "delim r \<Longrightarrow> r = [] \<or> \<not> is_digit (hd r)"
  by (auto simp: delim_def is_digit_def split: list.splits)

lemma json_int_digits:
  assumes "delim r"
  shows "json_int (nat_digits n @ r) = Some (nat_digits n, r)"
proof (cases "n = 0")
  case True
  then show ?thesis by (simp add: nat_digits.simps json_int_def char_of_def bit_numeral_rec bit_0)
next
  case False
  have ds: "list_all is_digit (nat_digits n)" using nat_digits_parse by blast
  obtain c cs where c: "nat_digits n = c # cs" using nat_digits_nonempty by (meson neq_Nil_conv)
  with ds nat_digits_no_zero [of n] False have "is_digit c" "c \<noteq> CHR ''0''" by auto
  with c show ?thesis
    using span_digits [OF ds delim_not_digit [OF assms]] by (simp add: json_int_def)
qed

lemma json_number_show:
  assumes "delim r"
  shows "json_number (show_int i @ r) = Some (show_int i, r)"
proof -
  have fe: "json_frac r = Some ([], r)" "json_exp r = Some ([], r)"
    using assms by (auto simp: delim_def json_frac_def json_exp_def split: list.splits)
  show ?thesis
  proof (cases "i < 0")
    case True
    with json_int_digits [OF assms] fe show ?thesis
      by (simp add: json_number_def show_int_def)
  next
    case False
    obtain c cs where c: "nat_digits (nat i) = c # cs" using nat_digits_nonempty by (meson neq_Nil_conv)
    then have "c \<noteq> CHR ''-''" using nat_digits_hd [of "nat i"] by (auto simp: is_digit_def)
    with False c json_int_digits [OF assms, of "nat i"] fe show ?thesis
      by (simp add: json_number_def show_int_def)
  qed
qed

fun wf_json :: "json \<Rightarrow> bool" where
  "wf_json (JNum t) = (\<exists>i. t = show_int i)"
| "wf_json (JStr s) = ascii s"
| "wf_json (JArr vs) = (\<forall>v \<in> set vs. wf_json v)"
| "wf_json (JObj kvs) = (\<forall>(k, v) \<in> set kvs. ascii k \<and> wf_json v)"
| "wf_json _ = True"

lemma after_ws_Cons: "\<not> is_ws c \<Longrightarrow> after_ws (c # r) = Some (c, r)"
  by (simp add: after_ws_def skip_ws_def)

lemma show_int_head:
  "\<exists>c cs. show_int i = c # cs \<and> \<not> is_ws c
     \<and> c \<notin> {CHR 0x22, CHR ''{'', CHR ''['', CHR '']'', CHR ''t'', CHR ''f'', CHR ''n''}"
proof -
  obtain c cs where c: "show_int i = c # cs" using show_int_nonempty by (meson neq_Nil_conv)
  have "is_digit c \<or> c = CHR ''-''"
    using c nat_digits_hd [of "nat i"] by (auto simp: show_int_def split: if_splits)
  with c show ?thesis by (auto simp: is_ws_def is_digit_def)
qed

lemma json_value_number:
  assumes "delim r"
  shows "json_value (Suc n) (show_int i @ r) = Some (JNum (show_int i), r)"
  using json_number_show [OF assms, of i] show_int_head [of i] by (auto simp: after_ws_Cons)

lemma json_print_head:
  "wf_json v \<Longrightarrow> \<exists>c cs. json_print h v = c # cs \<and> \<not> is_ws c \<and> c \<noteq> CHR '']''"
  by (cases v) (use show_int_head in \<open>fastforce simp: json_quote_def is_ws_def\<close>)+

lemma json_print_read:
  "wf_json v \<Longrightarrow> delim r \<Longrightarrow> 2 * length (json_print h v @ r) + 1 \<le> n
     \<Longrightarrow> json_value n (json_print h v @ r) = Some (v, r)"
  "kvs \<noteq> [] \<Longrightarrow> \<forall>(k, v) \<in> set kvs. ascii k \<and> wf_json v
     \<Longrightarrow> 2 * length (json_print_members h kvs @ r) + 1 \<le> n
     \<Longrightarrow> json_members n (json_print_members h kvs @ r) = Some (kvs, r)"
  "vs \<noteq> [] \<Longrightarrow> \<forall>v \<in> set vs. wf_json v
     \<Longrightarrow> 2 * length (json_print_elements h vs @ r) + 2 \<le> n
     \<Longrightarrow> json_elements n (json_print_elements h vs @ r) = Some (vs, r)"
proof (induction h v and h kvs and h vs arbitrary: n r and n r and n r
    rule: json_print_json_print_members_json_print_elements.induct)
  case (1 h)
  then show ?case by (cases n) (auto simp: after_ws_Cons is_ws_def json_literal_def)
next
  case (2 h b)
  then show ?case by (cases n) (auto simp: after_ws_Cons is_ws_def json_literal_def)
next
  case (3 h t)
  then show ?case by (cases n) (auto simp del: json_value.simps simp: json_value_number)
next
  case (4 h s)
  then show ?case by (cases n) (auto simp: json_quote_def after_ws_Cons is_ws_def json_chars_body)
next
  case (5 h vs)
  then obtain m where n: "n = Suc m" by (cases n) auto
  show ?case
  proof (cases vs)
    case Nil
    with n show ?thesis by (simp add: after_ws_Cons is_ws_def)
  next
    case (Cons w ws)
    have "json_elements m (json_print_elements h vs @ r) = Some (vs, r)"
      using 5 Cons n by (intro "5.IH") auto
    moreover obtain c cs where "json_print h w = c # cs" "\<not> is_ws c" "c \<noteq> CHR '']''"
      using json_print_head [of w h] 5 Cons by auto
    ultimately show ?thesis using Cons n
      by (simp add: after_ws_Cons is_ws_def)
  qed
next
  case (6 h kvs)
  then obtain m where n: "n = Suc m" by (cases n) auto
  show ?case
  proof (cases kvs)
    case Nil
    with n show ?thesis by (simp add: after_ws_Cons is_ws_def)
  next
    case (Cons w ws)
    have "json_members m (json_print_members h kvs @ r) = Some (kvs, r)"
      using 6 Cons n by (intro "6.IH") auto
    with Cons n show ?thesis
      by (cases w) (simp add: after_ws_Cons is_ws_def json_quote_def)
  qed
next
  case (8 h k v kvs)
  then obtain m where n: "n = Suc m" by (cases n) auto
  define q where "q = (if kvs = [] then CHR ''}'' # r else CHR '','' # json_print_members h kvs @ r)"
  have "json_value m (json_print h v @ q) = Some (v, q)"
    using 8 n by (intro "8.IH"(1)) (auto simp: q_def json_quote_def)
  moreover have "kvs \<noteq> [] \<Longrightarrow> json_members m (json_print_members h kvs @ r) = Some (kvs, r)"
    using 8 n by (intro "8.IH"(2)) (auto simp: json_quote_def)
  ultimately show ?case
    using "8.prems" n
    by (auto simp: q_def json_quote_def after_ws_Cons is_ws_def json_chars_body)
next
  case (10 h v vs)
  then obtain m where n: "n = Suc m" by (cases n) auto
  define q where "q = (if vs = [] then CHR '']'' # r else CHR '','' # json_print_elements h vs @ r)"
  have "json_value m (json_print h v @ q) = Some (v, q)"
    using 10 n by (intro "10.IH"(1)) (auto simp: q_def)
  moreover have "vs \<noteq> [] \<Longrightarrow> json_elements m (json_print_elements h vs @ r) = Some (vs, r)"
    using 10 n by (intro "10.IH"(2)) auto
  ultimately show ?case
    using "10.prems" n
    by (auto simp: q_def after_ws_Cons is_ws_def)
qed simp_all

lemma json_parse_print: "wf_json v \<Longrightarrow> json_parse (json_print h v) = Some v"
  using json_print_read(1) [of v "[]" h "2 * length (json_print h v) + 1"]
  by (simp add: json_parse_def skip_ws_def del: json_value.simps)

subsection \<open>Storing values into struct fields\<close>

text \<open>
  \<open>Unmarshal\<close> into a struct: the members in order, each into the field of that name (an exact match
  first, then one that ignores case), unknown names skipped, a later member overwriting an earlier
  one; \<open>null\<close> leaves a field alone; a value of the wrong type is an error. (The decoder goes on
  after such an error and reports the first at the end; no caller looks at the struct then.)
\<close>

definition ascii_lower :: "char \<Rightarrow> char" where
  "ascii_lower c = (if 0x41 \<le> code_of c \<and> code_of c \<le> 0x5A then char_of (code_of c + 0x20) else c)"

type_synonym 'r fields = "(string \<times> (json \<Rightarrow> 'r \<Rightarrow> 'r option)) list"

definition find_field :: "'r fields \<Rightarrow> string \<Rightarrow> (json \<Rightarrow> 'r \<Rightarrow> 'r option) option" where
  "find_field fs k =
     (case map_of fs k of Some f \<Rightarrow> Some f
      | None \<Rightarrow> map_option snd (find (\<lambda>(n, f). map ascii_lower n = map ascii_lower k) fs))"

fun store_members :: "'r fields \<Rightarrow> (string \<times> json) list \<Rightarrow> 'r \<Rightarrow> 'r option" where
  "store_members fs [] r = Some r"
| "store_members fs ((k, v) # kvs) r =
     (case find_field fs k of
        None \<Rightarrow> store_members fs kvs r
      | Some f \<Rightarrow> (case f v r of None \<Rightarrow> None | Some r1 \<Rightarrow> store_members fs kvs r1))"

definition store_struct :: "'r fields \<Rightarrow> json \<Rightarrow> 'r \<Rightarrow> 'r option" where
  "store_struct fs v r =
     (case v of JNull \<Rightarrow> Some r | JObj kvs \<Rightarrow> store_members fs kvs r | _ \<Rightarrow> None)"

definition store_string :: "(string \<Rightarrow> 'r \<Rightarrow> 'r) \<Rightarrow> json \<Rightarrow> 'r \<Rightarrow> 'r option" where
  "store_string upd v r = (case v of JNull \<Rightarrow> Some r | JStr s \<Rightarrow> Some (upd s r) | _ \<Rightarrow> None)"

definition store_bool :: "(bool \<Rightarrow> 'r \<Rightarrow> 'r) \<Rightarrow> json \<Rightarrow> 'r \<Rightarrow> 'r option" where
  "store_bool upd v r = (case v of JNull \<Rightarrow> Some r | JBool b \<Rightarrow> Some (upd b r) | _ \<Rightarrow> None)"

definition store_int :: "(int \<Rightarrow> 'r \<Rightarrow> 'r) \<Rightarrow> json \<Rightarrow> 'r \<Rightarrow> 'r option" where
  "store_int upd v r =
     (case v of JNull \<Rightarrow> Some r
      | JNum t \<Rightarrow> (case parse_int t of None \<Rightarrow> None | Some i \<Rightarrow> Some (upd i r))
      | _ \<Rightarrow> None)"

text \<open>A byte slice is a base64 string, or an array of numbers below 256.\<close>

definition json_byte :: "json \<Rightarrow> byte option" where
  "json_byte v =
     (case v of JNull \<Rightarrow> Some 0
      | JNum t \<Rightarrow> (case parse_uint t of None \<Rightarrow> None
          | Some i \<Rightarrow> if i < 256 then Some (of_int i) else None)
      | _ \<Rightarrow> None)"

definition store_bytes :: "(bytes \<Rightarrow> 'r \<Rightarrow> 'r) \<Rightarrow> json \<Rightarrow> 'r \<Rightarrow> 'r option" where
  "store_bytes upd v r =
     (case v of JNull \<Rightarrow> Some (upd [] r)
      | JStr s \<Rightarrow> (case b64_decode s of None \<Rightarrow> None | Some b \<Rightarrow> Some (upd b r))
      | JArr vs \<Rightarrow> (case those (map json_byte vs) of None \<Rightarrow> None | Some b \<Rightarrow> Some (upd b r))
      | _ \<Rightarrow> None)"

text \<open>A property of a struct that every member keeps is kept by the whole object.\<close>

lemma find_field_in: "find_field fs k = Some f \<Longrightarrow> f \<in> snd ` set fs"
  by (force simp: find_field_def find_Some_iff in_set_conv_nth split: option.splits dest: map_of_SomeD)

lemma store_members_keep:
  "store_members fs kvs r = Some r' \<Longrightarrow> P r \<Longrightarrow> (\<And>f v r r'. f \<in> snd ` set fs \<Longrightarrow> f v r = Some r' \<Longrightarrow> P r \<Longrightarrow> P r') \<Longrightarrow> P r'"
proof (induction fs kvs r rule: store_members.induct)
  case (2 fs k v kvs r)
  show ?case
  proof (cases "find_field fs k")
    case None
    with 2 show ?thesis by simp
  next
    case (Some f)
    with 2(3) obtain r1 where "f v r = Some r1" "store_members fs kvs r1 = Some r'" by (auto split: option.splits)
    with Some 2(2) [OF Some] 2(4, 5) find_field_in [OF Some] show ?thesis by blast
  qed
qed simp

lemma store_struct_keep:
  "store_struct fs v r = Some r' \<Longrightarrow> P r \<Longrightarrow> (\<And>f v r r'. f \<in> snd ` set fs \<Longrightarrow> f v r = Some r' \<Longrightarrow> P r \<Longrightarrow> P r') \<Longrightarrow> P r'"
  using store_members_keep [of fs _ r r' P] by (auto simp: store_struct_def split: json.splits)

end
