(* ===== verification/Timestamp.thy ===== *)
theory Timestamp
  imports Text "HOL-Library.Monad_Syntax"
begin

text \<open>
  Times as text: what \<open>time.Time\<close>'s \<open>MarshalJSON\<close> and \<open>UnmarshalJSON\<close> write and read
  (RFC 3339 with nanoseconds). The process is taken to run with UTC as its local zone, so times are
  written with the offset \<open>Z\<close>; every offset is read. A time whose year is not between 0 and
  9999 cannot be written.
\<close>

subsection \<open>The civil calendar\<close>

text \<open>
  Days since the epoch to year, month and day and back, counting years from March as usual.
\<close>

definition civil_of_days :: "int \<Rightarrow> int \<times> int \<times> int" where
  "civil_of_days days =
     (let z = days + 719468;
          r = z mod 146097;
          n100 = min 3 (r div 36524);
          r1 = r - 36524 * n100;
          n4 = r1 div 1461;
          r2 = r1 mod 1461;
          n1 = min 3 (r2 div 365);
          yday = r2 - 365 * n1;
          mp = (5 * yday + 2) div 153;
          d = yday - (153 * mp + 2) div 5 + 1;
          m = (if mp < 10 then mp + 3 else mp - 9);
          y = 400 * (z div 146097) + 100 * n100 + 4 * n4 + n1
      in (if m \<le> 2 then y + 1 else y, m, d))"

definition days_of_civil :: "int \<Rightarrow> int \<Rightarrow> int \<Rightarrow> int" where
  "days_of_civil y0 m d =
     (let y = (if m \<le> 2 then y0 - 1 else y0);
          yoe = y mod 400;
          mp = (if m \<le> 2 then m + 9 else m - 3);
          doe = 365 * yoe + yoe div 4 - yoe div 100 + (153 * mp + 2) div 5 + d - 1
      in 146097 * (y div 400) + doe - 719468)"

definition leap :: "int \<Rightarrow> bool" where
  "leap y \<longleftrightarrow> 4 dvd y \<and> (\<not> 100 dvd y \<or> 400 dvd y)"

definition days_in :: "int \<Rightarrow> int \<Rightarrow> int" where
  "days_in y m = (if m = 2 then (if leap y then 29 else 28)
     else if m \<in> {4, 6, 9, 11} then 30 else 31)"

subsection \<open>Writing and reading\<close>

fun fixed_digits :: "nat \<Rightarrow> int \<Rightarrow> string" where
  "fixed_digits 0 n = []"
| "fixed_digits (Suc k) n = fixed_digits k (n div 10) @ [char_of (48 + nat (n mod 10))]"

definition strip_zeros :: "string \<Rightarrow> string" where
  "strip_zeros s = rev (dropWhile (\<lambda>c. c = CHR ''0'') (rev s))"

definition format_time :: "time \<Rightarrow> string option" where
  "format_time t =
     (let sec = t div 1000000000; ns = t mod 1000000000;
          days = sec div 86400; sod = sec mod 86400
      in case civil_of_days days of (y, m, d) \<Rightarrow>
           if y < 0 \<or> 9999 < y then None
           else Some (fixed_digits 4 y @ ''-'' @ fixed_digits 2 m @ ''-'' @ fixed_digits 2 d @ ''T''
             @ fixed_digits 2 (sod div 3600) @ '':'' @ fixed_digits 2 (sod div 60 mod 60) @ '':''
             @ fixed_digits 2 (sod mod 60)
             @ (if ns = 0 then [] else CHR ''.'' # strip_zeros (fixed_digits 9 ns)) @ ''Z''))"

definition take_num :: "nat \<Rightarrow> int \<Rightarrow> int \<Rightarrow> string \<Rightarrow> (int \<times> string) option" where
  "take_num k lo hi s =
     (let ds = take k s; v = digits_value 0 ds
      in if length ds = k \<and> list_all is_digit ds \<and> lo \<le> v \<and> v \<le> hi
         then Some (v, drop k s) else None)"

definition take_char :: "char \<Rightarrow> string \<Rightarrow> string option" where
  "take_char c s = (case s of [] \<Rightarrow> None | d # r \<Rightarrow> if d = c then Some r else None)"

text \<open>The fraction of a second in nanoseconds: digits after the ninth are dropped.\<close>

definition take_frac :: "string \<Rightarrow> (int \<times> string) option" where
  "take_frac s =
     (case s of
        c # r \<Rightarrow>
          if c = CHR ''.'' then
            (let ds = takeWhile is_digit r
             in if ds = [] then None
                else Some (digits_value 0 (take 9 (ds @ replicate 9 (CHR ''0''))), dropWhile is_digit r))
          else Some (0, s)
      | [] \<Rightarrow> Some (0, []))"

text \<open>The zone offset in seconds, which must end the text.\<close>

definition take_zone :: "string \<Rightarrow> int option" where
  "take_zone s =
     (if s = ''Z'' then Some 0
      else case s of
        [] \<Rightarrow> None
      | c # r \<Rightarrow>
          if c = CHR ''+'' \<or> c = CHR ''-'' then do {
            (h, r1) \<leftarrow> take_num 2 0 23 r;
            r2 \<leftarrow> take_char (CHR '':'') r1;
            (m, r3) \<leftarrow> take_num 2 0 59 r2;
            if r3 = [] then Some ((if c = CHR ''+'' then 1 else -1) * (3600 * h + 60 * m)) else None
          } else None)"

definition parse_time :: "string \<Rightarrow> time option" where
  "parse_time s = do {
     (y, s) \<leftarrow> take_num 4 0 9999 s;
     s \<leftarrow> take_char (CHR ''-'') s;
     (m, s) \<leftarrow> take_num 2 1 12 s;
     s \<leftarrow> take_char (CHR ''-'') s;
     (d, s) \<leftarrow> take_num 2 1 (days_in y m) s;
     s \<leftarrow> take_char (CHR ''T'') s;
     (hh, s) \<leftarrow> take_num 2 0 23 s;
     s \<leftarrow> take_char (CHR '':'') s;
     (mi, s) \<leftarrow> take_num 2 0 59 s;
     s \<leftarrow> take_char (CHR '':'') s;
     (ss, s) \<leftarrow> take_num 2 0 59 s;
     (ns, s) \<leftarrow> take_frac s;
     off \<leftarrow> take_zone s;
     Some ((days_of_civil y m d * 86400 + hh * 3600 + mi * 60 + ss - off) * 1000000000 + ns)
   }"

lemma fixed_digits_spec:
  "0 \<le> n \<Longrightarrow> n < 10 ^ k \<Longrightarrow>
     list_all is_digit (fixed_digits k n) \<and> length (fixed_digits k n) = k
     \<and> digits_value 0 (fixed_digits k n) = n"
proof (induction k arbitrary: n)
  case (Suc k)
  define m :: int where "m = 10 ^ k"
  have "n div 10 < m" using Suc.prems by (simp add: m_def [symmetric])
  then have IH: "list_all is_digit (fixed_digits k (n div 10))" "length (fixed_digits k (n div 10)) = k"
    "digits_value 0 (fixed_digits k (n div 10)) = n div 10"
    using Suc.IH [of "n div 10"] Suc.prems by (auto simp: m_def pos_imp_zdiv_nonneg_iff)
  have d: "nat (n mod 10) < 10" by simp
  then have "code_of (char_of (48 + nat (n mod 10))) = 48 + nat (n mod 10)" by simp
  with IH is_digit_digit [OF d] show ?case
    by (simp add: digits_value_append)
qed simp

lemma take_num_fixed:
  "0 \<le> lo \<Longrightarrow> lo \<le> n \<Longrightarrow> n \<le> hi \<Longrightarrow> n < 10 ^ k \<Longrightarrow> take_num k lo hi (fixed_digits k n @ r) = Some (n, r)"
  using fixed_digits_spec [of n k] by (simp add: take_num_def Let_def)

lemma take_char_Cons [simp]: "take_char c (c # r) = Some r"
  by (simp add: take_char_def)

subsection \<open>Round trips\<close>

text \<open>The day within a year counted from March, and the year in its 400-year cycle.\<close>

definition month_day :: "int \<Rightarrow> int \<times> int" where
  "month_day yday =
     (let mp = (5 * yday + 2) div 153
      in (if mp < 10 then mp + 3 else mp - 9, yday - (153 * mp + 2) div 5 + 1))"

lemma civil_split:
  "\<exists>q n100 n4 n1 yday.
     days + 719468 = 146097 * q + 36524 * n100 + 1461 * n4 + 365 * n1 + yday
     \<and> 0 \<le> n100 \<and> n100 \<le> 3 \<and> 0 \<le> n4 \<and> n4 \<le> 24 \<and> 0 \<le> n1 \<and> n1 \<le> 3 \<and> 0 \<le> yday \<and> yday \<le> 365
     \<and> (yday = 365 \<longrightarrow> n1 = 3 \<and> (n4 = 24 \<longrightarrow> n100 = 3))
     \<and> civil_of_days days =
         (case month_day yday of (m, d) \<Rightarrow>
            (let y = 400 * q + 100 * n100 + 4 * n4 + n1 in if m \<le> 2 then y + 1 else y, m, d))"
proof -
  define z where "z = days + 719468"
  define r where "r = z mod 146097"
  define n100 where "n100 = min 3 (r div 36524)"
  define r1 where "r1 = r - 36524 * n100"
  define n4 where "n4 = r1 div 1461"
  define r2 where "r2 = r1 mod 1461"
  define n1 where "n1 = min 3 (r2 div 365)"
  define yday where "yday = r2 - 365 * n1"
  have r: "0 \<le> r" "r \<le> 146096" "z = 146097 * (z div 146097) + r"
    by (simp_all add: r_def)
  have "0 \<le> r div 36524" "36524 * (r div 36524) \<le> r" "r < 36524 * (r div 36524) + 36524"
    using r by (simp_all add: pos_imp_zdiv_nonneg_iff)
  then have n100: "0 \<le> n100" "n100 \<le> 3" "0 \<le> r1" "r1 \<le> 36524" "r1 = 36524 \<longrightarrow> n100 = 3"
    using r by (auto simp: n100_def r1_def min_def)
  have r2: "0 \<le> r2" "r2 \<le> 1460" "r1 = 1461 * n4 + r2"
    by (simp_all add: r2_def n4_def)
  then have n4: "0 \<le> n4" "n4 \<le> 24" using n100 by linarith+
  have "0 \<le> r2 div 365" "365 * (r2 div 365) \<le> r2" "r2 < 365 * (r2 div 365) + 365"
    using r2 by (simp_all add: pos_imp_zdiv_nonneg_iff)
  then have n1: "0 \<le> n1" "n1 \<le> 3" "0 \<le> yday" "yday \<le> 365" "yday = 365 \<longrightarrow> n1 = 3 \<and> r2 = 1460"
    using r2 by (auto simp: n1_def yday_def min_def)
  have "yday = 365 \<longrightarrow> n4 = 24 \<longrightarrow> n100 = 3" using n1 n100 r2 by auto
  moreover have "days + 719468 = 146097 * (z div 146097) + 36524 * n100 + 1461 * n4 + 365 * n1 + yday"
    using r(3) r2(3) by (simp add: z_def r1_def yday_def)
  moreover have "civil_of_days days =
         (case month_day yday of (m, d) \<Rightarrow>
            (let y = 400 * (z div 146097) + 100 * n100 + 4 * n4 + n1 in if m \<le> 2 then y + 1 else y, m, d))"
    by (simp only: civil_of_days_def month_day_def Let_def z_def [symmetric] r_def [symmetric]
        n100_def [symmetric] r1_def [symmetric] n4_def [symmetric] r2_def [symmetric]
        n1_def [symmetric] yday_def [symmetric] prod.case)
  ultimately show ?thesis using n100 n4 n1 by blast
qed

lemma month_day_bounds:
  assumes "0 \<le> yday" and "yday \<le> 365" and "month_day yday = (m, d)"
  shows "1 \<le> m \<and> m \<le> 12 \<and> 1 \<le> d
    \<and> yday = (153 * (if m \<le> 2 then m + 9 else m - 3) + 2) div 5 + d - 1
    \<and> (m = 2 \<longrightarrow> d \<le> (if yday = 365 then 29 else 28)) \<and> (m \<noteq> 2 \<longrightarrow> d \<le> days_in 1 m)"
proof -
  define mp where "mp = (5 * yday + 2) div 153"
  have b: "153 * mp \<le> 5 * yday + 2" "5 * yday + 2 < 153 * mp + 153"
    unfolding mp_def by presburger+
  with assms have "0 \<le> mp" "mp \<le> 11" by linarith+
  then have "mp = 0 \<or> mp = 1 \<or> mp = 2 \<or> mp = 3 \<or> mp = 4 \<or> mp = 5 \<or> mp = 6
    \<or> mp = 7 \<or> mp = 8 \<or> mp = 9 \<or> mp = 10 \<or> mp = 11" by arith
  then consider "mp = 0" | "mp = 1" | "mp = 2" | "mp = 3" | "mp = 4" | "mp = 5" | "mp = 6"
    | "mp = 7" | "mp = 8" | "mp = 9" | "mp = 10" | "mp = 11" by blast
  then show ?thesis
    using b assms
    by cases (auto simp: month_day_def mp_def [symmetric] days_in_def)
qed

lemma civil_round_trip:
  assumes "civil_of_days days = (y, m, d)"
  shows "days_of_civil y m d = days \<and> 1 \<le> m \<and> m \<le> 12 \<and> 1 \<le> d \<and> d \<le> days_in y m"
proof -
  obtain q n100 n4 n1 yday where s:
    "days + 719468 = 146097 * q + 36524 * n100 + 1461 * n4 + 365 * n1 + yday"
    "0 \<le> n100" "n100 \<le> 3" "0 \<le> n4" "n4 \<le> 24" "0 \<le> n1" "n1 \<le> 3" "0 \<le> yday" "yday \<le> 365"
    "yday = 365 \<longrightarrow> n1 = 3 \<and> (n4 = 24 \<longrightarrow> n100 = 3)"
    and c: "civil_of_days days = (case month_day yday of (m, d) \<Rightarrow>
            (let y = 400 * q + 100 * n100 + 4 * n4 + n1 in if m \<le> 2 then y + 1 else y, m, d))"
    using civil_split [of days] by blast
  define y1 where "y1 = 400 * q + 100 * n100 + 4 * n4 + n1"
  have md: "month_day yday = (m, d)" and y: "y = (if m \<le> 2 then y1 + 1 else y1)"
    using c assms by (auto simp: y1_def Let_def split: prod.splits)
  note b = month_day_bounds [OF s(8,9) md]
  define e where "e = 100 * n100 + 4 * n4 + n1"
  have "0 \<le> e" "e < 400" using s(2-7) unfolding e_def by linarith+
  moreover have "y1 = 400 * q + e" by (simp add: e_def y1_def)
  ultimately have "y1 mod 400 = e" "y1 div 400 = q"
    using int_mod_pos_eq [of y1 400 q e] int_div_pos_eq [of y1 400 q e] by simp_all
  then have y1: "y1 mod 400 = 100 * n100 + 4 * n4 + n1" "y1 div 400 = q" by (simp_all add: e_def)
  have "(100 * n100 + 4 * n4 + n1) div 4 = 25 * n100 + n4"
    using s(2-7) by (intro int_div_pos_eq [where r = n1]) auto
  moreover have "(100 * n100 + 4 * n4 + n1) div 100 = n100"
    using s(2-7) by (intro int_div_pos_eq [where r = "4 * n4 + n1"]) auto
  ultimately have doe: "365 * (y1 mod 400) + y1 mod 400 div 4 - y1 mod 400 div 100
      = 36524 * n100 + 1461 * n4 + 365 * n1"
    by (simp add: y1)
  have yday: "yday = (153 * (if m \<le> 2 then m + 9 else m - 3) + 2) div 5 + d - 1"
    using b by blast
  have "days_of_civil y m d
      = 146097 * (y1 div 400) + (365 * (y1 mod 400) + y1 mod 400 div 4 - y1 mod 400 div 100
          + (153 * (if m \<le> 2 then m + 9 else m - 3) + 2) div 5 + d - 1) - 719468"
    unfolding days_of_civil_def Let_def y by (cases "m \<le> 2") simp_all
  also have "\<dots> = days"
    using s(1) yday unfolding doe y1(2) by linarith
  finally have "days_of_civil y m d = days" .
  moreover have "d \<le> days_in y m"
  proof (cases "m = 2")
    case True
    have "leap (y1 + 1)" if "yday = 365"
    proof -
      have "n1 = 3" and n: "n4 = 24 \<longrightarrow> n100 = 3" using that s(10) by auto
      then have y1e: "y1 + 1 = 4 * (n4 + 1 + 25 * (4 * q + n100))" by (simp add: y1_def)
      have "4 dvd y1 + 1" unfolding y1e by (rule dvd_triv_left)
      moreover have "\<not> 100 dvd y1 + 1 \<or> 400 dvd y1 + 1"
      proof (cases "n4 = 24")
        case True
        with n y1e have "y1 + 1 = 400 * (q + 1)" by simp
        then show ?thesis by (metis dvd_triv_left)
      next
        case False
        have "y1 + 1 = 100 * (4 * q + n100) + 4 * (n4 + 1)" using y1e by simp
        moreover have "0 < 4 * (n4 + 1)" "4 * (n4 + 1) < 100" using s(4, 5) False by auto
        ultimately have "(y1 + 1) mod 100 \<noteq> 0"
          using int_mod_pos_eq [of "y1 + 1" 100 "4 * q + n100" "4 * (n4 + 1)"] by linarith
        then show ?thesis by (simp only: dvd_eq_mod_eq_0 simp_thms)
      qed
      ultimately show ?thesis by (simp only: leap_def)
    qed
    with b y True show ?thesis by (auto simp: days_in_def split: if_splits)
  next
    case False
    with b show ?thesis by (auto simp: days_in_def)
  qed
  ultimately show ?thesis using b by blast
qed

lemma strip_zeros_pad:
  "\<exists>k. s = strip_zeros s @ replicate k (CHR ''0'') \<and> length (strip_zeros s) \<le> length s"
proof -
  define w where "w = takeWhile (\<lambda>c. c = CHR ''0'') (rev s)"
  have "rev s = w @ dropWhile (\<lambda>c. c = CHR ''0'') (rev s)" by (simp add: w_def)
  then have "s = strip_zeros s @ rev w" by (metis strip_zeros_def rev_append rev_rev_ident)
  moreover have "w = replicate (length w) (CHR ''0'')"
    by (intro replicate_eqI) (auto simp: w_def dest: set_takeWhileD)
  then have "rev w = replicate (length w) (CHR ''0'')" by (metis rev_replicate)
  ultimately show ?thesis by (metis append_eq_conv_conj length_append le_add1)
qed

lemma take_frac_strip:
  assumes "0 < ns" and "ns < 1000000000"
  shows "take_frac (CHR ''.'' # strip_zeros (fixed_digits 9 ns) @ ''Z'') = Some (ns, ''Z'')"
proof -
  have f: "list_all is_digit (fixed_digits 9 ns)" "length (fixed_digits 9 ns) = 9"
    "digits_value 0 (fixed_digits 9 ns) = ns"
    using fixed_digits_spec [of ns 9] assms by auto
  define ds where "ds = strip_zeros (fixed_digits 9 ns)"
  obtain k where k: "fixed_digits 9 ns = ds @ replicate k (CHR ''0'')"
    using strip_zeros_pad ds_def by blast
  have z: "digits_value 0 (replicate k (CHR ''0'')) = 0" for k
    by (induction k) auto
  have "ds \<noteq> []"
  proof
    assume "ds = []"
    with k z f(3) assms(1) show False by simp
  qed
  have "list_all is_digit ds" using f(1) k by simp
  moreover have "\<not> is_digit (CHR ''Z'')" by (simp add: is_digit_def)
  ultimately have "takeWhile is_digit (ds @ ''Z'') = ds" "dropWhile is_digit (ds @ ''Z'') = ''Z''"
    by (simp_all add: list_all_iff takeWhile_append dropWhile_append)
  moreover have "take 9 (ds @ replicate 9 (CHR ''0'')) = fixed_digits 9 ns"
  proof -
    have "length ds + k = 9" using k f(2) by (metis length_append length_replicate)
    then have "replicate 9 (CHR ''0'') = replicate k (CHR ''0'') @ replicate (length ds) (CHR ''0'')"
      by (metis add.commute replicate_add)
    then show ?thesis using k f(2) by (metis append_assoc append_eq_conv_conj)
  qed
  ultimately show ?thesis
    using \<open>ds \<noteq> []\<close> f(3) by (simp add: take_frac_def Let_def ds_def [symmetric])
qed

lemma take_zone_Z [simp]: "take_zone ''Z'' = Some 0"
  by (simp add: take_zone_def)

lemma take_frac_Z [simp]: "take_frac ''Z'' = Some (0, ''Z'')"
  by (simp add: take_frac_def)

lemma parse_format_time: "format_time t = Some s \<Longrightarrow> parse_time s = Some t"
proof -
  assume f: "format_time t = Some s"
  define sec ns where "sec = t div 1000000000" and "ns = t mod 1000000000"
  define days sod where "days = sec div 86400" and "sod = sec mod 86400"
  obtain y m d where c: "civil_of_days days = (y, m, d)" by (metis prod_cases3)
  have y: "0 \<le> y" "y \<le> 9999" and
    s: "s = fixed_digits 4 y @ CHR ''-'' # fixed_digits 2 m @ CHR ''-'' # fixed_digits 2 d @ CHR ''T''
             # fixed_digits 2 (sod div 3600) @ CHR '':'' # fixed_digits 2 (sod div 60 mod 60) @ CHR '':''
             # fixed_digits 2 (sod mod 60)
             @ (if ns = 0 then [] else CHR ''.'' # strip_zeros (fixed_digits 9 ns)) @ ''Z''"
    using f c
    by (auto simp: format_time_def Let_def sec_def ns_def days_def sod_def simp del: fixed_digits.simps
        split: if_splits)
  note cr = civil_round_trip [OF c]
  have "days_in y m \<le> 31" by (auto simp: days_in_def)
  have sod: "0 \<le> sod" "sod < 86400" by (simp_all add: sod_def)
  define hh mi ss where "hh = sod div 3600" and "mi = sod div 60 mod 60" and "ss = sod mod 60"
  have hms: "0 \<le> hh" "hh \<le> 23" "0 \<le> mi" "mi \<le> 59" "0 \<le> ss" "ss \<le> 59"
    using sod by (simp_all add: hh_def mi_def ss_def pos_imp_zdiv_nonneg_iff)
  have sum: "hh * 3600 + mi * 60 + ss = sod"
  proof -
    have "sod div 3600 = sod div 60 div 60" by (simp add: zdiv_zmult2_eq [symmetric])
    moreover have "sod div 60 div 60 * 60 + sod div 60 mod 60 = sod div 60" by simp
    moreover have "sod div 60 * 60 + sod mod 60 = sod" by simp
    ultimately show ?thesis unfolding hh_def mi_def ss_def by linarith
  qed
  have ns: "0 \<le> ns" "ns < 1000000000" by (simp_all add: ns_def)
  have fr: "take_frac ((if ns = 0 then [] else CHR ''.'' # strip_zeros (fixed_digits 9 ns)) @ ''Z'')
      = Some (ns, ''Z'')"
    using take_frac_strip [of ns] ns by (cases "ns = 0") simp_all
  have "parse_time s = Some ((days_of_civil y m d * 86400 + hh * 3600 + mi * 60 + ss - 0) * 1000000000 + ns)"
    unfolding s hh_def [symmetric] mi_def [symmetric] ss_def [symmetric] parse_time_def
    using y cr \<open>days_in y m \<le> 31\<close> hms
    by (simp add: take_num_fixed fr del: fixed_digits.simps)
  also have "days_of_civil y m d * 86400 + hh * 3600 + mi * 60 + ss - 0 = sec"
    using cr sum div_mult_mod_eq [of sec 86400] unfolding days_def sod_def by linarith
  also have "sec * 1000000000 + ns = t" by (simp add: sec_def ns_def)
  finally show ?thesis .
qed

lemma fixed_digits_all: "c \<in> set (fixed_digits k n) \<Longrightarrow> is_digit c"
proof (induction k arbitrary: n)
  case (Suc k)
  have "nat (n mod 10) < 10" by simp
  from is_digit_digit [OF this] Suc show ?case by auto
qed simp

lemma set_strip_zeros: "set (strip_zeros s) \<subseteq> set s"
  unfolding strip_zeros_def by (metis set_dropWhileD set_rev subsetI)

definition all_ascii :: "string \<Rightarrow> bool" where
  "all_ascii s \<longleftrightarrow> list_all (\<lambda>c. code_of c < 0x80) s"

lemma all_ascii_simps [simp]:
  "all_ascii []" "all_ascii (c # s) \<longleftrightarrow> code_of c < 0x80 \<and> all_ascii s"
  "all_ascii (s @ r) \<longleftrightarrow> all_ascii s \<and> all_ascii r"
  by (simp_all add: all_ascii_def)

lemma all_ascii_digits [simp]: "all_ascii (fixed_digits k n)"
proof -
  have "code_of c < 0x80" if "c \<in> set (fixed_digits k n)" for c
    using fixed_digits_all [OF that] by (simp add: is_digit_def)
  then show ?thesis by (simp add: all_ascii_def list_all_iff)
qed

lemma all_ascii_strip [simp]: "all_ascii s \<Longrightarrow> all_ascii (strip_zeros s)"
  using set_strip_zeros [of s] by (auto simp: all_ascii_def list_all_iff)

lemma format_time_ascii: "format_time t = Some s \<Longrightarrow> c \<in> set s \<Longrightarrow> code_of c < 0x80"
proof -
  assume "format_time t = Some s" and "c \<in> set s"
  then have "all_ascii s"
    by (auto simp: format_time_def Let_def simp del: fixed_digits.simps split: prod.splits if_splits)
  with \<open>c \<in> set s\<close> show ?thesis by (simp add: all_ascii_def list_all_iff)
qed

end
