(* ===== verification/Metadata.thy ===== *)
theory Metadata
  imports Json Timestamp
begin

text \<open>
  \<open>internal/cache/metadata.go\<close>: the per-entry metadata, its JSON file, and the two paths of an
  entry. A path function slices \<open>actionIDHex[:2]\<close>, which panics on a shorter string: its model
  returns \<open>None\<close> there.
\<close>

record metadata =
  m_outputIDHex :: string
  m_size :: int
  m_time :: time
  m_casHash :: string
  m_casSize :: int

subsection \<open>Paths\<close>

definition metadata_path :: "path \<Rightarrow> string \<Rightarrow> path option" where
  "metadata_path dir a =
     (if length a < 2 then None
      else Some (dir @ ''/'' @ take 2 a @ ''/'' @ a @ ''-m''))"

definition body_path :: "path \<Rightarrow> string \<Rightarrow> path option" where
  "body_path dir a =
     (if length a < 2 then None
      else Some (dir @ ''/'' @ take 2 a @ ''/'' @ a @ ''-d''))"

lemma body_path_inject:
  "body_path dir a = Some p \<Longrightarrow> body_path dir b = Some p \<Longrightarrow> a = b"
proof -
  assume "body_path dir a = Some p" and "body_path dir b = Some p"
  then have eq: "take 2 a @ ''/'' @ a = take 2 b @ ''/'' @ b" and len: "2 \<le> length a" "2 \<le> length b"
    by (auto simp: body_path_def split: if_splits)
  then have "length (take 2 a) = length (take 2 b)" by simp
  with eq show "a = b" by simp
qed

lemma metadata_path_inject:
  "metadata_path dir a = Some p \<Longrightarrow> metadata_path dir b = Some p \<Longrightarrow> a = b"
  using body_path_inject [of dir a "butlast p @ ''d''" b]
  by (auto simp: body_path_def metadata_path_def split: if_splits)

lemma body_metadata_differ:
  "body_path dir a = Some p \<Longrightarrow> metadata_path dir b = Some q \<Longrightarrow> p \<noteq> q \<and> p \<noteq> q @ ''.tmp''"
proof -
  assume "body_path dir a = Some p" and "metadata_path dir b = Some q"
  then have "last p = CHR ''d''" "last q = CHR ''m''" "q \<noteq> []"
    by (auto simp: body_path_def metadata_path_def split: if_splits)
  then show ?thesis by auto
qed

lemma metadata_tmp_differ:
  "metadata_path dir a = Some p \<Longrightarrow> metadata_path dir b = Some q \<Longrightarrow> p \<noteq> q @ ''.tmp''"
proof -
  assume "metadata_path dir a = Some p" and "metadata_path dir b = Some q"
  then have "last p = CHR ''m''" by (auto simp: metadata_path_def split: if_splits)
  then show ?thesis by auto
qed

text \<open>Temporary files live in the cache directory itself, where no entry's path is.\<close>

lemma temp_name_differ:
  "body_path dir a = Some p \<Longrightarrow> temp_name dir n \<noteq> p"
  "metadata_path dir a = Some p \<Longrightarrow> temp_name dir n \<noteq> p \<and> temp_name dir n \<noteq> p @ ''.tmp''"
proof -
  have *: "''tmp-'' @ ds \<noteq> take 2 a @ ''/'' @ r" if "2 \<le> length a" for ds r
  proof
    assume "''tmp-'' @ ds = take 2 a @ ''/'' @ r"
    then have "(''tmp-'' @ ds) ! 2 = (take 2 a @ ''/'' @ r) ! 2" by simp
    with that show False by (simp add: nth_append)
  qed
  show "body_path dir a = Some p \<Longrightarrow> temp_name dir n \<noteq> p"
    using * by (auto simp: body_path_def temp_name_def split: if_splits)
  show "metadata_path dir a = Some p \<Longrightarrow> temp_name dir n \<noteq> p \<and> temp_name dir n \<noteq> p @ ''.tmp''"
    using * by (auto simp: metadata_path_def temp_name_def split: if_splits)
qed

lemma filepath_dir_body [path_simps]:
  "body_path dir a = Some p \<Longrightarrow> CHR ''/'' \<notin> set a \<Longrightarrow> filepath_dir p = dir @ ''/'' @ take 2 a"
  using filepath_dir_append [of "a @ ''-d''" "dir @ ''/'' @ take 2 a"]
  by (auto simp: body_path_def split: if_splits)

lemma filepath_dir_metadata [path_simps]:
  "metadata_path dir a = Some p \<Longrightarrow> CHR ''/'' \<notin> set a \<Longrightarrow> filepath_dir p = dir @ ''/'' @ take 2 a"
  "metadata_path dir a = Some p \<Longrightarrow> CHR ''/'' \<notin> set a \<Longrightarrow>
     filepath_dir (p @ ''.tmp'') = dir @ ''/'' @ take 2 a"
  using filepath_dir_append [of "a @ ''-m''" "dir @ ''/'' @ take 2 a"]
    filepath_dir_append [of "a @ ''-m.tmp''" "dir @ ''/'' @ take 2 a"]
  by (auto simp: metadata_path_def split: if_splits)

subsection \<open>The JSON file\<close>

definition metadata_json :: "metadata \<Rightarrow> string \<Rightarrow> json" where
  "metadata_json m t = JObj
     [(''output_id_hex'', JStr (m_outputIDHex m)), (''size'', JNum (show_int (m_size m))),
      (''time'', JStr t), (''cas_digest_hash'', JStr (m_casHash m)),
      (''cas_digest_size'', JNum (show_int (m_casSize m)))]"

text \<open>\<open>json.Marshal(m)\<close>; it fails only on a time that has no RFC 3339 form.\<close>

definition encode_metadata :: "metadata \<Rightarrow> err + bytes" where
  "encode_metadata m =
     (case format_time (m_time m) of
        None \<Rightarrow> Inl (Plain ''json: error calling MarshalJSON for type time.Time'')
      | Some t \<Rightarrow> Inr (bytes_of (json_print True (metadata_json m t))))"

definition store_time :: "(time \<Rightarrow> 'r \<Rightarrow> 'r) \<Rightarrow> json \<Rightarrow> 'r \<Rightarrow> 'r option" where
  "store_time upd v r =
     (case v of JNull \<Rightarrow> Some r
      | JStr s \<Rightarrow> (case parse_time s of None \<Rightarrow> None | Some t \<Rightarrow> Some (upd t r))
      | _ \<Rightarrow> None)"

definition metadata_fields :: "metadata fields" where
  "metadata_fields =
     [(''output_id_hex'', store_string (\<lambda>s m. m\<lparr>m_outputIDHex := s\<rparr>)),
      (''size'', store_int (\<lambda>i m. m\<lparr>m_size := i\<rparr>)),
      (''time'', store_time (\<lambda>t m. m\<lparr>m_time := t\<rparr>)),
      (''cas_digest_hash'', store_string (\<lambda>s m. m\<lparr>m_casHash := s\<rparr>)),
      (''cas_digest_size'', store_int (\<lambda>i m. m\<lparr>m_casSize := i\<rparr>))]"

definition zero_metadata :: metadata where
  "zero_metadata = \<lparr>m_outputIDHex = [], m_size = 0, m_time = - 62135596800 * second,
     m_casHash = [], m_casSize = 0\<rparr>"

text \<open>\<open>json.Unmarshal(data, &m)\<close> into a fresh struct.\<close>

definition decode_metadata :: "bytes \<Rightarrow> err + metadata" where
  "decode_metadata data =
     (case json_parse (string_of data) of
        None \<Rightarrow> Inl (Plain ''invalid JSON'')
      | Some v \<Rightarrow> (case store_struct metadata_fields v zero_metadata of
          None \<Rightarrow> Inl (Plain ''json: cannot unmarshal'')
        | Some m \<Rightarrow> Inr m))"

subsection \<open>Reading and writing the file\<close>

text \<open>
  The fast path of \<open>Install\<close> and \<open>WriteMetadata\<close>: make the directory only when it cannot be
  seen.
\<close>

definition ensure_dir :: "path \<Rightarrow> sys \<Rightarrow> (err + unit) \<times> sys" where
  "ensure_dir dir s =
     (case stat dir s of
        (Inr _, s1) \<Rightarrow> (Inr (), s1)
      | (Inl _, s1) \<Rightarrow> mkdir_all dir s1)"

definition write_metadata :: "path \<Rightarrow> metadata \<Rightarrow> sys \<Rightarrow> (err + unit) \<times> sys" where
  "write_metadata p m s =
     (case encode_metadata m of
        Inl e \<Rightarrow> (Inl (Wrapped ''marshal metadata'' e), s)
      | Inr data \<Rightarrow>
         (case ensure_dir (filepath_dir p) s of
            (Inl e, s1) \<Rightarrow> (Inl (Wrapped ''mkdir metadata dir'' e), s1)
          | (Inr _, s1) \<Rightarrow>
             (let tmp = p @ ''.tmp'' in
              case open_trunc tmp s1 of
                (Inl e, s2) \<Rightarrow> (Inl (Wrapped ''create temp metadata'' e), s2)
              | (Inr _, s2) \<Rightarrow>
                 (case write_data tmp data s2 of
                    (Inl e, s3) \<Rightarrow>
                      (Inl (Wrapped ''write temp metadata'' e), remove tmp (snd (close_file tmp s3)))
                  | (Inr _, s3) \<Rightarrow>
                     (case close_file tmp s3 of
                        (Inl e, s4) \<Rightarrow> (Inl (Wrapped ''close temp metadata'' e), remove tmp s4)
                      | (Inr _, s4) \<Rightarrow>
                         (case rename tmp p s4 of
                            (Inl e, s5) \<Rightarrow> (Inl (Wrapped ''rename metadata'' e), remove tmp s5)
                          | (Inr _, s5) \<Rightarrow> (Inr (), s5)))))))"

definition read_metadata_full :: "path \<Rightarrow> sys \<Rightarrow> (err + metadata) \<times> sys" where
  "read_metadata_full p s =
     (case read_file p s of
        (Inl e, s1) \<Rightarrow> (Inl e, s1)
      | (Inr data, s1) \<Rightarrow>
         (case decode_metadata data of
            Inl e \<Rightarrow> (Inl (Wrapped (''unmarshal metadata '' @ p) e), s1)
          | Inr m \<Rightarrow> (Inr m, s1)))"

text \<open>
  One read into a pooled buffer of 512 bytes; when it fills the buffer, the file may be longer and
  is read again as a whole. An error of closing a file that was only read is ignored.
\<close>

definition read_metadata :: "path \<Rightarrow> sys \<Rightarrow> (err + metadata) \<times> sys" where
  "read_metadata p s =
     (case open_file p s of
        (Inl e, s1) \<Rightarrow> (Inl e, s1)
      | (Inr _, s1) \<Rightarrow>
         (case read_prefix p 512 s1 of
            (Inl e, s2) \<Rightarrow> (Inl e, snd (close_file p s2))
          | (Inr data, s2) \<Rightarrow>
             (let s3 = snd (close_file p s2) in
              if length data = 512 then read_metadata_full p s3
              else case decode_metadata data of
                     Inl e \<Rightarrow> (Inl (Wrapped (''unmarshal metadata '' @ p) e), s3)
                   | Inr m \<Rightarrow> (Inr m, s3))))"

text \<open>Metadata that a file can carry: ASCII hashes, 64-bit sizes, a time with an RFC 3339 form.\<close>

definition wf_metadata :: "metadata \<Rightarrow> bool" where
  "wf_metadata m \<longleftrightarrow> ascii (m_outputIDHex m) \<and> ascii (m_casHash m) \<and> in_i64 (m_size m)
     \<and> in_i64 (m_casSize m) \<and> format_time (m_time m) \<noteq> None"

lemma decode_encode_metadata:
  assumes "wf_metadata m"
  shows "\<exists>data. encode_metadata m = Inr data \<and> decode_metadata data = Inr m"
proof -
  obtain t where t: "format_time (m_time m) = Some t" using assms by (auto simp: wf_metadata_def)
  have "wf_json (metadata_json m t)"
    using assms format_time_ascii [OF t]
    by (auto simp: metadata_json_def wf_metadata_def)
  then have "json_parse (json_print True (metadata_json m t)) = Some (metadata_json m t)"
    by (rule json_parse_print)
  moreover have "store_struct metadata_fields (metadata_json m t) zero_metadata = Some m"
    using assms parse_format_time [OF t]
    by (simp add: metadata_json_def store_struct_def metadata_fields_def find_field_def
        store_string_def store_int_def store_time_def wf_metadata_def)
  ultimately show ?thesis
    using t by (simp add: encode_metadata_def decode_metadata_def)
qed

subsection \<open>What writing changes\<close>

lemma ensure_dir_touches [simp]: "touches P s (snd (ensure_dir dir s))"
proof (cases "stat dir s")
  case (Pair r s1)
  then have "touches P s s1" using calls_touch(2) by (metis snd_conv)
  with Pair calls_touch(3) show ?thesis
    by (auto simp: ensure_dir_def split: sum.splits intro: touches_trans)
qed

lemma ensure_dir_file: "ensure_dir dir s = (r, t) \<Longrightarrow> sys_files t q = sys_files s q"
  by (auto simp: ensure_dir_def dest!: calls_file [where q = q] split: prod.splits sum.splits)

lemma ensure_dir_ok:
  "ensure_dir dir s = (Inr u, t) \<Longrightarrow> dir \<in> sys_dirs t \<or> sys_files s dir \<noteq> None"
  by (auto simp: ensure_dir_def stat_def mkdir_all_def split: prod.splits sum.splits if_splits option.splits)

lemma write_metadata_touches: "touches {p, p @ ''.tmp''} s (snd (write_metadata p m s))"
  unfolding write_metadata_def Let_def
  by (cases "encode_metadata m") (auto intro!: touches_case calls_touch touches_called_remove)

lemma write_metadata_failed:
  "write_metadata p m s = (Inl e, t) \<Longrightarrow> sys_files t p = sys_files s p"
  by (auto simp: write_metadata_def Let_def dest!: calls_file [where q = p] ensure_dir_file [where q = p]
      split: prod.splits sum.splits)

lemma write_metadata_done:
  assumes "write_metadata p m s = (Inr u, t)"
  shows "\<exists>data f. encode_metadata m = Inr data \<and> sys_files t p = Some f \<and> f_data f = data
     \<and> sys_files t (p @ ''.tmp'') = None"
  using assms
  by (auto simp: write_metadata_def Let_def open_trunc_def write_data_def append_data_def
      close_file_def rename_def split: prod.splits sum.splits if_splits option.splits)

lemma filepath_dir_tmp [simp]: "filepath_dir (p @ ''.tmp'') = filepath_dir p"
  by (simp add: filepath_dir_def)

lemma no_faults_fault [simp]: "no_faults s \<Longrightarrow> sys_calls s \<le> n \<Longrightarrow> sys_fault s n = None"
  by (simp add: no_faults_def)

lemma ensure_dir_exists: "no_faults s \<Longrightarrow> dir \<in> sys_dirs s \<Longrightarrow> ensure_dir dir s = (Inr (), called s)"
  by (auto simp: ensure_dir_def stat_def split: option.splits)

text \<open>With its directory in place and no failing call, a write succeeds and adds just its file.\<close>

lemma write_metadata_succeeds:
  assumes "no_faults s" and "filepath_dir p \<in> sys_dirs s" and "p \<notin> sys_dirs s"
    and "p @ ''.tmp'' \<notin> sys_dirs s" and "format_time (m_time m) \<noteq> None"
  shows "\<exists>t. write_metadata p m s = (Inr (), t) \<and> no_faults t \<and> sys_dirs t = sys_dirs s"
proof -
  obtain data where "encode_metadata m = Inr data"
    using assms(5) by (auto simp: encode_metadata_def)
  with assms show ?thesis
    by (simp add: write_metadata_def Let_def ensure_dir_exists open_trunc_def write_data_def
        append_data_def close_file_def rename_def)
qed

subsection \<open>Reading back\<close>

lemma decode_empty: "\<exists>e. decode_metadata [] = Inl e"
  by (simp add: decode_metadata_def string_of_def json_parse_def after_ws_def skip_ws_def)

lemma read_metadata_file_contents:
  assumes "no_faults s"
  shows "fst (read_metadata p s) =
    (if \<exists>f. sys_files s p = Some f \<and> f_data f = [] then Inl (Plain ''EOF'')
     else fst (read_metadata_full p s))"
proof (cases "sys_files s p")
  case None
  with assms show ?thesis
    by (simp add: read_metadata_def open_file_def read_metadata_full_def read_file_def)
next
  case (Some f)
  with assms show ?thesis
    by (cases "decode_metadata (f_data f)")
       (auto simp: read_metadata_def open_file_def read_prefix_def read_metadata_full_def
         read_file_def Let_def min_def)
qed

text \<open>
  C30: the one-read fast path of \<open>ReadMetadata\<close> is equivalent to reading the whole file: when no
  system call fails it returns exactly what \<open>readMetadataFull\<close> returns, whatever the length of the
  file (the 512-byte buffer never truncates the metadata); on an empty file both report an error.
\<close>

theorem read_metadata_equiv:
  assumes "no_faults s"
  shows "fst (read_metadata p s) = fst (read_metadata_full p s)
    \<or> (\<exists>f e e'. sys_files s p = Some f \<and> f_data f = [] \<and> fst (read_metadata p s) = Inl e
          \<and> fst (read_metadata_full p s) = Inl e')"
proof (cases "\<exists>f. sys_files s p = Some f \<and> f_data f = []")
  case True
  then obtain f where f: "sys_files s p = Some f" "f_data f = []" by blast
  with assms decode_empty have "\<exists>e. fst (read_metadata_full p s) = Inl e"
    by (auto simp: read_metadata_full_def read_file_def)
  with f read_metadata_file_contents [OF assms, of p] show ?thesis by auto
next
  case False
  with read_metadata_file_contents [OF assms, of p] show ?thesis by auto
qed

text \<open>A file system with one entry's directory, no failing call, and the clock standing still.\<close>

definition example_sys :: sys where
  "example_sys = \<lparr>sys_files = Map.empty, sys_dirs = {''/c'', ''/c/ab''}, sys_fault = (\<lambda>n. None),
     sys_clock = (\<lambda>n. 1700000000 * second), sys_rand = (\<lambda>n. n), sys_calls = 0\<rparr>"

definition example_metadata :: metadata where
  "example_metadata = \<lparr>m_outputIDHex = ''0c'', m_size = 5, m_time = 0, m_casHash = ''ff'', m_casSize = 5\<rparr>"

lemma no_faults_example [simp]: "no_faults (example_sys\<lparr>sys_files := fs\<rparr>)" "no_faults example_sys"
  by (simp_all add: no_faults_def example_sys_def)

lemma example_dirs [simp]: "sys_dirs example_sys = {''/c'', ''/c/ab''}"
  by (simp add: example_sys_def)

lemma wf_example_metadata [simp]: "wf_metadata example_metadata"
  by code_simp

lemma write_example:
  "\<exists>t. write_metadata ''/c/ab/ab12-m'' example_metadata example_sys = (Inr (), t) \<and> no_faults t"
proof -
  have "filepath_dir ''/c/ab/ab12-m'' = ''/c/ab''" by (simp add: filepath_dir_def)
  moreover have "format_time (m_time example_metadata) \<noteq> None"
    using wf_example_metadata by (simp add: wf_metadata_def)
  ultimately show ?thesis
    using write_metadata_succeeds [OF no_faults_example(2), of "''/c/ab/ab12-m''" example_metadata]
    by (auto simp: example_dirs)
qed

theorem read_metadata_equiv_witness:
  "no_faults (example_sys\<lparr>sys_files := [''/c/ab/ab12-m'' \<mapsto> \<lparr>f_data = bytes_of ''{}'', f_mtime = 0\<rparr>]\<rparr>)
   \<and> fst (read_metadata ''/c/ab/ab12-m''
        (example_sys\<lparr>sys_files := [''/c/ab/ab12-m'' \<mapsto> \<lparr>f_data = bytes_of ''{}'', f_mtime = 0\<rparr>]\<rparr>))
     = fst (read_metadata_full ''/c/ab/ab12-m''
        (example_sys\<lparr>sys_files := [''/c/ab/ab12-m'' \<mapsto> \<lparr>f_data = bytes_of ''{}'', f_mtime = 0\<rparr>]\<rparr>))"
  using read_metadata_equiv
    [of "example_sys\<lparr>sys_files := [''/c/ab/ab12-m'' \<mapsto> \<lparr>f_data = bytes_of ''{}'', f_mtime = 0\<rparr>]\<rparr>"
      "''/c/ab/ab12-m''"]
  by (auto simp: bytes_of_def)

lemma encode_nonempty: "encode_metadata m = Inr data \<Longrightarrow> data \<noteq> []"
  by (auto simp: encode_metadata_def metadata_json_def bytes_of_def split: option.splits)

lemma read_metadata_file:
  assumes "no_faults s" and "sys_files s p = Some f" and "encode_metadata m = Inr (f_data f)"
    and "wf_metadata m"
  shows "fst (read_metadata p s) = Inr m"
proof -
  have "fst (read_metadata p s) = fst (read_metadata_full p s)"
    using read_metadata_file_contents [OF assms(1), of p] assms encode_nonempty by auto
  also have "\<dots> = Inr m"
    using assms decode_encode_metadata [OF assms(4)]
    by (simp add: read_metadata_full_def read_file_def)
  finally show ?thesis .
qed

text \<open>
  C28: metadata survives its file: what \<open>WriteMetadata\<close> wrote, \<open>ReadMetadata\<close> reads back as the
  same record, for metadata with ASCII hashes, 64-bit sizes and a representable time.
\<close>

theorem metadata_round_trip:
  assumes "wf_metadata m" and "write_metadata p m s = (Inr (), t)" and "no_faults t"
  shows "fst (read_metadata p t) = Inr m"
  using write_metadata_done [OF assms(2)] read_metadata_file assms by blast

theorem metadata_round_trip_witness:
  "\<exists>t. write_metadata ''/c/ab/ab12-m'' example_metadata example_sys = (Inr (), t) \<and> no_faults t
     \<and> fst (read_metadata ''/c/ab/ab12-m'' t) = Inr example_metadata"
  using write_example metadata_round_trip [OF wf_example_metadata] by blast

text \<open>
  C27: \<open>WriteMetadata\<close> is atomic for every pattern of failing system calls: it changes no file but
  the metadata file and its \<open>.tmp\<close> file; when it reports an error the metadata file is as it was;
  when it succeeds the metadata file holds the complete encoding and the \<open>.tmp\<close> file is gone.
\<close>

theorem write_metadata_atomic:
  assumes "write_metadata p m s = (r, t)"
  shows "(\<forall>q. q \<noteq> p \<longrightarrow> q \<noteq> p @ ''.tmp'' \<longrightarrow> sys_files t q = sys_files s q)
    \<and> (case r of
         Inl e \<Rightarrow> sys_files t p = sys_files s p
       | Inr _ \<Rightarrow> \<exists>f. sys_files t p = Some f \<and> encode_metadata m = Inr (f_data f)
                   \<and> sys_files t (p @ ''.tmp'') = None)"
proof -
  have "touches {p, p @ ''.tmp''} s t"
    using write_metadata_touches [of p s m] assms by simp
  with assms show ?thesis
    by (cases r) (use write_metadata_failed write_metadata_done in \<open>fastforce simp: touches_def\<close>)+
qed

theorem write_metadata_atomic_witness:
  "\<exists>t. write_metadata ''/c/ab/ab12-m'' example_metadata example_sys = (Inr (), t)
     \<and> sys_files t ''/c/ab/ab12-d'' = None \<and> sys_files t ''/c/ab/ab12-m.tmp'' = None"
proof -
  obtain t where t: "write_metadata ''/c/ab/ab12-m'' example_metadata example_sys = (Inr (), t)"
    using write_example by blast
  from write_metadata_atomic [OF this] have "sys_files t ''/c/ab/ab12-d'' = None"
    "sys_files t ''/c/ab/ab12-m.tmp'' = None"
    by (auto simp: example_sys_def)
  with t show ?thesis by blast
qed

end
