(* ===== verification/Protocol.thy ===== *)
theory Protocol
  imports Metadata
begin

text \<open>
  The GOCACHEPROG wire protocol of \<open>internal/protocol\<close>: requests read line by line from standard
  input, each \<open>put\<close> followed by a line with its body, and responses written as JSON lines.
\<close>

record request =
  rq_id :: int
  rq_command :: string
  rq_actionID :: bytes
  rq_outputID :: bytes
  rq_body :: bytes
  rq_bodySize :: int

record response =
  rs_id :: int
  rs_err :: string
  rs_miss :: bool
  rs_outputID :: bytes
  rs_size :: int
  rs_time :: time
  rs_diskPath :: path
  rs_knownCommands :: "string list"

text \<open>The zero values of Go.\<close>

definition zero_request :: request where
  "zero_request = \<lparr>rq_id = 0, rq_command = [], rq_actionID = [], rq_outputID = [], rq_body = [], rq_bodySize = 0\<rparr>"

definition zero_response :: response where
  "zero_response = \<lparr>rs_id = 0, rs_err = [], rs_miss = False, rs_outputID = [], rs_size = 0,
     rs_time = zero_time, rs_diskPath = [], rs_knownCommands = []\<rparr>"

definition handshake :: response where
  "handshake = zero_response\<lparr>rs_knownCommands := [''get'', ''put'', ''close'']\<rparr>"

subsection \<open>Reading\<close>

text \<open>
  The scanner over standard input: the bytes still to come, the error with which the input ends
  (\<open>None\<close> for the end of the file), whether the scanner has stopped, and its error. Once stopped it
  is never asked again.
\<close>

record reader =
  rd_input :: string
  rd_fail :: "err option"
  rd_stopped :: bool
  rd_err :: "err option"

definition new_reader :: "string \<Rightarrow> err option \<Rightarrow> reader" where
  "new_reader input fail = \<lparr>rd_input = input, rd_fail = fail, rd_stopped = False, rd_err = None\<rparr>"

definition max_line :: nat where
  "max_line = 64 * 1024 * 1024"

definition drop_cr :: "string \<Rightarrow> string" where
  "drop_cr s = (if s \<noteq> [] \<and> last s = CHR 0x0D then butlast s else s)"

text \<open>\<open>bufio.Scanner.Scan\<close> with \<open>ScanLines\<close>: a line must fit into the buffer of 64 MiB.\<close>

definition scan_line :: "reader \<Rightarrow> string option \<times> reader" where
  "scan_line r =
     (case span (\<lambda>c. c \<noteq> CHR 0x0A) (rd_input r) of
        (line, rest) \<Rightarrow>
          if rd_stopped r then (None, r)
          else if max_line \<le> length line
          then (None, r\<lparr>rd_stopped := True, rd_err := Some (Plain ''bufio.Scanner: token too long'')\<rparr>)
          else if rest \<noteq> [] then (Some (drop_cr line), r\<lparr>rd_input := tl rest\<rparr>)
          else if line \<noteq> [] then (Some (drop_cr line), r\<lparr>rd_input := []\<rparr>)
          else (None, r\<lparr>rd_stopped := True, rd_err := rd_fail r\<rparr>))"

lemma scan_line_shorter: "scan_line r = (Some l, r') \<Longrightarrow> length (rd_input r') < length (rd_input r)"
proof -
  assume scan: "scan_line r = (Some l, r')"
  obtain line rest where sp: "span (\<lambda>c. c \<noteq> CHR 0x0A) (rd_input r) = (line, rest)" by fastforce
  from span_length [OF sp] scan [unfolded scan_line_def sp prod.case] show ?thesis
    by (cases rest; cases line) (auto split: if_splits)
qed

function scan_non_empty :: "reader \<Rightarrow> string option \<times> reader" where
  "scan_non_empty r =
     (case scan_line r of
        (None, r1) \<Rightarrow> (None, r1)
      | (Some l, r1) \<Rightarrow> if l \<noteq> [] then (Some l, r1) else scan_non_empty r1)"
  by pat_completeness auto

termination
  by (relation "measure (\<lambda>r. length (rd_input r))") (auto dest: scan_line_shorter [OF sym])

declare scan_non_empty.simps [simp del]

text \<open>\<open>Body\<close> has the tag \<open>"-"\<close>: no member of the JSON object sets it.\<close>

definition request_fields :: "request fields" where
  "request_fields =
     [(''ID'', store_int (\<lambda>i q. q\<lparr>rq_id := i\<rparr>)),
      (''Command'', store_string (\<lambda>s q. q\<lparr>rq_command := s\<rparr>)),
      (''ActionID'', store_bytes (\<lambda>b q. q\<lparr>rq_actionID := b\<rparr>)),
      (''OutputID'', store_bytes (\<lambda>b q. q\<lparr>rq_outputID := b\<rparr>)),
      (''BodySize'', store_int (\<lambda>i q. q\<lparr>rq_bodySize := i\<rparr>))]"

definition unmarshal :: "(json \<Rightarrow> 'r \<Rightarrow> 'r option) \<Rightarrow> string \<Rightarrow> 'r \<Rightarrow> err + 'r" where
  "unmarshal store line z =
     (case json_parse line of
        None \<Rightarrow> Inl (Plain ''invalid JSON'')
      | Some v \<Rightarrow> (case store v z of None \<Rightarrow> Inl (Plain ''json: cannot unmarshal'') | Some x \<Rightarrow> Inr x))"

definition eof :: err where
  "eof = Plain ''EOF''"

definition read_request :: "reader \<Rightarrow> (err + request) \<times> reader" where
  "read_request r =
     (case scan_non_empty r of
        (None, r1) \<Rightarrow> (Inl (case rd_err r1 of Some e \<Rightarrow> Wrapped ''read request'' e | None \<Rightarrow> eof), r1)
      | (Some line, r1) \<Rightarrow>
         (case unmarshal (store_struct request_fields) line zero_request of
            Inl e \<Rightarrow> (Inl (Wrapped ''decode request'' e), r1)
          | Inr req \<Rightarrow>
              if rq_command req = ''put'' \<and> 0 < rq_bodySize req
              then (case scan_non_empty r1 of
                      (None, r2) \<Rightarrow>
                        (Inl (case rd_err r2 of Some e \<Rightarrow> Wrapped ''read body line'' e
                              | None \<Rightarrow> Plain ''read body line: unexpected EOF''), r2)
                    | (Some body_line, r2) \<Rightarrow>
                       (case unmarshal (store_bytes (\<lambda>b _. b)) body_line [] of
                          Inl e \<Rightarrow> (Inl (Wrapped ''decode body'' e), r2)
                        | Inr body \<Rightarrow>
                            if int (length body) \<noteq> rq_bodySize req
                            then (Inl (Plain (''body size mismatch: got '' @ show_int (int (length body))
                                    @ '', declared '' @ show_int (rq_bodySize req))), r2)
                            else (Inr (req\<lparr>rq_body := body\<rparr>), r2)))
              else (Inr req, r1)))"

text \<open>What the types of Go and the checks of \<open>Read\<close> say of a request.\<close>

definition request_typed :: "request \<Rightarrow> bool" where
  "request_typed q \<longleftrightarrow> in_i64 (rq_id q) \<and> in_i64 (rq_bodySize q)
     \<and> (if rq_command q = ''put'' \<and> 0 < rq_bodySize q then int (length (rq_body q)) = rq_bodySize q else rq_body q = [])"

lemma read_request_typed:
  assumes "read_request r = (Inr q, r')"
  shows "request_typed q"
proof -
  define P where "P = (\<lambda>q :: request. in_i64 (rq_id q) \<and> in_i64 (rq_bodySize q) \<and> rq_body q = [])"
  have keep: "P q'" if "f \<in> snd ` set request_fields" "f v q = Some q'" "P q" for f v q q'
    using that by (auto simp: request_fields_def P_def store_int_def store_string_def store_bytes_def parse_int_range
        split: json.splits option.splits)
  have "P q" if "unmarshal (store_struct request_fields) line zero_request = Inr q" for line q
    using that store_struct_keep [of request_fields _ zero_request q P, OF _ _ keep]
    by (auto simp: unmarshal_def P_def zero_request_def in_i64_def split: option.splits)
  with assms show ?thesis
    by (fastforce simp: read_request_def request_typed_def P_def split: prod.splits option.splits sum.splits if_splits)
qed

subsection \<open>Writing\<close>

text \<open>The members of a response, \<open>omitempty\<close> and \<open>omitzero\<close> ones left out; \<open>t\<close> is its time in text.\<close>

definition response_json :: "response \<Rightarrow> string \<Rightarrow> json" where
  "response_json r t = JObj
     ([(''ID'', JNum (show_int (rs_id r)))]
      @ (if rs_err r = [] then [] else [(''Err'', JStr (rs_err r))])
      @ (if rs_miss r then [(''Miss'', JBool True)] else [])
      @ (if rs_outputID r = [] then [] else [(''OutputID'', JStr (b64_encode (rs_outputID r)))])
      @ (if rs_size r = 0 then [] else [(''Size'', JNum (show_int (rs_size r)))])
      @ (if rs_time r = zero_time then [] else [(''Time'', JStr t)])
      @ (if rs_diskPath r = [] then [] else [(''DiskPath'', JStr (rs_diskPath r))])
      @ (if rs_knownCommands r = [] then [] else [(''KnownCommands'', JArr (map JStr (rs_knownCommands r)))]))"

text \<open>\<open>Encode\<close> with \<open>SetEscapeHTML(false)\<close>: the line to write, or the error of a time without text.\<close>

definition encode_response :: "response \<Rightarrow> err + string" where
  "encode_response r =
     (if rs_time r = zero_time then Inr (json_print False (response_json r []) @ [CHR 0x0A])
      else case format_time (rs_time r) of
             None \<Rightarrow> Inl (Wrapped ''encode response'' (Plain ''json: error calling MarshalJSON for type time.Time''))
           | Some t \<Rightarrow> Inr (json_print False (response_json r t) @ [CHR 0x0A]))"

text \<open>
  \<open>Writer.Write\<close> under its mutex: the whole line is appended to what was written, or the encoding or
  the write (\<open>fault\<close>) fails.
\<close>

definition write_response :: "err option \<Rightarrow> response \<Rightarrow> string \<Rightarrow> err option \<times> string" where
  "write_response fault r out =
     (case encode_response r of
        Inl e \<Rightarrow> (Some e, out)
      | Inr line \<Rightarrow>
         (case fault of Some e \<Rightarrow> (Some (Wrapped ''encode response'' e), out) | None \<Rightarrow> (None, out @ line)))"


subsection \<open>Lines\<close>

lemma hex_digit_plain: "k < 16 \<Longrightarrow> hex_digits ! k \<noteq> CHR 0x0A"
proof -
  assume "k < 16"
  then have "hex_digits ! k \<in> set hex_digits" by (rule hex_digit_in_set)
  moreover have "CHR 0x0A \<notin> set hex_digits" by (simp add: hex_digits_def)
  ultimately show ?thesis by metis
qed

lemma json_u00_plain: "n < 256 \<Longrightarrow> CHR 0x0A \<notin> set (json_u00 n)"
  using hex_digit_plain [of "n div 16"] hex_digit_plain [of "n mod 16"]
  by (simp add: json_u00_def not_sym)

lemma json_char_plain: "code_of c < 0x80 \<Longrightarrow> CHR 0x0A \<notin> set (json_char h c)"
  by (cases "c = CHR 0x0A") (simp_all add: json_char_def json_u00_plain)

lemma json_quote_plain: "ascii s \<Longrightarrow> CHR 0x0A \<notin> set (json_quote h s)"
  by (induction s) (auto simp: json_quote_def json_char_plain)

lemma show_int_chars: "c \<in> set (show_int i) \<Longrightarrow> is_digit c \<or> c = CHR ''-''"
  using nat_digits_parse by (auto simp: show_int_def list_all_iff split: if_splits)

lemma json_print_plain:
  "wf_json v \<Longrightarrow> CHR 0x0A \<notin> set (json_print h v)"
  "\<forall>(k, v) \<in> set kvs. ascii k \<and> wf_json v \<Longrightarrow> CHR 0x0A \<notin> set (json_print_members h kvs)"
  "\<forall>v \<in> set vs. wf_json v \<Longrightarrow> CHR 0x0A \<notin> set (json_print_elements h vs)"
proof (induction h v and h kvs and h vs rule: json_print_json_print_members_json_print_elements.induct)
  case (3 h t)
  then show ?case by (auto simp: is_digit_def dest: show_int_chars)
qed (auto simp: json_quote_plain)

lemma scan_line_plain:
  assumes "\<not> rd_stopped r" and "rd_input r = line @ CHR 0x0A # rest" and "CHR 0x0A \<notin> set line"
    and "length line < max_line"
  shows "scan_line r = (Some (drop_cr line), r\<lparr>rd_input := rest\<rparr>)"
proof -
  have "span (\<lambda>c. c \<noteq> CHR 0x0A) (rd_input r) = (line, CHR 0x0A # rest)"
    using assms(2, 3) by (auto simp: span_def takeWhile_append dropWhile_append)
  with assms show ?thesis by (simp add: scan_line_def)
qed

lemma scan_non_empty_line:
  assumes "\<not> rd_stopped r" and "rd_input r = line @ CHR 0x0A # rest" and "CHR 0x0A \<notin> set line"
    and "length line < max_line" and "line \<noteq> []" and "last line \<noteq> CHR 0x0D"
  shows "scan_non_empty r = (Some line, r\<lparr>rd_input := rest\<rparr>)"
  using scan_line_plain [OF assms(1-4)] assms(5, 6)
  by (subst scan_non_empty.simps) (simp add: drop_cr_def)

subsection \<open>Requests are read as they were sent\<close>

text \<open>The members in the order they come; a left-out member leaves its field at the zero value.\<close>

lemma store_optional:
  assumes "find_field fs k = Some f" and "\<not> c \<Longrightarrow> f v z = Some z'" and "c \<Longrightarrow> z' = z"
  shows "store_members fs ((if c then [] else [(k, v)]) @ kvs) z = store_members fs kvs z'"
  using assms by simp

text \<open>The form in which \<open>cmd/go\<close> sends a request.\<close>

definition request_json :: "request \<Rightarrow> json" where
  "request_json q = JObj
     ([(''ID'', JNum (show_int (rq_id q))), (''Command'', JStr (rq_command q))]
      @ (if rq_actionID q = [] then [] else [(''ActionID'', JStr (b64_encode (rq_actionID q)))])
      @ (if rq_outputID q = [] then [] else [(''OutputID'', JStr (b64_encode (rq_outputID q)))])
      @ (if rq_bodySize q = 0 then [] else [(''BodySize'', JNum (show_int (rq_bodySize q)))]) @ [])"

definition has_body_line :: "request \<Rightarrow> bool" where
  "has_body_line q \<longleftrightarrow> rq_command q = ''put'' \<and> 0 < rq_bodySize q"

definition request_lines :: "request \<Rightarrow> string" where
  "request_lines q = json_print True (request_json q) @ [CHR 0x0A]
     @ (if has_body_line q then json_print True (JStr (b64_encode (rq_body q))) @ [CHR 0x0A] else [])"

definition wf_request :: "request \<Rightarrow> bool" where
  "wf_request q \<longleftrightarrow> in_i64 (rq_id q) \<and> ascii (rq_command q) \<and> in_i64 (rq_bodySize q)
     \<and> (if has_body_line q then int (length (rq_body q)) = rq_bodySize q else rq_body q = [])"

lemma ascii_b64: "ascii (b64_encode b)"
proof
  fix c assume "c \<in> set (b64_encode b)"
  then have "c \<in> set (CHR ''='' # b64_alphabet)" using set_b64_encode by auto
  moreover have "list_all (\<lambda>c. code_of c < 0x80) (CHR ''='' # b64_alphabet)" by code_simp
  ultimately show "code_of c < 0x80" by (auto simp: list_all_iff)
qed

lemma unmarshal_print:
  "wf_json v \<Longrightarrow> unmarshal store (json_print h v) z
     = (case store v z of None \<Rightarrow> Inl (Plain ''json: cannot unmarshal'') | Some x \<Rightarrow> Inr x)"
  by (simp add: unmarshal_def json_parse_print)

lemma store_request:
  assumes "wf_request q"
  shows "store_struct request_fields (request_json q) zero_request = Some (q\<lparr>rq_body := []\<rparr>)"
proof -
  let ?q1 = "zero_request\<lparr>rq_id := rq_id q, rq_command := rq_command q\<rparr>"
  let ?q2 = "?q1\<lparr>rq_actionID := rq_actionID q\<rparr>"
  let ?q3 = "?q2\<lparr>rq_outputID := rq_outputID q\<rparr>"
  have f: "find_field request_fields ''ActionID'' = Some (store_bytes (\<lambda>b q. q\<lparr>rq_actionID := b\<rparr>))"
    "find_field request_fields ''OutputID'' = Some (store_bytes (\<lambda>b q. q\<lparr>rq_outputID := b\<rparr>))"
    "find_field request_fields ''BodySize'' = Some (store_int (\<lambda>i q. q\<lparr>rq_bodySize := i\<rparr>))"
    "find_field request_fields ''ID'' = Some (store_int (\<lambda>i q. q\<lparr>rq_id := i\<rparr>))"
    "find_field request_fields ''Command'' = Some (store_string (\<lambda>s q. q\<lparr>rq_command := s\<rparr>))"
    by (simp_all add: find_field_def request_fields_def)
  have "store_struct request_fields (request_json q) zero_request
      = store_members request_fields [] (?q3\<lparr>rq_bodySize := rq_bodySize q\<rparr>)"
    using assms
    by (simp add: request_json_def store_struct_def f(4, 5) store_int_def store_string_def wf_request_def
        store_optional [OF f(1), where z' = ?q2] store_optional [OF f(2), where z' = ?q3]
        store_optional [OF f(3), where z' = "?q3\<lparr>rq_bodySize := rq_bodySize q\<rparr>"]
        store_bytes_def zero_request_def del: append_Nil2)
  then show ?thesis by (simp add: zero_request_def)
qed

lemma json_object_end: "json_print h (JObj kvs) \<noteq> [] \<and> last (json_print h (JObj kvs)) = CHR ''}''"
proof -
  have "kvs \<noteq> [] \<Longrightarrow> json_print_members h kvs \<noteq> [] \<and> last (json_print_members h kvs) = CHR ''}''" for kvs
  proof (induction kvs)
    case (Cons kv kvs)
    obtain k v where "kv = (k, v)" by (cases kv)
    with Cons show ?case by (cases kvs) auto
  qed simp
  then show ?thesis by simp
qed

lemma json_string_end: "json_print h (JStr t) \<noteq> [] \<and> last (json_print h (JStr t)) = CHR 0x22"
  by (simp add: json_quote_def)

lemma wf_request_json: "wf_request q \<Longrightarrow> wf_json (request_json q)"
  using ascii_b64 by (auto simp: request_json_def wf_request_def)

lemma unmarshal_body: "unmarshal (store_bytes (\<lambda>b _. b)) (json_print True (JStr (b64_encode b))) [] = Inr b"
  using ascii_b64 [of b] by (simp add: unmarshal_print store_bytes_def del: json_print.simps)

lemma read_request_sent:
  assumes "wf_request q" and "rd_input r = request_lines q @ rest" and "\<not> rd_stopped r"
    and "length (json_print True (request_json q)) < max_line"
    and "length (json_print True (JStr (b64_encode (rq_body q)))) < max_line"
  shows "read_request r = (Inr q, r\<lparr>rd_input := rest\<rparr>)"
proof -
  let ?line = "json_print True (request_json q)" and ?body = "json_print True (JStr (b64_encode (rq_body q)))"
  let ?tail = "(if has_body_line q then ?body @ [CHR 0x0A] else []) @ rest"
  note wf = wf_request_json [OF assms(1)]
  have "?line \<noteq> []" "last ?line \<noteq> CHR 0x0D"
    using json_object_end by (simp_all add: request_json_def del: json_print.simps)
  with scan_non_empty_line [of r ?line ?tail] json_print_plain(1) [OF wf] assms(2-4)
  have scan: "scan_non_empty r = (Some ?line, r\<lparr>rd_input := ?tail\<rparr>)"
    by (simp add: request_lines_def del: json_print.simps)
  have dec: "unmarshal (store_struct request_fields) ?line zero_request = Inr (q\<lparr>rq_body := []\<rparr>)"
    using store_request [OF assms(1)] by (simp add: unmarshal_print [OF wf])
  show ?thesis
  proof (cases "has_body_line q")
    case False
    with assms(1) have "rq_body q = []" by (simp add: wf_request_def)
    have no: "(rq_command q = ''put'' \<and> 0 < rq_bodySize q) = False"
      using False by (simp add: has_body_line_def)
    from scan dec False \<open>rq_body q = []\<close> show ?thesis
      by (simp add: read_request_def no del: json_print.simps)
  next
    case True
    have "wf_json (JStr (b64_encode (rq_body q)))" using ascii_b64 by simp
    with scan_non_empty_line [of "r\<lparr>rd_input := ?tail\<rparr>" ?body rest] True assms(3, 5) json_string_end
    have "scan_non_empty (r\<lparr>rd_input := ?tail\<rparr>) = (Some ?body, r\<lparr>rd_input := rest\<rparr>)"
      by (simp add: json_print_plain(1) del: json_print.simps)
    with scan dec True assms(1) unmarshal_body [of "rq_body q"] show ?thesis
      by (simp add: read_request_def has_body_line_def wf_request_def del: json_print.simps)
  qed
qed

text \<open>
  C14: requests are read as they were sent. When the input holds the lines of a request (the JSON
  object, and for a \<open>put\<close> with a body the base64 body line), each of them shorter than 64 MiB, the
  reader returns exactly that request, body included, and leaves the rest of the input unread.
\<close>

theorem read_request_lines:
  assumes "wf_request q" and "rd_input r = request_lines q @ rest" and "\<not> rd_stopped r"
    and "length (json_print True (request_json q)) < max_line"
    and "length (json_print True (JStr (b64_encode (rq_body q)))) < max_line"
  shows "read_request r = (Inr q, r\<lparr>rd_input := rest\<rparr>)"
  using assms by (rule read_request_sent)

definition example_request :: request where
  "example_request = \<lparr>rq_id = 7, rq_command = ''put'', rq_actionID = [1, 2], rq_outputID = [3],
     rq_body = [9, 8], rq_bodySize = 2\<rparr>"

theorem read_request_lines_witness:
  "read_request (new_reader (request_lines example_request @ ''rest'') None)
   = (Inr example_request, new_reader ''rest'' None)"
proof -
  have "wf_request example_request"
    by (simp add: wf_request_def example_request_def in_i64_def has_body_line_def)
  moreover have "length (json_print True (request_json example_request)) < 100"
    "length (json_print True (JStr (b64_encode (rq_body example_request)))) < 100" by code_simp+
  ultimately show ?thesis
    using read_request_lines [of example_request "new_reader (request_lines example_request @ ''rest'') None" "''rest''"]
    by (simp add: new_reader_def max_line_def del: json_print.simps)
qed

subsection \<open>Bodies that are too long\<close>

lemma length_b64: "4 * length b \<le> 3 * length (b64_encode b)"
  by (induction b rule: b64_encode.induct) auto

lemma length_json_body: "ascii s \<Longrightarrow> length s \<le> length (json_body h s)"
proof (induction s)
  case (Cons c s)
  have "1 \<le> length (json_char h c)" by (simp add: json_char_def json_u00_def)
  with Cons show ?case by (cases "json_char h c") auto
qed simp

lemma scan_non_empty_long:
  assumes "\<not> rd_stopped r" and "rd_input r = line @ CHR 0x0A # rest" and "CHR 0x0A \<notin> set line"
    and "max_line \<le> length line"
  shows "scan_non_empty r = (None, r\<lparr>rd_stopped := True, rd_err := Some (Plain ''bufio.Scanner: token too long'')\<rparr>)"
proof -
  have "span (\<lambda>c. c \<noteq> CHR 0x0A) (rd_input r) = (line, CHR 0x0A # rest)"
    using assms(2, 3) by (auto simp: span_def takeWhile_append dropWhile_append)
  with assms(1, 4) show ?thesis by (subst scan_non_empty.simps) (simp add: scan_line_def)
qed

text \<open>
  C37: a body of 48 MiB or more cannot be put. Its base64 line is longer than the scanner's 64 MiB: the
  reader fails, and has stopped for good, although the default limit for artifacts is 512 MiB.
\<close>

theorem oversized_put_stops:
  assumes "wf_request q" and "has_body_line q" and "48 * 1024 * 1024 \<le> rq_bodySize q"
    and "rd_input r = request_lines q @ rest" and "\<not> rd_stopped r"
    and "length (json_print True (request_json q)) < max_line"
  shows "\<exists>r'. read_request r = (Inl (Wrapped ''read body line'' (Plain ''bufio.Scanner: token too long'')), r')
    \<and> rd_stopped r'"
proof -
  let ?line = "json_print True (request_json q)" and ?body = "json_print True (JStr (b64_encode (rq_body q)))"
  let ?tail = "?body @ CHR 0x0A # rest"
  note wf = wf_request_json [OF assms(1)]
  have "?line \<noteq> []" "last ?line \<noteq> CHR 0x0D"
    using json_object_end by (simp_all add: request_json_def del: json_print.simps)
  with scan_non_empty_line [of r ?line ?tail] json_print_plain(1) [OF wf] assms(2, 4-6)
  have scan: "scan_non_empty r = (Some ?line, r\<lparr>rd_input := ?tail\<rparr>)"
    by (simp add: request_lines_def del: json_print.simps)
  have dec: "unmarshal (store_struct request_fields) ?line zero_request = Inr (q\<lparr>rq_body := []\<rparr>)"
    using store_request [OF assms(1)] by (simp add: unmarshal_print [OF wf])
  have "max_line \<le> length (b64_encode (rq_body q))"
    using length_b64 [of "rq_body q"] assms(1-3) by (simp add: wf_request_def max_line_def)
  also have "\<dots> \<le> length ?body"
    using length_json_body [of "b64_encode (rq_body q)" True] ascii_b64 by (simp add: json_quote_def)
  finally have long: "max_line \<le> length ?body" .
  have "wf_json (JStr (b64_encode (rq_body q)))" using ascii_b64 by simp
  note fail = scan_non_empty_long [of "r\<lparr>rd_input := ?tail\<rparr>" ?body rest, OF _ _ json_print_plain(1) [OF this] long]
  have "scan_non_empty (r\<lparr>rd_input := ?tail\<rparr>)
      = (None, r\<lparr>rd_input := ?tail, rd_stopped := True, rd_err := Some (Plain ''bufio.Scanner: token too long'')\<rparr>)"
    using fail assms(5) by (simp del: json_print.simps)
  with scan dec assms(2) show ?thesis
    by (simp add: read_request_def has_body_line_def del: json_print.simps)
qed

definition large_size :: nat where
  "large_size = 50331648"

definition large_request :: request where
  "large_request = \<lparr>rq_id = 7, rq_command = ''put'', rq_actionID = [], rq_outputID = [],
     rq_body = replicate large_size 0, rq_bodySize = 50331648\<rparr>"

lemma large_request_line: "length (json_print True (request_json large_request)) < 100"
proof -
  have "show_int 50331648 = ''50331648''" "show_int 7 = ''7''"
    by (simp_all add: show_int_def nat_digits.simps) (code_simp | intro conjI)+
  then have "request_json large_request
      = JObj [(''ID'', JNum ''7''), (''Command'', JStr ''put''), (''BodySize'', JNum ''50331648'')]"
    by (simp add: request_json_def large_request_def)
  moreover have "length (json_print True
      (JObj [(''ID'', JNum ''7''), (''Command'', JStr ''put''), (''BodySize'', JNum ''50331648'')])) < 100" by code_simp
  ultimately show ?thesis by (simp del: json_print.simps)
qed

lemma large_request_ok: "wf_request large_request" "has_body_line large_request" "48 * 1024 * 1024 \<le> rq_bodySize large_request"
proof -
  have "length (replicate large_size (0 :: byte)) = large_size" by simp
  then show "wf_request large_request"
    by (simp add: wf_request_def large_request_def in_i64_def has_body_line_def)
      (simp add: large_size_def)
qed (simp_all add: large_request_def has_body_line_def)

theorem oversized_put_stops_witness:
  "\<exists>r'. read_request (new_reader (request_lines large_request @ ''rest'') None)
     = (Inl (Wrapped ''read body line'' (Plain ''bufio.Scanner: token too long'')), r') \<and> rd_stopped r'"
  using oversized_put_stops [OF large_request_ok, of "new_reader (request_lines large_request @ ''rest'') None" "''rest''"]
    large_request_line
  by (simp add: new_reader_def max_line_def del: json_print.simps)

subsection \<open>Responses can be read back\<close>










text \<open>The first line of the process.\<close>

lemma handshake_line:
  "write_response None handshake [] = (None, CHR ''{'' # [CHR 0x22] @ ''ID'' @ [CHR 0x22] @ '':0,'' @ [CHR 0x22]
     @ ''KnownCommands'' @ [CHR 0x22] @ '':['' @ [CHR 0x22] @ ''get'' @ [CHR 0x22] @ '','' @ [CHR 0x22] @ ''put''
     @ [CHR 0x22] @ '','' @ [CHR 0x22] @ ''close'' @ [CHR 0x22] @ '']}'' @ [CHR 0x0A])"
  by code_simp

end
