(* ===== verification/Breaker.thy ===== *)
theory Breaker
  imports Prelude
begin

text \<open>
  The circuit breaker of \<open>internal/reapi/circuitbreaker.go\<close>: a count of consecutive failures,
  a threshold that trips it, and a cooldown after which requests are let through again. Each
  operation runs under the breaker's mutex, so it is one atomic step. \<open>now\<close> is what
  \<open>time.Now()\<close> returns inside the operation.
\<close>

record circuit_breaker =
  cb_failures :: int
  cb_threshold :: int
  cb_lastFailure :: time
  cb_cooldown :: duration
  cb_tripped :: bool

definition new_circuit_breaker :: "int \<Rightarrow> duration \<Rightarrow> circuit_breaker" where
  "new_circuit_breaker thr cool =
     \<lparr>cb_failures = 0, cb_threshold = thr, cb_lastFailure = zero_time,
      cb_cooldown = cool, cb_tripped = False\<rparr>"

definition allow :: "time \<Rightarrow> circuit_breaker \<Rightarrow> bool" where
  "allow now cb =
     (if \<not> cb_tripped cb then True
      else if cb_cooldown cb \<le> time_sub now (cb_lastFailure cb) then True
      else False)"

definition record_success :: "circuit_breaker \<Rightarrow> circuit_breaker" where
  "record_success cb = cb\<lparr>cb_failures := 0, cb_tripped := False\<rparr>"

definition record_failure :: "time \<Rightarrow> circuit_breaker \<Rightarrow> circuit_breaker" where
  "record_failure now cb =
     (let cb1 = cb\<lparr>cb_failures := i64 (cb_failures cb + 1), cb_lastFailure := now\<rparr>
      in if cb_threshold cb1 \<le> cb_failures cb1 then cb1\<lparr>cb_tripped := True\<rparr> else cb1)"

definition is_open :: "circuit_breaker \<Rightarrow> bool" where
  "is_open cb = cb_tripped cb"

subsection \<open>Runs\<close>

text \<open>What a caller can do to a breaker: report a success, or a failure at a time.\<close>

datatype cb_event = Success | Failure time

fun cb_step :: "cb_event \<Rightarrow> circuit_breaker \<Rightarrow> circuit_breaker" where
  "cb_step Success cb = record_success cb"
| "cb_step (Failure t) cb = record_failure t cb"

definition cb_run :: "cb_event list \<Rightarrow> circuit_breaker \<Rightarrow> circuit_breaker" where
  "cb_run es cb = fold cb_step es cb"

text \<open>The failures since the last success: the specification of the counter.\<close>

fun trailing_failures :: "cb_event list \<Rightarrow> nat" where
  "trailing_failures [] = 0"
| "trailing_failures (e # es) =
     (if Success \<in> set es then trailing_failures es
      else case e of Success \<Rightarrow> length es | Failure t \<Rightarrow> Suc (length es))"

fun last_failure :: "cb_event list \<Rightarrow> time option" where
  "last_failure [] = None"
| "last_failure (e # es) =
     (case last_failure es of Some t \<Rightarrow> Some t
      | None \<Rightarrow> (case e of Success \<Rightarrow> None | Failure t \<Rightarrow> Some t))"

lemma trailing_failures_le: "trailing_failures es \<le> length es"
  by (induction es) (auto split: cb_event.splits)

lemma trailing_failures_snoc:
  "trailing_failures (es @ [e]) =
     (case e of Success \<Rightarrow> 0 | Failure t \<Rightarrow> Suc (trailing_failures es))"
  by (induction es) (auto split: cb_event.splits)

lemma last_failure_snoc:
  "last_failure (es @ [e]) =
     (case e of Success \<Rightarrow> last_failure es | Failure t \<Rightarrow> Some t)"
  by (induction es) (auto split: cb_event.splits option.splits)

lemma cb_step_frame [simp]:
  "cb_threshold (cb_step e cb) = cb_threshold cb"
  "cb_cooldown (cb_step e cb) = cb_cooldown cb"
  by (cases e; simp add: record_success_def record_failure_def Let_def)+

lemma cb_run_frame [simp]:
  "cb_threshold (cb_run es cb) = cb_threshold cb"
  "cb_cooldown (cb_run es cb) = cb_cooldown cb"
  by (induction es arbitrary: cb) (simp_all add: cb_run_def)

lemma cb_run_snoc: "cb_run (es @ [e]) cb = cb_step e (cb_run es cb)"
  by (simp add: cb_run_def)

text \<open>The breaker's state after any run from a fresh breaker, read off the events.\<close>

lemma cb_run_state:
  assumes "0 < thr" and "int (length es) < 2 ^ 63"
  shows "cb_failures (cb_run es (new_circuit_breaker thr cool)) = int (trailing_failures es)
    \<and> (cb_tripped (cb_run es (new_circuit_breaker thr cool))
        \<longleftrightarrow> thr \<le> int (trailing_failures es))
    \<and> cb_lastFailure (cb_run es (new_circuit_breaker thr cool))
        = (case last_failure es of None \<Rightarrow> zero_time | Some t \<Rightarrow> t)"
  using assms(2)
proof (induction es rule: rev_induct)
  case Nil
  with assms(1) show ?case by (simp add: cb_run_def new_circuit_breaker_def)
next
  case (snoc e es)
  show ?case
  proof (cases e)
    case Success
    with snoc assms(1) show ?thesis
      by (simp add: cb_run_snoc record_success_def trailing_failures_snoc last_failure_snoc)
  next
    case (Failure t)
    have "int (trailing_failures es) < 2 ^ 63 - 1"
      using trailing_failures_le [of es] snoc.prems by simp
    then have "i64 (int (trailing_failures es) + 1) = int (trailing_failures es) + 1"
      by (intro i64_id) (simp add: in_i64_def)
    with snoc Failure show ?thesis
      by (simp add: cb_run_snoc record_failure_def Let_def trailing_failures_snoc
          last_failure_snoc add.commute) (auto simp: new_circuit_breaker_def)
  qed
qed

lemma allow_closed: "\<not> cb_tripped cb \<Longrightarrow> allow now cb"
  by (simp add: allow_def)

text \<open>
  C29: after any run of recorded successes and failures, a breaker made by
  \<open>NewCircuitBreaker\<close> with a positive threshold refuses a request exactly when at least
  \<open>threshold\<close> failures were recorded since the last success and the most recent failure is
  less than \<open>cooldown\<close> ago.
\<close>

theorem breaker_allow_spec:
  assumes "0 < thr" and "int (length es) < 2 ^ 63"
  shows "allow now (cb_run es (new_circuit_breaker thr cool)) \<longleftrightarrow>
    int (trailing_failures es) < thr \<or>
    (\<exists>t. last_failure es = Some t \<and> cool \<le> time_sub now t)"
proof -
  have "last_failure es \<noteq> None" if "thr \<le> int (trailing_failures es)"
    using that assms(1)
    by (induction es rule: rev_induct)
       (auto simp: trailing_failures_snoc last_failure_snoc split: cb_event.splits)
  with cb_run_state [OF assms, of cool] show ?thesis
    by (cases "last_failure es") (auto simp: allow_def new_circuit_breaker_def)
qed

theorem breaker_allow_spec_witness:
  "\<not> allow 50 (cb_run [Failure 1, Success, Failure 10, Failure 20] (new_circuit_breaker 2 100))
   \<and> allow 120 (cb_run [Failure 1, Success, Failure 10, Failure 20] (new_circuit_breaker 2 100))"
  using breaker_allow_spec [of 2 "[Failure 1, Success, Failure 10, Failure 20]" 50 100]
    breaker_allow_spec [of 2 "[Failure 1, Success, Failure 10, Failure 20]" 120 100]
  by (simp add: time_sub_def)

end
