(* ===== verification/Rpc.thy ===== *)
theory Rpc
  imports Breaker Os
begin

text \<open>
  The retry loops of \<open>internal/reapi/client.go\<close>. The world an RPC acts on is the operating system,
  the state \<open>'v\<close> of the remote server, the circuit breaker the calls share, and a log of the
  sleeps. A context is \<open>None\<close> when it is never cancelled, or the number of system calls after which
  it is; an RPC is a function on the world that returns an error or a value.
\<close>

record 'v world =
  w_sys :: sys
  w_srv :: 'v
  w_cb :: "circuit_breaker option"
  w_slept :: "duration list"

type_synonym ctx = "nat option"

definition ctx_err :: "ctx \<Rightarrow> 'v world \<Rightarrow> err option" where
  "ctx_err ctx w =
     (case ctx of None \<Rightarrow> None
      | Some n \<Rightarrow> if n \<le> sys_calls (w_sys w) then Some (Plain ''context canceled'') else None)"

definition clock :: "'v world \<Rightarrow> time \<times> 'v world" where
  "clock w = (case now (w_sys w) of (t, s) \<Rightarrow> (t, w\<lparr>w_sys := s\<rparr>))"

subsection \<open>The breaker of a client\<close>

text \<open>\<open>cb != nil && !cb.Allow()\<close>, negated; \<open>Allow\<close> reads the clock only when the breaker is tripped.\<close>

definition cb_allow :: "'v world \<Rightarrow> bool \<times> 'v world" where
  "cb_allow w =
     (case w_cb w of
        None \<Rightarrow> (True, w)
      | Some cb \<Rightarrow> if \<not> cb_tripped cb then (True, w)
                  else (case clock w of (t, w1) \<Rightarrow> (allow t cb, w1)))"

definition cb_success :: "'v world \<Rightarrow> 'v world" where
  "cb_success w = (case w_cb w of None \<Rightarrow> w | Some cb \<Rightarrow> w\<lparr>w_cb := Some (record_success cb)\<rparr>)"

definition cb_failure :: "'v world \<Rightarrow> 'v world" where
  "cb_failure w =
     (case w_cb w of None \<Rightarrow> w
      | Some cb \<Rightarrow> (case clock w of (t, w1) \<Rightarrow> w1\<lparr>w_cb := Some (record_failure t cb)\<rparr>))"

definition breaker_open :: err where
  "breaker_open = Plain ''circuit breaker open: remote temporarily unavailable''"

text \<open>\<open>Client.CheckCircuit\<close>.\<close>

definition check_circuit :: "'v world \<Rightarrow> err option \<times> 'v world" where
  "check_circuit w = (case cb_allow w of (b, w1) \<Rightarrow> (if b then None else Some breaker_open, w1))"

subsection \<open>The loops\<close>

definition max_attempts :: nat where
  "max_attempts = 3"

definition transient :: "code \<Rightarrow> bool" where
  "transient c \<longleftrightarrow> \<not> (c \<noteq> Unavailable \<and> c \<noteq> ResourceExhausted \<and> c \<noteq> DeadlineExceeded)"

text \<open>The sleep after the attempt number \<open>attempt\<close>.\<close>

definition backoff :: "nat \<Rightarrow> 'v world \<Rightarrow> 'v world" where
  "backoff attempt w =
     (let delay = 100 * millisecond * 2 ^ attempt
      in case random (w_sys w) of
           (r, s) \<Rightarrow> w\<lparr>w_sys := s, w_slept := w_slept w @ [delay + int r mod (delay div 2)]\<rparr>)"

text \<open>
  The rounds left, the number of the next attempt, and the last error. The \<open>Suc\<close> clause is one round
  of the loop, the \<open>0\<close> clause what follows it.
\<close>

fun retry_from ::
    "ctx \<Rightarrow> ('v world \<Rightarrow> (err + 'a) \<times> 'v world) \<Rightarrow> nat \<Rightarrow> nat \<Rightarrow> err \<Rightarrow> 'v world \<Rightarrow> (err + 'a) \<times> 'v world"
where
  "retry_from ctx fn 0 attempt last_err w = (Inl last_err, cb_failure w)"
| "retry_from ctx fn (Suc n) attempt last_err w =
     (case ctx_err ctx w of
        Some e \<Rightarrow> (Inl e, w)
      | None \<Rightarrow>
         (case fn w of
            (Inr r, w1) \<Rightarrow> (Inr r, cb_success w1)
          | (Inl e, w1) \<Rightarrow>
              if \<not> transient (status_code e) then (Inl e, w1)
              else retry_from ctx fn n (Suc attempt) e
                     (if attempt < max_attempts - 1 then backoff attempt w1 else w1)))"

definition retry_rpc ::
    "ctx \<Rightarrow> ('v world \<Rightarrow> (err + 'a) \<times> 'v world) \<Rightarrow> 'v world \<Rightarrow> (err + 'a) \<times> 'v world" where
  "retry_rpc ctx fn w =
     (case cb_allow w of
        (False, w1) \<Rightarrow> (Inl breaker_open, w1)
      | (True, w1) \<Rightarrow> retry_from ctx fn max_attempts 0 (Plain []) w1)"

text \<open>The second loop, for calls that only return an error.\<close>

fun retry_no_result_from ::
    "ctx \<Rightarrow> ('v world \<Rightarrow> err option \<times> 'v world) \<Rightarrow> nat \<Rightarrow> nat \<Rightarrow> err \<Rightarrow> 'v world \<Rightarrow> err option \<times> 'v world"
where
  "retry_no_result_from ctx fn 0 attempt last_err w = (Some last_err, cb_failure w)"
| "retry_no_result_from ctx fn (Suc n) attempt last_err w =
     (case ctx_err ctx w of
        Some e \<Rightarrow> (Some e, w)
      | None \<Rightarrow>
         (case fn w of
            (None, w1) \<Rightarrow> (None, cb_success w1)
          | (Some e, w1) \<Rightarrow>
              if \<not> transient (status_code e) then (Some e, w1)
              else retry_no_result_from ctx fn n (Suc attempt) e
                     (if attempt < max_attempts - 1 then backoff attempt w1 else w1)))"

definition retry_no_result ::
    "ctx \<Rightarrow> ('v world \<Rightarrow> err option \<times> 'v world) \<Rightarrow> 'v world \<Rightarrow> err option \<times> 'v world" where
  "retry_no_result ctx fn w =
     (case cb_allow w of
        (False, w1) \<Rightarrow> (Some breaker_open, w1)
      | (True, w1) \<Rightarrow> retry_no_result_from ctx fn max_attempts 0 (Plain []) w1)"

subsection \<open>The two loops agree\<close>

text \<open>An error-only call as one that returns the unit value.\<close>

definition with_unit :: "('v world \<Rightarrow> err option \<times> 'v world) \<Rightarrow> 'v world \<Rightarrow> (err + unit) \<times> 'v world" where
  "with_unit fn w = (case fn w of (None, w1) \<Rightarrow> (Inr (), w1) | (Some e, w1) \<Rightarrow> (Inl e, w1))"

lemma retry_from_with_unit:
  "retry_from ctx (with_unit fn) n k e w = with_unit (retry_no_result_from ctx fn n k e) w"
proof (induction n arbitrary: k e w)
  case (Suc n)
  then show ?case
    by (auto simp: with_unit_def split: option.splits prod.splits sum.splits)
qed (simp add: with_unit_def)

lemma retry_with_unit:
  "retry_rpc ctx (with_unit fn) w = with_unit (retry_no_result ctx fn) w"
proof -
  obtain b w1 where "cb_allow w = (b, w1)" by (cases "cb_allow w")
  then show ?thesis
    by (cases b) (simp_all add: retry_rpc_def retry_no_result_def retry_from_with_unit with_unit_def)
qed

text \<open>
  The loop without a result, which the code keeps separate for speed, is equivalent to the
  generic one: for every call it makes the same attempts, sleeps and breaker updates and returns
  the same error or success.
\<close>

lemma retry_loops_agree:
  "retry_rpc ctx (with_unit fn) w = with_unit (retry_no_result ctx fn) w"
  by (rule retry_with_unit)

subsection \<open>What a retried call does\<close>

lemma world_frames [simp]:
  "w_srv (snd (clock w)) = w_srv w" "w_cb (snd (clock w)) = w_cb w" "w_slept (snd (clock w)) = w_slept w"
  "w_srv (snd (cb_allow w)) = w_srv w" "w_cb (snd (cb_allow w)) = w_cb w" "w_slept (snd (cb_allow w)) = w_slept w"
  "w_srv (cb_success w) = w_srv w" "w_slept (cb_success w) = w_slept w" "w_sys (cb_success w) = w_sys w"
  "w_srv (cb_failure w) = w_srv w" "w_slept (cb_failure w) = w_slept w"
  "w_srv (backoff k w) = w_srv w" "w_cb (backoff k w) = w_cb w"
  by (simp_all add: clock_def now_def cb_allow_def cb_success_def cb_failure_def backoff_def Let_def random_def
      split: option.splits)

lemma cb_success_cb [simp]: "w_cb (cb_success w) = map_option record_success (w_cb w)"
  by (simp add: cb_success_def split: option.splits)

lemma cb_failure_cb: "\<exists>t. w_cb (cb_failure w) = map_option (record_failure t) (w_cb w)"
  by (auto simp: cb_failure_def split: option.splits prod.splits)

lemma backoff_slept:
  "\<exists>d. w_slept (backoff k w) = w_slept w @ [d] \<and> 100 * millisecond * 2 ^ k \<le> d \<and> d < 150 * millisecond * 2 ^ k"
proof -
  define j where "j = int (fst (random (w_sys w))) mod (100 * millisecond * 2 ^ k div 2)"
  have half: "100 * millisecond * 2 ^ k div 2 = 50 * millisecond * 2 ^ k"
    by (simp add: millisecond_def)
  have "0 \<le> j" "j < 50 * millisecond * 2 ^ k"
    unfolding j_def half by (simp_all add: millisecond_def)
  then show ?thesis
    by (auto simp: backoff_def Let_def j_def split: prod.splits)
qed

lemma transient_errors [simp]:
  "\<not> transient (status_code breaker_open)" "ctx_err ctx w = Some e \<Longrightarrow> \<not> transient (status_code e)"
  by (auto simp: transient_def breaker_open_def ctx_err_def split: option.splits if_splits)

text \<open>Anything reflexive and transitive that a call does to the server, the retried call does.\<close>

lemma retry_from_srv:
  assumes "\<And>w. R\<^sup>*\<^sup>* (w_srv w) (w_srv (snd (fn w)))" and "retry_from ctx fn n k e0 w = (r, w')"
  shows "R\<^sup>*\<^sup>* (w_srv w) (w_srv w')"
  using assms(2)
proof (induction n arbitrary: k e0 w)
  case (Suc n)
  obtain x w1 where f: "fn w = (x, w1)" by (cases "fn w")
  then have "R\<^sup>*\<^sup>* (w_srv w) (w_srv w1)" using assms(1) [of w] by simp
  moreover have "R\<^sup>*\<^sup>* (w_srv w1) (w_srv w')" if "retry_from ctx fn n (Suc k) e
      (if k < max_attempts - 1 then backoff k w1 else w1) = (r, w')" for e
    using Suc.IH [OF that] by (simp split: if_splits)
  ultimately show ?case
    using Suc.prems f
    by (auto split: option.splits sum.splits if_splits intro: rtranclp_trans)
qed auto

lemma retry_srv:
  assumes "\<And>w. R\<^sup>*\<^sup>* (w_srv w) (w_srv (snd (fn w)))"
  shows "R\<^sup>*\<^sup>* (w_srv w) (w_srv (snd (retry_rpc ctx fn w)))"
proof -
  obtain b w1 where a: "cb_allow w = (b, w1)" by (cases "cb_allow w")
  then have srv: "w_srv w1 = w_srv w" using world_frames(4) [of w] by simp
  obtain r w' where run: "retry_from ctx fn max_attempts 0 (Plain []) w1 = (r, w')"
    by (cases "retry_from ctx fn max_attempts 0 (Plain []) w1")
  show ?thesis
    using retry_from_srv [of R fn, OF assms run] a srv run by (cases b) (simp_all add: retry_rpc_def)
qed

text \<open>A retried call that succeeds ends with one successful call.\<close>

lemma retry_from_Inr:
  assumes "\<And>w. R\<^sup>*\<^sup>* (w_srv w) (w_srv (snd (fn w)))" and "retry_from ctx fn n k e0 w = (Inr x, w')"
  shows "\<exists>w1 w2. R\<^sup>*\<^sup>* (w_srv w) (w_srv w1) \<and> fn w1 = (Inr x, w2) \<and> w_srv w' = w_srv w2"
  using assms(2)
proof (induction n arbitrary: k e0 w)
  case (Suc n)
  obtain y w1 where f: "fn w = (y, w1)" by (cases "fn w")
  then have r: "R\<^sup>*\<^sup>* (w_srv w) (w_srv w1)" using assms(1) [of w] by simp
  from Suc.prems f have none: "ctx_err ctx w = None" by (cases "ctx_err ctx w") auto
  show ?case
  proof (cases y)
    case (Inr z)
    with Suc.prems f none show ?thesis by (intro exI [of _ w] exI [of _ w1]) auto
  next
    case (Inl e)
    let ?w2 = "if k < max_attempts - 1 then backoff k w1 else w1"
    have "retry_from ctx fn n (Suc k) e ?w2 = (Inr x, w')"
      using Suc.prems f none Inl by (cases "transient (status_code e)") simp_all
    from Suc.IH [OF this] obtain u1 u2 where
      "R\<^sup>*\<^sup>* (w_srv ?w2) (w_srv u1)" "fn u1 = (Inr x, u2)" "w_srv w' = w_srv u2" by blast
    moreover have "w_srv ?w2 = w_srv w1" by simp
    ultimately show ?thesis using r by (metis rtranclp_trans)
  qed
qed simp

lemma retry_Inr:
  assumes "\<And>w. R\<^sup>*\<^sup>* (w_srv w) (w_srv (snd (fn w)))" and "retry_rpc ctx fn w = (Inr x, w')"
  shows "\<exists>w1 w2. R\<^sup>*\<^sup>* (w_srv w) (w_srv w1) \<and> fn w1 = (Inr x, w2) \<and> w_srv w' = w_srv w2"
proof -
  obtain b w1 where a: "cb_allow w = (b, w1)" by (cases "cb_allow w")
  then have srv: "w_srv w1 = w_srv w" using world_frames(4) [of w] by simp
  show ?thesis
  proof (cases b)
    case True
    with assms(2) a have "retry_from ctx fn max_attempts 0 (Plain []) w1 = (Inr x, w')"
      by (simp add: retry_rpc_def)
    from retry_from_Inr [of R fn, OF assms(1) this] srv show ?thesis by simp
  next
    case False
    with assms(2) a show ?thesis by (simp add: retry_rpc_def)
  qed
qed

text \<open>The same for calls without a result.\<close>

lemma with_unit_snd [simp]: "snd (with_unit fn w) = snd (fn w)"
  by (simp add: with_unit_def split: prod.splits option.splits)

lemma retry_no_result_srv:
  assumes "\<And>w. R\<^sup>*\<^sup>* (w_srv w) (w_srv (snd (fn w)))"
  shows "R\<^sup>*\<^sup>* (w_srv w) (w_srv (snd (retry_no_result ctx fn w)))"
  using retry_srv [of R "with_unit fn" w ctx] assms by (simp add: retry_with_unit)

lemma retry_no_result_None:
  assumes "\<And>w. R\<^sup>*\<^sup>* (w_srv w) (w_srv (snd (fn w)))" and "retry_no_result ctx fn w = (None, w')"
  shows "\<exists>w1 w2. R\<^sup>*\<^sup>* (w_srv w) (w_srv w1) \<and> fn w1 = (None, w2) \<and> w_srv w' = w_srv w2"
proof -
  have "retry_rpc ctx (with_unit fn) w = (Inr (), w')"
    using assms(2) by (simp add: retry_with_unit) (simp add: with_unit_def)
  from retry_Inr [of R "with_unit fn", OF _ this] assms(1) obtain w1 w2 where
    "R\<^sup>*\<^sup>* (w_srv w) (w_srv w1)" "with_unit fn w1 = (Inr (), w2)" "w_srv w' = w_srv w2" by auto
  moreover have "fn w1 = (None, w2)"
    using \<open>with_unit fn w1 = (Inr (), w2)\<close> by (auto simp: with_unit_def split: prod.splits option.splits)
  ultimately show ?thesis by blast
qed

text \<open>What a call whose result is \<open>r\<close> means to the breaker.\<close>

definition breaker_effect :: "time \<Rightarrow> err + 'a \<Rightarrow> circuit_breaker option \<Rightarrow> circuit_breaker option" where
  "breaker_effect t r cb =
     (case r of
        Inr x \<Rightarrow> map_option record_success cb
      | Inl e \<Rightarrow> if transient (status_code e) then map_option (record_failure t) cb else cb)"

lemma breaker_effect_simps [simp]:
  "breaker_effect t (Inr x) cb = map_option record_success cb"
  "transient (status_code e) \<Longrightarrow> breaker_effect t (Inl e) cb = map_option (record_failure t) cb"
  "\<not> transient (status_code e) \<Longrightarrow> breaker_effect t (Inl e) cb = cb"
  by (simp_all add: breaker_effect_def)

text \<open>
  The interface of a remote call as the retry loops see it: it leaves the breaker and the sleep log
  to the loop.
\<close>

locale rpc_call =
  fixes fn :: "'v world \<Rightarrow> (err + 'a) \<times> 'v world"
  assumes keeps_cb: "w_cb (snd (fn w)) = w_cb w"
    and keeps_slept: "w_slept (snd (fn w)) = w_slept w"
begin

lemma retry_from_cb:
  assumes "retry_from ctx fn n k e0 w = (r, w')" and "n = 0 \<Longrightarrow> transient (status_code e0)"
  shows "\<exists>t. w_cb w' = breaker_effect t r (w_cb w)"
  using assms
proof (induction n arbitrary: k e0 w)
  case 0
  then show ?case using cb_failure_cb [of w] by auto
next
  case (Suc n)
  show ?case
  proof (cases "ctx_err ctx w")
    case None
    obtain x w1 where f: "fn w = (x, w1)" by (cases "fn w")
    have cb: "w_cb w1 = w_cb w" using keeps_cb [of w] f by simp
    show ?thesis
    proof (cases x)
      case (Inr y)
      with Suc.prems(1) None f cb show ?thesis by auto
    next
      case (Inl e)
      show ?thesis
      proof (cases "transient (status_code e)")
        case True
        let ?w2 = "if k < max_attempts - 1 then backoff k w1 else w1"
        have "w_cb ?w2 = w_cb w" using cb by simp
        moreover have "retry_from ctx fn n (Suc k) e ?w2 = (r, w')"
          using Suc.prems(1) None f Inl True by simp
        ultimately show ?thesis using Suc.IH [of "Suc k" e ?w2] True by simp
      next
        case False
        with Suc.prems(1) None f Inl cb show ?thesis by auto
      qed
    qed
  next
    case (Some e)
    with Suc.prems(1) show ?thesis by auto
  qed
qed

lemma retry_cb:
  assumes "retry_rpc ctx fn w = (r, w')"
  shows "\<exists>t. w_cb w' = breaker_effect t r (w_cb w)"
proof -
  obtain b w1 where a: "cb_allow w = (b, w1)" by (cases "cb_allow w")
  then have cb: "w_cb w1 = w_cb w" using world_frames(5) [of w] by simp
  show ?thesis
  proof (cases b)
    case True
    with assms a have "retry_from ctx fn max_attempts 0 (Plain []) w1 = (r, w')"
      by (simp add: retry_rpc_def)
    from retry_from_cb [OF this] cb show ?thesis by (simp add: max_attempts_def)
  next
    case False
    with assms a cb show ?thesis by (auto simp: retry_rpc_def)
  qed
qed

text \<open>The number of calls, counted by anything in the server's state that a call raises by one.\<close>

lemma retry_from_calls:
  assumes "\<And>w. c (w_srv (snd (fn w))) \<le> Suc (c (w_srv w))" and "retry_from ctx fn n k e0 w = (r, w')"
  shows "c (w_srv w') \<le> c (w_srv w) + n"
  using assms(2)
proof (induction n arbitrary: k e0 w)
  case (Suc n)
  obtain x w1 where f: "fn w = (x, w1)" by (cases "fn w")
  then have "c (w_srv w1) \<le> Suc (c (w_srv w))" using assms(1) [of w] by simp
  with Suc f show ?case
    by (fastforce split: option.splits sum.splits if_splits)
qed auto

lemma retry_from_slept:
  assumes "retry_from ctx fn n k e0 w = (r, w')" and "k + n = max_attempts"
  shows "\<exists>ds. w_slept w' = w_slept w @ ds \<and> length ds \<le> max_attempts - 1 - k
    \<and> (\<forall>i < length ds. 100 * millisecond * 2 ^ (k + i) \<le> ds ! i \<and> ds ! i < 150 * millisecond * 2 ^ (k + i))"
  using assms
proof (induction n arbitrary: k e0 w)
  case 0
  then show ?case by (auto intro: exI [of _ "[]"])
next
  case (Suc n)
  obtain x w1 where f: "fn w = (x, w1)" by (cases "fn w")
  then have s: "w_slept w1 = w_slept w" using keeps_slept [of w] by simp
  show ?case
  proof (cases "ctx_err ctx w = None \<and> (\<exists>e. x = Inl e \<and> transient (status_code e))")
    case False
    with Suc.prems(1) f s have "w_slept w' = w_slept w"
      by (auto split: option.splits sum.splits if_splits)
    then show ?thesis by (intro exI [of _ "[]"]) simp
  next
    case True
    then obtain e where e: "ctx_err ctx w = None" "x = Inl e" "transient (status_code e)" by blast
    show ?thesis
    proof (cases "k < max_attempts - 1")
      case True
      obtain d where d: "w_slept (backoff k w1) = w_slept w @ [d]" "100 * millisecond * 2 ^ k \<le> d"
        "d < 150 * millisecond * 2 ^ k"
        using backoff_slept [of k w1] s by auto
      have "retry_from ctx fn n (Suc k) e (backoff k w1) = (r, w')"
        using Suc.prems(1) f e True by simp
      from Suc.IH [OF this] Suc.prems(2) obtain ds where
        ds: "w_slept w' = w_slept w @ d # ds" "length ds \<le> max_attempts - 1 - Suc k"
          "\<forall>i < length ds. 100 * millisecond * 2 ^ (Suc k + i) \<le> ds ! i \<and> ds ! i < 150 * millisecond * 2 ^ (Suc k + i)"
        using d(1) by auto
      have "100 * millisecond * 2 ^ (k + i) \<le> (d # ds) ! i \<and> (d # ds) ! i < 150 * millisecond * 2 ^ (k + i)"
        if "i < length (d # ds)" for i
        using that d ds(3) by (cases i) auto
      moreover have "length (d # ds) \<le> max_attempts - 1 - k" using ds(2) True by simp
      ultimately show ?thesis using ds(1) by blast
    next
      case False
      then have "n = 0" using Suc.prems(2) by (simp add: max_attempts_def)
      with Suc.prems(1) f e False s have "w_slept w' = w_slept w" by auto
      then show ?thesis by (intro exI [of _ "[]"]) simp
    qed
  qed
qed

lemma retry_bounded:
  assumes "\<And>w. c (w_srv (snd (fn w))) \<le> Suc (c (w_srv w))" and "retry_rpc ctx fn w = (r, w')"
  shows "c (w_srv w') \<le> c (w_srv w) + 3 \<and> (\<exists>ds. w_slept w' = w_slept w @ ds \<and> length ds \<le> 2
    \<and> (\<forall>i < length ds. 100 * millisecond * 2 ^ i \<le> ds ! i \<and> ds ! i < 150 * millisecond * 2 ^ i))"
proof -
  obtain b w1 where a: "cb_allow w = (b, w1)" by (cases "cb_allow w")
  then have same: "w_srv w1 = w_srv w" "w_slept w1 = w_slept w"
    using world_frames(4, 6) [of w] by simp_all
  show ?thesis
  proof (cases b)
    case True
    with assms(2) a have run: "retry_from ctx fn max_attempts 0 (Plain []) w1 = (r, w')"
      by (simp add: retry_rpc_def)
    from retry_from_calls [OF assms(1) run] retry_from_slept [OF run] same show ?thesis
      by (simp add: max_attempts_def)
  next
    case False
    with assms(2) a same show ?thesis by (auto simp: retry_rpc_def intro: exI [of _ "[]"])
  qed
qed

end

text \<open>
  What a retried call does to the circuit breaker, for every call that leaves the breaker alone
  and any context: success resets it once, three transient failures in a row record exactly one
  failure, and a permanent error, a cancelled context or an open breaker record nothing.
\<close>

theorem retry_breaker_effect:
  assumes "\<And>w. w_cb (snd (fn w)) = w_cb w" and "\<And>w. w_slept (snd (fn w)) = w_slept w"
    and "retry_rpc ctx fn w = (r, w')"
  shows "\<exists>t. w_cb w' = breaker_effect t r (w_cb w)"
  by (rule rpc_call.retry_cb [OF rpc_call.intro]) (fact assms)+

text \<open>
  C33: retries are bounded: at most three calls are made, whatever they return, and at most two
  sleeps, the first of 100 to 150 ms and the second of 200 to 300 ms.
\<close>

theorem retry_bounds:
  assumes "\<And>w. w_cb (snd (fn w)) = w_cb w" and "\<And>w. w_slept (snd (fn w)) = w_slept w"
    and "\<And>w. c (w_srv (snd (fn w))) \<le> Suc (c (w_srv w))" and "retry_rpc ctx fn w = (r, w')"
  shows "c (w_srv w') \<le> c (w_srv w) + 3 \<and> (\<exists>ds. w_slept w' = w_slept w @ ds \<and> length ds \<le> 2
    \<and> (\<forall>i < length ds. 100 * millisecond * 2 ^ i \<le> ds ! i \<and> ds ! i < 150 * millisecond * 2 ^ i))"
  by (rule rpc_call.retry_bounded [OF rpc_call.intro]) (fact assms)+

text \<open>
  While the breaker is tripped and its cooldown has not passed, a call is refused at once: the
  remote is not contacted, nothing sleeps and the breaker is left as it is.
\<close>

theorem open_breaker_refuses:
  assumes "w_cb w = Some cb" and "cb_tripped cb"
    and "time_sub (fst (clock w)) (cb_lastFailure cb) < cb_cooldown cb"
  shows "fst (retry_rpc ctx fn w) = Inl breaker_open
    \<and> w_srv (snd (retry_rpc ctx fn w)) = w_srv w \<and> w_cb (snd (retry_rpc ctx fn w)) = w_cb w
    \<and> w_slept (snd (retry_rpc ctx fn w)) = w_slept w"
proof -
  have "cb_allow w = (False, snd (clock w))"
    using assms by (cases "clock w") (simp add: cb_allow_def allow_def)
  then show ?thesis by (simp add: retry_rpc_def)
qed

text \<open>A server that counts its calls and always answers \<open>Unavailable\<close>.\<close>

definition example_call :: "nat world \<Rightarrow> (err + unit) \<times> nat world" where
  "example_call w = (Inl (Status Unavailable ''down''), w\<lparr>w_srv := Suc (w_srv w)\<rparr>)"

definition example_world :: "nat world" where
  "example_world = \<lparr>w_sys = \<lparr>sys_files = Map.empty, sys_dirs = {}, sys_fault = (\<lambda>n. None), sys_clock = (\<lambda>n. 10),
      sys_rand = (\<lambda>n. n), sys_calls = 0\<rparr>, w_srv = 0,
     w_cb = Some (new_circuit_breaker 1 100), w_slept = []\<rparr>"

lemma example_call_frame:
  "w_cb (snd (example_call w)) = w_cb w" "w_slept (snd (example_call w)) = w_slept w"
  "w_srv (snd (example_call w)) \<le> Suc (w_srv w)"
  by (simp_all add: example_call_def)

lemma example_call_result: "fst (retry_rpc None example_call example_world) = Inl (Status Unavailable ''down'')"
  by (simp add: retry_rpc_def cb_allow_def example_world_def new_circuit_breaker_def max_attempts_def
      eval_nat_numeral ctx_err_def example_call_def transient_def)

theorem retry_breaker_effect_witness:
  "\<exists>t. w_cb (snd (retry_rpc None example_call example_world)) = Some (record_failure t (new_circuit_breaker 1 100))"
  using retry_breaker_effect [OF example_call_frame(1, 2), of None example_world] example_call_result
  by (cases "retry_rpc None example_call example_world") (auto simp: transient_def example_world_def)

theorem retry_bounds_witness:
  "w_srv (snd (retry_rpc None example_call example_world)) \<le> 3
   \<and> length (w_slept (snd (retry_rpc None example_call example_world))) \<le> 2"
  using retry_bounds [OF example_call_frame(1, 2), of "\<lambda>n. n" None example_world] example_call_frame(3)
  by (cases "retry_rpc None example_call example_world") (auto simp: example_world_def)

theorem open_breaker_refuses_witness:
  "fst (retry_rpc None example_call (example_world\<lparr>w_cb := Some (record_failure 5 (new_circuit_breaker 1 100))\<rparr>))
     = Inl breaker_open"
  using open_breaker_refuses [of "example_world\<lparr>w_cb := Some (record_failure 5 (new_circuit_breaker 1 100))\<rparr>"
      "record_failure 5 (new_circuit_breaker 1 100)" None example_call]
  by (simp add: record_failure_def Let_def new_circuit_breaker_def i64_def example_world_def clock_def now_def
      time_sub_def)

end
