(* ===== verification/Cas.thy ===== *)
theory Cas
  imports Rpc Digest
begin

text \<open>
  The remote client of \<open>internal/reapi/cas.go\<close>, \<open>internal/reapi/ac.go\<close> and the client state of
  \<open>internal/reapi/client.go\<close>. The remote server is a record of functions on its state \<open>'v\<close>, one per
  method of the gRPC services; each may return an error of the server or of the transport. A theorem
  that does not constrain them holds for every remote. Request deadlines (\<open>rpcCtx\<close>) show as an error
  that the method returns.
\<close>

subsection \<open>Messages\<close>

record write_request =
  wr_resource :: string
  wr_data :: bytes
  wr_finish :: bool

record update_response =
  ur_digest :: proto_digest
  ur_code :: code
  ur_message :: string

record read_response =
  rr_digest :: proto_digest
  rr_code :: code
  rr_message :: string
  rr_data :: bytes

record output_file =
  of_path :: string
  of_digest :: "proto_digest option"
  of_executable :: bool

record action_result =
  ar_output_files :: "output_file list"

record cache_capabilities =
  cc_max_batch :: int
  cc_update :: "bool option"

text \<open>
  The server. A ByteStream write is opened, sent chunk by chunk, and closed for its answer, or
  cancelled; a ByteStream read yields its chunks and then an error or the end of the stream.
\<close>

record 'v server =
  find_missing_blobs :: "string \<Rightarrow> proto_digest list \<Rightarrow> 'v \<Rightarrow> (err + proto_digest list) \<times> 'v"
  batch_update_blobs :: "string \<Rightarrow> (proto_digest \<times> bytes) list \<Rightarrow> 'v \<Rightarrow> (err + update_response list) \<times> 'v"
  batch_read_blobs :: "string \<Rightarrow> proto_digest list \<Rightarrow> 'v \<Rightarrow> (err + read_response list) \<times> 'v"
  write_open :: "'v \<Rightarrow> err option \<times> 'v"
  write_send :: "write_request \<Rightarrow> 'v \<Rightarrow> err option \<times> 'v"
  write_close :: "'v \<Rightarrow> (err + int) \<times> 'v"
  write_cancel :: "'v \<Rightarrow> 'v"
  stream_read :: "string \<Rightarrow> int \<Rightarrow> 'v \<Rightarrow> (err + bytes list \<times> err option) \<times> 'v"
  get_action :: "string \<Rightarrow> proto_digest \<Rightarrow> 'v \<Rightarrow> (err + action_result) \<times> 'v"
  update_action :: "string \<Rightarrow> proto_digest \<Rightarrow> action_result \<Rightarrow> 'v \<Rightarrow> (err + action_result) \<times> 'v"
  get_capabilities :: "string \<Rightarrow> 'v \<Rightarrow> (err + cache_capabilities option) \<times> 'v"

text \<open>
  The client. \<open>cl_uuid\<close> stands for the \<open>uuid\<close> package: the text of a random UUID from the random
  source. The circuit breaker is in the world.
\<close>

record 'v client =
  cl_instance :: string
  cl_maxBatchSize :: int
  cl_updateEnabled :: bool
  cl_uuid :: "nat \<Rightarrow> string"
  cl_server :: "'v server"

definition call_srv :: "('v \<Rightarrow> 'r \<times> 'v) \<Rightarrow> 'v world \<Rightarrow> 'r \<times> 'v world" where
  "call_srv f w = (case f (w_srv w) of (r, v) \<Rightarrow> (r, w\<lparr>w_srv := v\<rparr>))"

definition call_sys :: "(sys \<Rightarrow> 'r \<times> sys) \<Rightarrow> 'v world \<Rightarrow> 'r \<times> 'v world" where
  "call_sys f w = (case f (w_sys w) of (r, s) \<Rightarrow> (r, w\<lparr>w_sys := s\<rparr>))"

definition empty_proto :: proto_digest where
  "empty_proto = \<lparr>pd_hash = [], pd_size_bytes = 0\<rparr>"

subsection \<open>Finding out what is missing\<close>

definition find_missing_call :: "'v client \<Rightarrow> digest list \<Rightarrow> 'v world \<Rightarrow> (err + digest list) \<times> 'v world" where
  "find_missing_call c ds w =
     (case call_srv (find_missing_blobs (cl_server c) (cl_instance c) (map (\<lambda>d. fill_proto d empty_proto) ds)) w of
        (Inl e, w1) \<Rightarrow> (Inl (Wrapped ''FindMissingBlobs'' e), w1)
      | (Inr ms, w1) \<Rightarrow> (Inr (map (\<lambda>p. digest_from_proto (Some p)) ms), w1))"

definition find_missing :: "'v client \<Rightarrow> ctx \<Rightarrow> digest list \<Rightarrow> 'v world \<Rightarrow> (err + digest list) \<times> 'v world" where
  "find_missing c ctx ds w = retry_rpc ctx (find_missing_call c ds) w"

subsection \<open>Uploading\<close>

text \<open>The first response that is not OK.\<close>

fun update_failure :: "update_response list \<Rightarrow> err option" where
  "update_failure [] = None"
| "update_failure (r # rs) =
     (if ur_code r \<noteq> OK
      then Some (Plain (''BatchUpdateBlobs '' @ pd_hash (ur_digest r) @ '': '' @ ur_message r))
      else update_failure rs)"

definition batch_upload_call :: "'v client \<Rightarrow> digest \<Rightarrow> bytes \<Rightarrow> 'v world \<Rightarrow> err option \<times> 'v world" where
  "batch_upload_call c d data w =
     (case call_srv (batch_update_blobs (cl_server c) (cl_instance c) [(to_proto d, data)]) w of
        (Inl e, w1) \<Rightarrow> (Some (Wrapped ''BatchUpdateBlobs'' e), w1)
      | (Inr rs, w1) \<Rightarrow> (update_failure rs, w1))"

definition batch_upload :: "'v client \<Rightarrow> ctx \<Rightarrow> digest \<Rightarrow> bytes \<Rightarrow> 'v world \<Rightarrow> err option \<times> 'v world" where
  "batch_upload c ctx d data w = retry_no_result ctx (batch_upload_call c d data) w"

text \<open>
  \<open>r.Read(buf)\<close> with the 1 MiB buffer: from memory it never fails, from a file it may. Both report
  the end of the data by a read of nothing.
\<close>

datatype source = Memory | FromFile

datatype read_error = NoError | Eof | ReadError err

definition upload_buffer :: nat where
  "upload_buffer = 1024 * 1024"

definition read_chunk :: "source \<Rightarrow> bytes \<Rightarrow> 'v world \<Rightarrow> (bytes \<times> read_error) \<times> 'v world" where
  "read_chunk r data w =
     (if r = FromFile \<and> faulty (w_sys w) then (([], ReadError io_error), w\<lparr>w_sys := called (w_sys w)\<rparr>)
      else ((take upload_buffer data, if data = [] then Eof else NoError),
            if r = FromFile then w\<lparr>w_sys := called (w_sys w)\<rparr> else w))"

lemma upload_buffer_pos: "0 < upload_buffer"
  by (simp add: upload_buffer_def)

function send_chunks ::
    "'v client \<Rightarrow> string \<Rightarrow> source \<Rightarrow> bool \<Rightarrow> bytes \<Rightarrow> 'v world \<Rightarrow> err option \<times> 'v world" where
  "send_chunks c name r first data w =
     (case read_chunk r data w of
        ((chunk, read_err), w1) \<Rightarrow>
          (case (if chunk \<noteq> []
                 then call_srv (write_send (cl_server c)
                        \<lparr>wr_resource = (if first then name else []), wr_data = chunk,
                         wr_finish = (read_err = Eof)\<rparr>) w1
                 else (None, w1)) of
             (Some e, w2) \<Rightarrow> (Some (Wrapped ''ByteStream.Write send'' e), w2)
           | (None, w2) \<Rightarrow>
              (case read_err of
                 Eof \<Rightarrow> (None, w2)
               | ReadError e \<Rightarrow> (Some (Wrapped ''read data'' e), w2)
               | NoError \<Rightarrow>
                   if data = [] then (None, w2)
                   else send_chunks c name r (first \<and> chunk = []) (drop upload_buffer data) w2)))"
  by pat_completeness auto

termination
  by (relation "measure (\<lambda>(c, name, r, first, data, w). length data)")
    (auto simp: upload_buffer_pos)

declare send_chunks.simps [simp del]

definition write_resource :: "'v client \<Rightarrow> string \<Rightarrow> digest \<Rightarrow> string" where
  "write_resource c uuid d =
     cl_instance c @ ''/uploads/'' @ uuid @ ''/blobs/'' @ d_hash d @ ''/'' @ show_int (d_size d)"

definition byte_stream_upload ::
    "'v client \<Rightarrow> digest \<Rightarrow> source \<Rightarrow> bytes \<Rightarrow> 'v world \<Rightarrow> err option \<times> 'v world" where
  "byte_stream_upload c d r data w =
     (case call_srv (write_open (cl_server c)) w of
        (Some e, w1) \<Rightarrow> (Some (Wrapped ''ByteStream.Write'' e), w1)
      | (None, w1) \<Rightarrow>
         (case call_sys random w1 of
            (n, w2) \<Rightarrow>
             (case send_chunks c (write_resource c (cl_uuid c n) d) r True data w2 of
                (Some e, w3) \<Rightarrow> (Some e, w3\<lparr>w_srv := write_cancel (cl_server c) (w_srv w3)\<rparr>)
              | (None, w3) \<Rightarrow>
                 (case call_srv (write_close (cl_server c)) w3 of
                    (Inl e, w4) \<Rightarrow> (Some (Wrapped ''ByteStream.Write close'' e), w4)
                  | (Inr k, w4) \<Rightarrow> (None, w4)))))"

definition upload_blob :: "'v client \<Rightarrow> ctx \<Rightarrow> digest \<Rightarrow> bytes \<Rightarrow> 'v world \<Rightarrow> err option \<times> 'v world" where
  "upload_blob c ctx d data w =
     (case find_missing c ctx [d] w of
        (Inl e, w1) \<Rightarrow> (Some e, w1)
      | (Inr missing, w1) \<Rightarrow>
          if missing = [] then (None, w1)
          else if d_size d \<le> cl_maxBatchSize c then batch_upload c ctx d data w1
          else byte_stream_upload c d Memory data w1)"

text \<open>
  \<open>io.ReadFull\<close> of a file into a buffer of \<open>n\<close> bytes. (The digest of a file is never negative: a
  negative size, for which \<open>make\<close> would panic, is read as 0.)
\<close>

definition read_full :: "path \<Rightarrow> int \<Rightarrow> sys \<Rightarrow> (err + bytes) \<times> sys" where
  "read_full p n s =
     (if n \<le> 0 then (Inr [], s)
      else case read_file p s of
             (Inl e, s1) \<Rightarrow> (Inl e, s1)
           | (Inr data, s1) \<Rightarrow>
               if int (length data) < n
               then (Inl (Plain (if data = [] then ''EOF'' else ''unexpected EOF'')), s1)
               else (Inr (take (nat n) data), s1))"

definition file_data :: "path \<Rightarrow> 'v world \<Rightarrow> bytes" where
  "file_data p w = (case sys_files (w_sys w) p of None \<Rightarrow> [] | Some f \<Rightarrow> f_data f)"

definition upload_file :: "'v client \<Rightarrow> ctx \<Rightarrow> path \<Rightarrow> digest \<Rightarrow> 'v world \<Rightarrow> err option \<times> 'v world" where
  "upload_file c ctx p d w =
     (case find_missing c ctx [d] w of
        (Inl e, w1) \<Rightarrow> (Some e, w1)
      | (Inr missing, w1) \<Rightarrow>
          if missing = [] then (None, w1)
          else case call_sys (open_file p) w1 of
            (Inl e, w2) \<Rightarrow> (Some e, w2)
          | (Inr _, w2) \<Rightarrow>
             (case (if d_size d \<le> cl_maxBatchSize c
                    then case call_sys (read_full p (d_size d)) w2 of
                           (Inl e, w3) \<Rightarrow> (Some (Wrapped ''read file for batch upload'' e), w3)
                         | (Inr data, w3) \<Rightarrow> batch_upload c ctx d data w3
                    else byte_stream_upload c d FromFile (file_data p w2) w2) of
                (r, w4) \<Rightarrow> (r, snd (call_sys (close_file p) w4))))"

subsection \<open>Downloading\<close>

text \<open>
  The writer of a download is \<open>io.MultiWriter(tmp, h)\<close>: the temporary file first, then the hash,
  which is kept as the bytes hashed so far.
\<close>

definition multi_write :: "path \<Rightarrow> bytes \<Rightarrow> bytes \<times> 'v world \<Rightarrow> err option \<times> bytes \<times> 'v world" where
  "multi_write p data hw =
     (case call_sys (write_data p data) (snd hw) of
        (Inl e, w1) \<Rightarrow> (Some e, fst hw, w1)
      | (Inr _, w1) \<Rightarrow> (None, fst hw @ data, w1))"

fun write_responses ::
    "path \<Rightarrow> read_response list \<Rightarrow> bytes \<times> 'v world \<Rightarrow> err option \<times> bytes \<times> 'v world" where
  "write_responses p [] hw = (None, hw)"
| "write_responses p (r # rs) hw =
     (if rr_code r \<noteq> OK
      then (Some (Plain (''BatchReadBlobs '' @ pd_hash (rr_digest r) @ '': '' @ rr_message r)), hw)
      else case multi_write p (rr_data r) hw of
             (Some e, hw1) \<Rightarrow> (Some e, hw1)
           | (None, hw1) \<Rightarrow> write_responses p rs hw1)"

definition batch_download ::
    "'v client \<Rightarrow> digest \<Rightarrow> path \<Rightarrow> bytes \<times> 'v world \<Rightarrow> err option \<times> bytes \<times> 'v world" where
  "batch_download c d p hw =
     (case call_srv (batch_read_blobs (cl_server c) (cl_instance c) [to_proto d]) (snd hw) of
        (Inl e, w1) \<Rightarrow> (Some (Wrapped ''BatchReadBlobs'' e), fst hw, w1)
      | (Inr rs, w1) \<Rightarrow> write_responses p rs (fst hw, w1))"

text \<open>Receiving: the chunks, then the error of the stream or its end.\<close>

fun receive_chunks ::
    "path \<Rightarrow> bytes list \<Rightarrow> err option \<Rightarrow> bytes \<times> 'v world \<Rightarrow> err option \<times> bytes \<times> 'v world" where
  "receive_chunks p [] None hw = (None, hw)"
| "receive_chunks p [] (Some e) hw = (Some (Wrapped ''ByteStream.Read recv'' e), hw)"
| "receive_chunks p (data # rest) end_err hw =
     (case multi_write p data hw of
        (Some e, hw1) \<Rightarrow> (Some e, hw1)
      | (None, hw1) \<Rightarrow> receive_chunks p rest end_err hw1)"

definition read_resource :: "'v client \<Rightarrow> digest \<Rightarrow> string" where
  "read_resource c d = cl_instance c @ ''/blobs/'' @ d_hash d @ ''/'' @ show_int (d_size d)"

definition byte_stream_download ::
    "'v client \<Rightarrow> digest \<Rightarrow> path \<Rightarrow> bytes \<times> 'v world \<Rightarrow> err option \<times> bytes \<times> 'v world" where
  "byte_stream_download c d p hw =
     (case call_srv (stream_read (cl_server c) (read_resource c d) 0) (snd hw) of
        (Inl e, w1) \<Rightarrow> (Some (Wrapped ''ByteStream.Read'' e), fst hw, w1)
      | (Inr (chunks, end_err), w1) \<Rightarrow> receive_chunks p chunks end_err (fst hw, w1))"

definition download_blob ::
    "'v client \<Rightarrow> digest \<Rightarrow> path \<Rightarrow> bytes \<times> 'v world \<Rightarrow> err option \<times> bytes \<times> 'v world" where
  "download_blob c d p hw =
     (if d_size d \<le> cl_maxBatchSize c then batch_download c d p hw else byte_stream_download c d p hw)"

subsection \<open>The action cache\<close>

definition get_action_result_call ::
    "'v client \<Rightarrow> digest \<Rightarrow> 'v world \<Rightarrow> (err + action_result option) \<times> 'v world" where
  "get_action_result_call c d w =
     (case call_srv (get_action (cl_server c) (cl_instance c) (to_proto d)) w of
        (Inl e, w1) \<Rightarrow> if status_code e = NotFound then (Inr None, w1)
                      else (Inl (Wrapped ''GetActionResult'' e), w1)
      | (Inr ar, w1) \<Rightarrow> (Inr (Some ar), w1))"

definition get_action_result ::
    "'v client \<Rightarrow> ctx \<Rightarrow> digest \<Rightarrow> 'v world \<Rightarrow> (err + action_result option) \<times> 'v world" where
  "get_action_result c ctx d w = retry_rpc ctx (get_action_result_call c d) w"

definition update_action_result_call ::
    "'v client \<Rightarrow> digest \<Rightarrow> action_result \<Rightarrow> 'v world \<Rightarrow> err option \<times> 'v world" where
  "update_action_result_call c d ar w =
     (case call_srv (update_action (cl_server c) (cl_instance c) (to_proto d) ar) w of
        (Inl e, w1) \<Rightarrow> (Some e, w1)
      | (Inr _, w1) \<Rightarrow> (None, w1))"

definition update_action_result ::
    "'v client \<Rightarrow> ctx \<Rightarrow> digest \<Rightarrow> action_result \<Rightarrow> 'v world \<Rightarrow> err option \<times> 'v world" where
  "update_action_result c ctx d ar w = retry_no_result ctx (update_action_result_call c d ar) w"

subsection \<open>Making a client\<close>

definition discover_capabilities :: "'v client \<Rightarrow> 'v world \<Rightarrow> err option \<times> 'v client \<times> 'v world" where
  "discover_capabilities c w =
     (case call_srv (get_capabilities (cl_server c) (cl_instance c)) w of
        (Inl e, w1) \<Rightarrow> (Some e, c, w1)
      | (Inr None, w1) \<Rightarrow> (None, c, w1)
      | (Inr (Some cc), w1) \<Rightarrow>
          (let c1 = (if 0 < cc_max_batch cc then c\<lparr>cl_maxBatchSize := cc_max_batch cc\<rparr> else c);
               c2 = (case cc_update cc of None \<Rightarrow> c1 | Some b \<Rightarrow> c1\<lparr>cl_updateEnabled := b\<rparr>)
           in (None, c2, w1)))"

definition new_client_from_conn :: "'v server \<Rightarrow> (nat \<Rightarrow> string) \<Rightarrow> string \<Rightarrow> 'v world \<Rightarrow> 'v client \<times> 'v world" where
  "new_client_from_conn srv uuid inst w =
     (\<lparr>cl_instance = inst, cl_maxBatchSize = 4 * 1024 * 1024, cl_updateEnabled = True,
       cl_uuid = uuid, cl_server = srv\<rparr>,
      w\<lparr>w_cb := Some (new_circuit_breaker 5 (30 * second))\<rparr>)"

subsection \<open>The calls that are retried\<close>

text \<open>
  Every call that the client hands to the retry loops leaves the breaker and the sleep log to them.
\<close>

lemma call_srv_frame [simp]:
  "w_cb (snd (call_srv f w)) = w_cb w" "w_slept (snd (call_srv f w)) = w_slept w"
  "w_sys (snd (call_srv f w)) = w_sys w"
  by (simp_all add: call_srv_def split: prod.splits)

lemma after_call_srv [simp]:
  "w_cb (snd (case call_srv f w of (r, w1) \<Rightarrow> (g r, w1))) = w_cb w"
  "w_slept (snd (case call_srv f w of (r, w1) \<Rightarrow> (g r, w1))) = w_slept w"
  "w_sys (snd (case call_srv f w of (r, w1) \<Rightarrow> (g r, w1))) = w_sys w"
  by (simp_all add: call_srv_def split: prod.splits)

interpretation missing_call: rpc_call "find_missing_call c ds" for c ds
  by unfold_locales (auto simp: find_missing_call_def call_srv_def split: prod.splits sum.splits)

interpretation upload_call: rpc_call "with_unit (batch_upload_call c d data)" for c d data
  by unfold_locales (auto simp: with_unit_def batch_upload_call_def call_srv_def split: prod.splits sum.splits option.splits)

interpretation action_call: rpc_call "get_action_result_call c d" for c d
  by unfold_locales (auto simp: get_action_result_call_def call_srv_def split: prod.splits sum.splits)

interpretation update_call: rpc_call "with_unit (update_action_result_call c d ar)" for c d ar
  by unfold_locales
    (auto simp: with_unit_def update_action_result_call_def call_srv_def split: prod.splits sum.splits option.splits)

end
