(* ===== verification/Synthetic.thy ===== *)
theory Synthetic
  imports Cas
begin

text \<open>
  The synthetic actions of \<open>internal/reapi/synthetic.go\<close>: the chain from an action id of the Go
  command to a Command, an Action and its digest, under which results are kept in the remote action
  cache. The wire form of a message is the \<open>proto\<close> package's: the parameter \<open>marshal\<close>.
\<close>

datatype message =
  Command (msg_arguments: "string list")
| Directory
| Action (msg_command: proto_digest) (msg_input_root: proto_digest)

type_synonym marshal = "message \<Rightarrow> err + bytes"

record synthetic_digests =
  sd_commandData :: bytes
  sd_commandDigest :: digest
  sd_dirData :: bytes
  sd_dirDigest :: digest
  sd_actionData :: bytes
  sd_actionDigest :: digest

type_synonym synthetic_cache = "string \<rightharpoonup> synthetic_digests"

definition synthetic_command :: "string \<Rightarrow> message" where
  "synthetic_command a = Command [''gocache-rbe'', a]"

definition empty_directory :: message where
  "empty_directory = Directory"

definition synthetic_action :: "digest \<Rightarrow> digest \<Rightarrow> message" where
  "synthetic_action command_digest input_root = Action (to_proto command_digest) (to_proto input_root)"

definition synthetic_action_result :: "string \<Rightarrow> digest \<Rightarrow> action_result" where
  "synthetic_action_result outputIDHex d =
     \<lparr>ar_output_files = [\<lparr>of_path = outputIDHex, of_digest = Some (to_proto d), of_executable = False\<rparr>]\<rparr>"

definition marshal_deterministic :: "marshal \<Rightarrow> message \<Rightarrow> err + bytes \<times> digest" where
  "marshal_deterministic marshal msg =
     (case marshal msg of Inl e \<Rightarrow> Inl e | Inr data \<Rightarrow> Inr (data, digest_bytes data))"

text \<open>\<open>init\<close>: the digest of the empty directory, computed once; \<open>None\<close> is its panic.\<close>

definition init_dir :: "marshal \<Rightarrow> (bytes \<times> digest) option" where
  "init_dir marshal =
     (case marshal_deterministic marshal empty_directory of Inl e \<Rightarrow> None | Inr x \<Rightarrow> Some x)"

text \<open>\<open>dir\<close> is the cached directory data and digest, \<open>cache\<close> the \<open>syntheticCache\<close>.\<close>

definition compute_synthetic_digests ::
    "marshal \<Rightarrow> bytes \<times> digest \<Rightarrow> string \<Rightarrow> synthetic_cache \<Rightarrow> (err + synthetic_digests) \<times> synthetic_cache"
where
  "compute_synthetic_digests marshal dir a cache =
     (case cache a of
        Some sd \<Rightarrow> (Inr sd, cache)
      | None \<Rightarrow>
         (case marshal_deterministic marshal (synthetic_command a) of
            Inl e \<Rightarrow> (Inl e, cache)
          | Inr (cmd_data, cmd_digest) \<Rightarrow>
             (case marshal_deterministic marshal (synthetic_action cmd_digest (snd dir)) of
                Inl e \<Rightarrow> (Inl e, cache)
              | Inr (action_data, action_digest) \<Rightarrow>
                 (let sd = \<lparr>sd_commandData = cmd_data, sd_commandDigest = cmd_digest,
                            sd_dirData = fst dir, sd_dirDigest = snd dir,
                            sd_actionData = action_data, sd_actionDigest = action_digest\<rparr>
                  in (Inr sd, cache(a \<mapsto> sd))))))"

subsection \<open>The cache is transparent\<close>

definition uncached :: "marshal \<Rightarrow> bytes \<times> digest \<Rightarrow> string \<Rightarrow> err + synthetic_digests" where
  "uncached marshal dir a = fst (compute_synthetic_digests marshal dir a Map.empty)"

definition cache_ok :: "marshal \<Rightarrow> bytes \<times> digest \<Rightarrow> synthetic_cache \<Rightarrow> bool" where
  "cache_ok marshal dir cache \<longleftrightarrow> (\<forall>a sd. cache a = Some sd \<longrightarrow> uncached marshal dir a = Inr sd)"

lemma cache_ok_empty [simp]: "cache_ok marshal dir Map.empty"
  by (simp add: cache_ok_def)

lemma compute_uncached:
  assumes "cache_ok marshal dir cache"
  shows "fst (compute_synthetic_digests marshal dir a cache) = uncached marshal dir a"
    and "cache_ok marshal dir (snd (compute_synthetic_digests marshal dir a cache))"
  using assms
  by (auto simp: cache_ok_def uncached_def compute_synthetic_digests_def Let_def
      split: option.splits sum.splits prod.splits if_splits)

interpretation synthetic_machine: machine
  "\<lambda>a cache. snd (compute_synthetic_digests marshal dir a cache)" "cache_ok marshal dir" for marshal dir
  by unfold_locales (rule compute_uncached(2))

text \<open>
  C35: the cache of synthetic digests is transparent: after any sequence of computations, from an
  empty cache, the digests of an action id are the ones computed without a cache.
\<close>

theorem synthetic_cache_transparent:
  "fst (compute_synthetic_digests marshal dir a
     (fold (\<lambda>b cache. snd (compute_synthetic_digests marshal dir b cache)) as Map.empty))
   = fst (compute_synthetic_digests marshal dir a Map.empty)"
  using compute_uncached(1) [OF synthetic_machine.run_inv [OF cache_ok_empty]] by (simp add: uncached_def)

subsection \<open>The chain of digests\<close>

lemma uncached_chain:
  assumes "uncached marshal dir a = Inr sd" and "init_dir marshal = Some dir"
  shows "marshal (Command [''gocache-rbe'', a]) = Inr (sd_commandData sd)"
    and "marshal Directory = Inr (sd_dirData sd)"
    and "marshal (Action (to_proto (sd_commandDigest sd)) (to_proto (sd_dirDigest sd))) = Inr (sd_actionData sd)"
    and "sd_commandDigest sd = digest_bytes (sd_commandData sd)"
    and "sd_dirDigest sd = digest_bytes (sd_dirData sd)"
    and "sd_actionDigest sd = digest_bytes (sd_actionData sd)"
  using assms
  by (auto simp: uncached_def compute_synthetic_digests_def Let_def marshal_deterministic_def init_dir_def
      synthetic_command_def synthetic_action_def empty_directory_def split: sum.splits prod.splits)

end
