(* ===== verification/Store.thy ===== *)
theory Store
  imports Prelude
begin

text \<open>
  The contract the request handlers rely on: a store that a client fills with \<open>put\<close> and reads with
  \<open>get\<close>, seen through the map \<open>view\<close>. \<open>inv\<close> is what the provider keeps true, \<open>key\<close> and \<open>src\<close>
  what it asks of a key and of the thing to store. The disk cache is interpreted in the theory
  \<open>Disk\<close>, the remote cache in the theory \<open>Fake\<close>.
\<close>

datatype ('k, 'x) store_op = Put 'k 'x | Get 'k

fun store_step ::
    "('k \<Rightarrow> 'x \<Rightarrow> 's \<Rightarrow> 'v option \<times> 's) \<Rightarrow> ('k \<Rightarrow> 's \<Rightarrow> 'v option \<times> 's) \<Rightarrow> ('k, 'x) store_op \<Rightarrow> 's \<Rightarrow> 's"
where
  "store_step put get (Put k x) s = snd (put k x s)"
| "store_step put get (Get k) s = snd (get k s)"

text \<open>Operations that respect the interface and leave the key \<open>k\<close> to its present value.\<close>

fun spares :: "('k \<Rightarrow> bool) \<Rightarrow> ('x \<Rightarrow> bool) \<Rightarrow> 'k \<Rightarrow> ('k, 'x) store_op \<Rightarrow> bool" where
  "spares key src k (Put j x) \<longleftrightarrow> key j \<and> src x \<and> j \<noteq> k"
| "spares key src k (Get j) \<longleftrightarrow> key j"

locale store =
  fixes inv :: "'s \<Rightarrow> bool"
    and key :: "'k \<Rightarrow> bool"
    and src :: "'x \<Rightarrow> bool"
    and view :: "'s \<Rightarrow> 'k \<Rightarrow> 'v option"
    and put :: "'k \<Rightarrow> 'x \<Rightarrow> 's \<Rightarrow> 'v option \<times> 's"
    and get :: "'k \<Rightarrow> 's \<Rightarrow> 'v option \<times> 's"
  assumes get_result: "inv s \<Longrightarrow> key k \<Longrightarrow> fst (get k s) = view s k"
    and get_view: "inv s \<Longrightarrow> key k \<Longrightarrow> key j \<Longrightarrow> view (snd (get k s)) j = view s j"
    and get_inv: "inv s \<Longrightarrow> key k \<Longrightarrow> inv (snd (get k s))"
    and put_stored: "inv s \<Longrightarrow> key k \<Longrightarrow> src x \<Longrightarrow> put k x s = (Some v, t) \<Longrightarrow> view t k = Some v"
    and put_other: "inv s \<Longrightarrow> key k \<Longrightarrow> src x \<Longrightarrow> key j \<Longrightarrow> j \<noteq> k \<Longrightarrow> view (snd (put k x s)) j = view s j"
    and put_inv: "inv s \<Longrightarrow> key k \<Longrightarrow> src x \<Longrightarrow> inv (snd (put k x s))"
begin

lemma step_inv: "inv s \<Longrightarrow> spares key src k op \<Longrightarrow> inv (store_step put get op s)"
  by (cases op) (auto intro: get_inv put_inv)

lemma step_view:
  "inv s \<Longrightarrow> key k \<Longrightarrow> spares key src k op \<Longrightarrow> view (store_step put get op s) k = view s k"
  by (cases op) (auto simp: get_view put_other)

lemma run_view:
  assumes "inv s" and "key k" and "list_all (spares key src k) ops"
  shows "inv (fold (store_step put get) ops s) \<and> view (fold (store_step put get) ops s) k = view s k"
  using assms by (induction ops arbitrary: s) (auto simp: step_inv step_view)

text \<open>What was put is what every later get returns, whatever else happens to other keys.\<close>

lemma get_after_put:
  assumes "inv s" and "key k" and "src x" and "put k x s = (Some v, t)"
    and "list_all (spares key src k) ops"
  shows "fst (get k (fold (store_step put get) ops t)) = Some v"
proof -
  have "inv t" using put_inv assms by (metis snd_conv)
  with run_view assms put_stored get_result show ?thesis by metis
qed

end

end
