(* ===== verification/Disk.thy ===== *)
theory Disk
  imports Metadata Store
begin

text \<open>
  \<open>internal/cache/disk.go\<close>: the local body cache. Its state is an in-memory index with LRU access
  times, the set of pinned entries and the running total of body sizes, next to the files of the
  cache directory (the \<open>sys\<close> of the theory \<open>Os\<close>). Each critical section of the mutex is one update
  of \<open>disk_cache\<close>. An operation whose path computation panics returns \<open>None\<close>.
\<close>

record entry =
  e_key :: string
  e_size :: int
  e_access :: time
  e_hasBody :: bool
  e_meta :: "metadata option"
  e_bodyPath :: path

record disk_cache =
  dc_dir :: path
  dc_maxSize :: int
  dc_safety :: duration
  dc_entries :: "string \<rightharpoonup> entry"
  dc_pinned :: "string set"
  dc_total :: int

subsection \<open>Installing and looking up\<close>

definition pin :: "string \<Rightarrow> disk_cache \<Rightarrow> disk_cache" where
  "pin a dc = dc\<lparr>dc_pinned := insert a (dc_pinned dc)\<rparr>"

text \<open>The critical section of \<open>Install\<close>.\<close>

definition index_entry :: "string \<Rightarrow> path \<Rightarrow> metadata \<Rightarrow> time \<Rightarrow> disk_cache \<Rightarrow> disk_cache" where
  "index_entry a bp m t dc =
     (let dc1 = (case dc_entries dc a of
                   Some old \<Rightarrow> if e_hasBody old then dc\<lparr>dc_total := i64 (dc_total dc - e_size old)\<rparr> else dc
                 | None \<Rightarrow> dc);
          dc2 = dc1\<lparr>dc_entries := (dc_entries dc1)(a \<mapsto>
                  \<lparr>e_key = a, e_size = m_size m, e_access = t, e_hasBody = True, e_meta = Some m,
                   e_bodyPath = bp\<rparr>)\<rparr>
      in (pin a dc2)\<lparr>dc_total := i64 (dc_total dc2 + m_size m)\<rparr>)"

definition install ::
    "string \<Rightarrow> path \<Rightarrow> metadata \<Rightarrow> disk_cache \<Rightarrow> sys \<Rightarrow> ((err + path) \<times> disk_cache \<times> sys) option" where
  "install a tmp m dc s =
     (case (body_path (dc_dir dc) a, metadata_path (dc_dir dc) a) of
        (Some bp, Some mp) \<Rightarrow> Some
          (case ensure_dir (filepath_dir bp) s of
             (Inl e, s1) \<Rightarrow> (Inl (Wrapped ''mkdir'' e), dc, s1)
           | (Inr _, s1) \<Rightarrow>
              (case rename tmp bp s1 of
                 (Inl e, s2) \<Rightarrow> (Inl (Wrapped ''rename body'' e), dc, s2)
               | (Inr _, s2) \<Rightarrow>
                  (case write_metadata mp m s2 of
                     (Inl e, s3) \<Rightarrow> (Inl (Wrapped ''write metadata'' e), dc, remove bp s3)
                   | (Inr _, s3) \<Rightarrow>
                      (case now s3 of (t, s4) \<Rightarrow> (Inr bp, index_entry a bp m t dc, s4)))))
      | _ \<Rightarrow> None)"

text \<open>\<open>if e, ok := dc.entries[actionIDHex]; ok\<close>, with the clock read only for an indexed entry.\<close>

definition touch_entry ::
    "string \<Rightarrow> (entry \<Rightarrow> entry) \<Rightarrow> disk_cache \<Rightarrow> sys \<Rightarrow> disk_cache \<times> sys" where
  "touch_entry a upd dc s =
     (case dc_entries dc a of
        None \<Rightarrow> (dc, s)
      | Some e \<Rightarrow> (case now s of (t, s1) \<Rightarrow>
          (dc\<lparr>dc_entries := (dc_entries dc)(a \<mapsto> upd (e\<lparr>e_access := t\<rparr>))\<rparr>, s1)))"

definition mark_evicted :: "string \<Rightarrow> disk_cache \<Rightarrow> disk_cache" where
  "mark_evicted a dc =
     (case dc_entries dc a of
        None \<Rightarrow> dc
      | Some e \<Rightarrow> dc\<lparr>dc_entries := (dc_entries dc)(a \<mapsto> e\<lparr>e_hasBody := False, e_bodyPath := []\<rparr>)\<rparr>)"

text \<open>The metadata, body path and hit flag that \<open>Lookup\<close> returns.\<close>

type_synonym lookup_result = "metadata option \<times> path \<times> bool"

text \<open>The fast path: metadata cached in the index; the body is still checked on disk.\<close>

definition lookup_cached ::
    "string \<Rightarrow> metadata \<Rightarrow> path \<Rightarrow> disk_cache \<Rightarrow> sys \<Rightarrow> lookup_result \<times> disk_cache \<times> sys" where
  "lookup_cached a m bp dc s =
     (if bp \<noteq> []
      then case stat bp s of
             (Inl _, s1) \<Rightarrow> ((Some m, [], False), mark_evicted a dc, s1)
           | (Inr _, s1) \<Rightarrow>
               (case touch_entry a (\<lambda>e. e) dc s1 of (dc1, s2) \<Rightarrow> ((Some m, bp, True), pin a dc1, s2))
      else ((Some m, [], False), dc, s))"

text \<open>The slow path: read the metadata file, check the body, promote to the index.\<close>

definition lookup_on_disk ::
    "string \<Rightarrow> path \<Rightarrow> path \<Rightarrow> disk_cache \<Rightarrow> sys \<Rightarrow> lookup_result \<times> disk_cache \<times> sys" where
  "lookup_on_disk a mp bp dc s =
     (case read_metadata mp s of
        (Inl _, s1) \<Rightarrow> ((None, [], False), dc, s1)
      | (Inr m, s1) \<Rightarrow>
         (case stat bp s1 of
            (Inl _, s2) \<Rightarrow> ((Some m, [], False), dc, s2)
          | (Inr _, s2) \<Rightarrow>
             (case touch_entry a (\<lambda>e. e\<lparr>e_meta := Some m, e_bodyPath := bp\<rparr>) dc s2 of
                (dc1, s3) \<Rightarrow> ((Some m, bp, True), pin a dc1, s3))))"

definition cached_meta :: "string \<Rightarrow> disk_cache \<Rightarrow> (metadata \<times> path) option" where
  "cached_meta a dc =
     (case dc_entries dc a of
        None \<Rightarrow> None
      | Some e \<Rightarrow> (case e_meta e of None \<Rightarrow> None | Some m \<Rightarrow> Some (m, e_bodyPath e)))"

definition lookup :: "string \<Rightarrow> disk_cache \<Rightarrow> sys \<Rightarrow> (lookup_result \<times> disk_cache \<times> sys) option" where
  "lookup a dc s =
     (case cached_meta a dc of
        Some (m, bp) \<Rightarrow> Some (lookup_cached a m bp dc s)
      | None \<Rightarrow>
         (case (metadata_path (dc_dir dc) a, body_path (dc_dir dc) a) of
            (Some mp, Some bp) \<Rightarrow> Some (lookup_on_disk a mp bp dc s)
          | _ \<Rightarrow> None))"

definition has_metadata_stub ::
    "string \<Rightarrow> disk_cache \<Rightarrow> sys \<Rightarrow> ((metadata option \<times> bool) \<times> sys) option" where
  "has_metadata_stub a dc s =
     (case (metadata_path (dc_dir dc) a, body_path (dc_dir dc) a) of
        (Some mp, Some bp) \<Rightarrow> Some
          (case read_metadata mp s of
             (Inl _, s1) \<Rightarrow> ((None, False), s1)
           | (Inr m, s1) \<Rightarrow>
              (case stat bp s1 of
                 (Inr _, s2) \<Rightarrow> ((None, False), s2)
               | (Inl _, s2) \<Rightarrow> ((Some m, True), s2)))
      | _ \<Rightarrow> None)"

definition remove_entry :: "string \<Rightarrow> disk_cache \<Rightarrow> sys \<Rightarrow> (disk_cache \<times> sys) option" where
  "remove_entry a dc s =
     (case (body_path (dc_dir dc) a, metadata_path (dc_dir dc) a) of
        (Some bp, Some mp) \<Rightarrow>
          (let s1 = remove mp (remove bp s);
               dc1 = (case dc_entries dc a of
                        None \<Rightarrow> dc
                      | Some e \<Rightarrow>
                          (if e_hasBody e then dc\<lparr>dc_total := i64 (dc_total dc - e_size e)\<rparr> else dc)
                            \<lparr>dc_entries := (dc_entries dc)(a := None)\<rparr>)
           in Some (dc1\<lparr>dc_pinned := dc_pinned dc1 - {a}\<rparr>, s1))
      | _ \<Rightarrow> None)"

definition total_size :: "disk_cache \<Rightarrow> int" where
  "total_size dc = dc_total dc"

definition temp_file :: "disk_cache \<Rightarrow> sys \<Rightarrow> (err + path) \<times> sys" where
  "temp_file dc s = create_temp (dc_dir dc) s"

definition unpin_all :: "disk_cache \<Rightarrow> disk_cache" where
  "unpin_all dc = dc\<lparr>dc_pinned := {}\<rparr>"

subsection \<open>Starting up\<close>

text \<open>The loop that cleans up temporary files of earlier crashes.\<close>

definition has_prefix :: "string \<Rightarrow> string \<Rightarrow> bool" where
  "has_prefix s p \<longleftrightarrow> take (length p) s = p"

fun remove_temp_files :: "path \<Rightarrow> (string \<times> bool) list \<Rightarrow> sys \<Rightarrow> sys" where
  "remove_temp_files dir [] s = s"
| "remove_temp_files dir ((name, is_dir) # rest) s =
     remove_temp_files dir rest
       (if \<not> is_dir \<and> has_prefix name ''tmp-'' then remove (dir @ ''/'' @ name) s else s)"

text \<open>One file of a shard directory: only \<open><actionIDHex>-d\<close> makes an entry.\<close>

definition scan_file :: "path \<Rightarrow> string \<Rightarrow> disk_cache \<Rightarrow> sys \<Rightarrow> disk_cache \<times> sys" where
  "scan_file sub name dc s =
     (if length name < 3 then (dc, s)
      else if drop (length name - 2) name \<noteq> ''-d'' then (dc, s)
      else case stat (sub @ ''/'' @ name) s of
             (Inl _, s1) \<Rightarrow> (dc, s1)
           | (Inr info, s1) \<Rightarrow>
              (let a = take (length name - 2) name in
               (dc\<lparr>dc_entries := (dc_entries dc)(a \<mapsto>
                      \<lparr>e_key = a, e_size = fi_size info, e_access = fi_mtime info, e_hasBody = True,
                       e_meta = None, e_bodyPath = []\<rparr>),
                   dc_total := i64 (dc_total dc + fi_size info)\<rparr>, s1)))"

fun scan_files :: "path \<Rightarrow> (string \<times> bool) list \<Rightarrow> disk_cache \<Rightarrow> sys \<Rightarrow> disk_cache \<times> sys" where
  "scan_files sub [] dc s = (dc, s)"
| "scan_files sub ((name, is_dir) # rest) dc s =
     (case scan_file sub name dc s of (dc1, s1) \<Rightarrow> scan_files sub rest dc1 s1)"

fun scan_shards :: "path \<Rightarrow> (string \<times> bool) list \<Rightarrow> disk_cache \<Rightarrow> sys \<Rightarrow> disk_cache \<times> sys" where
  "scan_shards dir [] dc s = (dc, s)"
| "scan_shards dir ((name, is_dir) # rest) dc s =
     (if \<not> is_dir \<or> length name \<noteq> 2 then scan_shards dir rest dc s
      else case read_dir (dir @ ''/'' @ name) s of
             (Inl _, s1) \<Rightarrow> scan_shards dir rest dc s1
           | (Inr files, s1) \<Rightarrow>
              (case scan_files (dir @ ''/'' @ name) files dc s1 of
                 (dc1, s2) \<Rightarrow> scan_shards dir rest dc1 s2))"

definition scan :: "disk_cache \<Rightarrow> sys \<Rightarrow> disk_cache \<times> sys" where
  "scan dc s =
     (case read_dir (dc_dir dc) s of
        (Inl _, s1) \<Rightarrow> (dc, s1)
      | (Inr root, s1) \<Rightarrow> scan_shards (dc_dir dc) root dc (remove_temp_files (dc_dir dc) root s1))"

definition empty_cache :: "path \<Rightarrow> int \<Rightarrow> disk_cache" where
  "empty_cache dir mx =
     \<lparr>dc_dir = dir, dc_maxSize = mx, dc_safety = 24 * hour, dc_entries = Map.empty,
      dc_pinned = {}, dc_total = 0\<rparr>"

definition new_disk_cache :: "path \<Rightarrow> int \<Rightarrow> sys \<Rightarrow> (err + disk_cache) \<times> sys" where
  "new_disk_cache dir mx s =
     (case mkdir_all dir s of
        (Inl e, s1) \<Rightarrow> (Inl (Wrapped ''create cache dir'' e), s1)
      | (Inr _, s1) \<Rightarrow> (case scan (empty_cache dir mx) s1 of (dc, s2) \<Rightarrow> (Inr dc, s2)))"

subsection \<open>The index\<close>

text \<open>What an index entry contributes to the total: its size while it has a body.\<close>

definition weight :: "entry option \<Rightarrow> int" where
  "weight x = (case x of None \<Rightarrow> 0 | Some e \<Rightarrow> if e_hasBody e then e_size e else 0)"

definition body_sum :: "disk_cache \<Rightarrow> int" where
  "body_sum dc = (\<Sum>k\<in>dom (dc_entries dc). weight (dc_entries dc k))"

text \<open>Well-formed: entries sit under their own key and name their own body path.\<close>

definition dc_ok :: "disk_cache \<Rightarrow> bool" where
  "dc_ok dc \<longleftrightarrow> finite (dom (dc_entries dc)) \<and>
     (\<forall>k e. dc_entries dc k = Some e \<longrightarrow> e_key e = k
        \<and> (e_bodyPath e \<noteq> [] \<longrightarrow> body_path (dc_dir dc) k = Some (e_bodyPath e)))"

text \<open>The running total is the sum of the body sizes, in 64-bit arithmetic.\<close>

definition accounted :: "disk_cache \<Rightarrow> bool" where
  "accounted dc \<longleftrightarrow> dc_total dc = i64 (body_sum dc)"

lemma weight_simps [simp]: "weight None = 0" "weight (Some e) = (if e_hasBody e then e_size e else 0)"
  by (simp_all add: weight_def)

lemma sum_weight_superset:
  assumes "finite A" and "dom f \<subseteq> A"
  shows "(\<Sum>k\<in>A. weight (f k)) = (\<Sum>k\<in>dom f. weight (f k))"
  by (rule sum.mono_neutral_right) (use assms in \<open>auto simp: dom_def\<close>)

lemma sum_weight_update:
  assumes "finite (dom f)"
  shows "(\<Sum>k\<in>dom (f(a := x)). weight ((f(a := x)) k))
    = (\<Sum>k\<in>dom f. weight (f k)) - weight (f a) + weight x"
proof -
  let ?A = "insert a (dom f)"
  have "(\<Sum>k\<in>dom (f(a := x)). weight ((f(a := x)) k)) = (\<Sum>k\<in>?A. weight ((f(a := x)) k))"
    by (rule sum_weight_superset [symmetric]) (use assms in auto)
  also have "\<dots> = weight x + (\<Sum>k\<in>dom f - {a}. weight (f k))"
    using assms by (subst sum.insert_remove) (auto intro: sum.cong)
  also have "(\<Sum>k\<in>?A. weight (f k)) = weight (f a) + (\<Sum>k\<in>dom f - {a}. weight (f k))"
    using assms by (subst sum.insert_remove) auto
  then have "(\<Sum>k\<in>dom f - {a}. weight (f k)) = (\<Sum>k\<in>?A. weight (f k)) - weight (f a)"
    by simp
  also have "(\<Sum>k\<in>?A. weight (f k)) = (\<Sum>k\<in>dom f. weight (f k))"
    by (rule sum_weight_superset) (use assms in auto)
  finally show ?thesis by (simp del: dom_fun_upd fun_upd_apply)
qed

lemma body_sum_update:
  "finite (dom (dc_entries dc)) \<Longrightarrow>
   body_sum (dc\<lparr>dc_entries := (dc_entries dc)(a := x)\<rparr>)
     = body_sum dc - weight (dc_entries dc a) + weight x"
  using sum_weight_update [of "dc_entries dc" a x] by (simp add: body_sum_def del: dom_fun_upd)

lemma body_sum_frame [simp]:
  "body_sum (dc\<lparr>dc_total := t\<rparr>) = body_sum dc"
  "body_sum (dc\<lparr>dc_pinned := ps\<rparr>) = body_sum dc"
  "body_sum (dc\<lparr>dc_total := t, dc_entries := es\<rparr>) = body_sum (dc\<lparr>dc_entries := es\<rparr>)"
  by (simp_all add: body_sum_def)

lemma dc_ok_simps [simp]:
  "dc_ok (dc\<lparr>dc_total := t\<rparr>) = dc_ok dc"
  "dc_ok (dc\<lparr>dc_pinned := ps\<rparr>) = dc_ok dc"
  "dc_ok (dc\<lparr>dc_total := t, dc_entries := es\<rparr>) = dc_ok (dc\<lparr>dc_entries := es\<rparr>)"
  by (simp_all add: dc_ok_def)

lemma dc_ok_finite: "dc_ok dc \<Longrightarrow> finite (dom (dc_entries dc))"
  by (simp add: dc_ok_def)

lemma dc_ok_entry:
  "dc_ok dc \<Longrightarrow> dc_entries dc k = Some e \<Longrightarrow>
   e_key e = k \<and> (e_bodyPath e \<noteq> [] \<longrightarrow> body_path (dc_dir dc) k = Some (e_bodyPath e))"
  by (simp add: dc_ok_def)

lemma dc_ok_update:
  "dc_ok dc \<Longrightarrow> e_key e = a \<Longrightarrow> (e_bodyPath e \<noteq> [] \<Longrightarrow> body_path (dc_dir dc) a = Some (e_bodyPath e))
   \<Longrightarrow> dc_ok (dc\<lparr>dc_entries := (dc_entries dc)(a \<mapsto> e)\<rparr>)"
  by (auto simp: dc_ok_def)

lemma dc_ok_delete: "dc_ok dc \<Longrightarrow> dc_ok (dc\<lparr>dc_entries := (dc_entries dc)(a := None)\<rparr>)"
  by (auto simp: dc_ok_def)

text \<open>The index updates one by one: well-formedness, accounting, and what they leave alone.\<close>

lemma index_entry_frame [simp]:
  "dc_dir (index_entry a bp m t dc) = dc_dir dc"
  "dc_maxSize (index_entry a bp m t dc) = dc_maxSize dc"
  "dc_safety (index_entry a bp m t dc) = dc_safety dc"
  "dc_pinned (index_entry a bp m t dc) = insert a (dc_pinned dc)"
  "dc_entries (index_entry a bp m t dc) = (dc_entries dc)(a \<mapsto>
     \<lparr>e_key = a, e_size = m_size m, e_access = t, e_hasBody = True, e_meta = Some m, e_bodyPath = bp\<rparr>)"
  by (auto simp: index_entry_def pin_def Let_def split: option.splits)

lemma i64_diff_add [simp]: "i64 (i64 x - y + z) = i64 (x - y + z)"
  by (metis i64_add_left i64_diff_left)

lemma index_entry_total:
  "dc_total (index_entry a bp m t dc) = i64 (dc_total dc - weight (dc_entries dc a) + m_size m)"
  by (auto simp: index_entry_def pin_def Let_def split: option.splits)

lemma body_sum_index_entry:
  "finite (dom (dc_entries dc)) \<Longrightarrow>
   body_sum (index_entry a bp m t dc) = body_sum dc - weight (dc_entries dc a) + m_size m"
  using sum_weight_update [of "dc_entries dc" a] by (simp add: body_sum_def del: dom_fun_upd)

lemma index_entry_accounted:
  "dc_ok dc \<Longrightarrow> accounted dc \<Longrightarrow> accounted (index_entry a bp m t dc)"
  by (simp add: accounted_def index_entry_total body_sum_index_entry dc_ok_finite)

lemma index_entry_ok:
  "dc_ok dc \<Longrightarrow> body_path (dc_dir dc) a = Some bp \<Longrightarrow> dc_ok (index_entry a bp m t dc)"
  by (auto simp: dc_ok_def)

lemma pin_simps [simp]:
  "dc_dir (pin a dc) = dc_dir dc" "dc_maxSize (pin a dc) = dc_maxSize dc"
  "dc_safety (pin a dc) = dc_safety dc" "dc_entries (pin a dc) = dc_entries dc"
  "dc_pinned (pin a dc) = insert a (dc_pinned dc)" "dc_total (pin a dc) = dc_total dc"
  "dc_ok (pin a dc) = dc_ok dc" "accounted (pin a dc) = accounted dc" "body_sum (pin a dc) = body_sum dc"
  by (simp_all add: pin_def dc_ok_def accounted_def body_sum_def)

lemma unpin_all_simps [simp]:
  "dc_ok (unpin_all dc) = dc_ok dc" "accounted (unpin_all dc) = accounted dc"
  "dc_entries (unpin_all dc) = dc_entries dc" "dc_dir (unpin_all dc) = dc_dir dc"
  by (simp_all add: unpin_all_def dc_ok_def accounted_def body_sum_def)

lemma touch_entry_frame:
  assumes "touch_entry a upd dc s = (dc', t)"
  shows "dc_dir dc' = dc_dir dc" and "dc_pinned dc' = dc_pinned dc" and "dc_total dc' = dc_total dc"
    and "dc_maxSize dc' = dc_maxSize dc" and "dc_safety dc' = dc_safety dc"
    and "k \<noteq> a \<Longrightarrow> dc_entries dc' k = dc_entries dc k"
    and "sys_files t = sys_files s" and "sys_dirs t = sys_dirs s" and "same_oracles s t"
  using assms by (auto simp: touch_entry_def now_def same_oracles_def split: option.splits)

lemma touch_entry_ok:
  assumes "touch_entry a upd dc s = (dc', t)" and "dc_ok dc"
    and "\<And>e. upd e = e \<or> (\<exists>m bp. upd e = e\<lparr>e_meta := Some m, e_bodyPath := bp\<rparr>
           \<and> body_path (dc_dir dc) a = Some bp)"
  shows "dc_ok dc'" and "accounted dc' = accounted dc" and "body_sum dc' = body_sum dc"
proof -
  have upd: "e_key (upd e) = e_key e \<and> e_size (upd e) = e_size e \<and> e_hasBody (upd e) = e_hasBody e
      \<and> (e_bodyPath (upd e) = e_bodyPath e \<or> body_path (dc_dir dc) a = Some (e_bodyPath (upd e)))" for e
    using assms(3) [of e] by auto
  show "dc_ok dc'" and sum: "body_sum dc' = body_sum dc"
  proof (atomize (full), cases "dc_entries dc a")
    case None
    with assms(1, 2) show "dc_ok dc' \<and> body_sum dc' = body_sum dc"
      by (simp add: touch_entry_def)
  next
    case (Some e)
    define e' where "e' = upd (e\<lparr>e_access := fst (now s)\<rparr>)"
    have "dc' = dc\<lparr>dc_entries := (dc_entries dc)(a \<mapsto> e')\<rparr>"
      using assms(1) Some by (auto simp: touch_entry_def e'_def split: prod.splits)
    moreover have "e_key e' = a" and "e_bodyPath e' \<noteq> [] \<Longrightarrow> body_path (dc_dir dc) a = Some (e_bodyPath e')"
      and "weight (Some e') = weight (Some e)"
      using upd [of "e\<lparr>e_access := fst (now s)\<rparr>"] dc_ok_entry [OF assms(2) Some] by (auto simp: e'_def)
    ultimately show "dc_ok dc' \<and> body_sum dc' = body_sum dc"
      using assms(2) Some by (simp add: dc_ok_update body_sum_update dc_ok_finite del: weight_simps)
  qed
  then show "accounted dc' = accounted dc"
    using touch_entry_frame(3) [OF assms(1)] by (simp add: accounted_def)
qed

lemma mark_evicted_frame [simp]:
  "dc_dir (mark_evicted a dc) = dc_dir dc" "dc_maxSize (mark_evicted a dc) = dc_maxSize dc"
  "dc_safety (mark_evicted a dc) = dc_safety dc" "dc_pinned (mark_evicted a dc) = dc_pinned dc"
  "dc_total (mark_evicted a dc) = dc_total dc"
  "k \<noteq> a \<Longrightarrow> dc_entries (mark_evicted a dc) k = dc_entries dc k"
  by (auto simp: mark_evicted_def split: option.splits)

lemma mark_evicted_ok: "dc_ok dc \<Longrightarrow> dc_ok (mark_evicted a dc)"
  by (auto simp: mark_evicted_def dc_ok_entry split: option.splits intro!: dc_ok_update)

lemma body_sum_mark_evicted:
  "dc_ok dc \<Longrightarrow> body_sum (mark_evicted a dc) = body_sum dc - weight (dc_entries dc a)"
  by (auto simp: mark_evicted_def body_sum_update dc_ok_finite split: option.splits)

subsection \<open>Installing\<close>

text \<open>Action ids the handlers use: at least two characters, none of them a separator.\<close>

definition key_ok :: "string \<Rightarrow> bool" where
  "key_ok a \<longleftrightarrow> 2 \<le> length a \<and> CHR ''/'' \<notin> set a"

definition shard_dir :: "path \<Rightarrow> string \<Rightarrow> path" where
  "shard_dir dir a = dir @ ''/'' @ take 2 a"

lemma key_paths:
  assumes "key_ok a"
  obtains bp mp where "body_path dir a = Some bp" and "metadata_path dir a = Some mp"
    and "filepath_dir bp = shard_dir dir a" and "filepath_dir mp = shard_dir dir a"
proof -
  obtain bp mp where p: "body_path dir a = Some bp" "metadata_path dir a = Some mp"
    using assms by (auto simp: key_ok_def body_path_def metadata_path_def)
  then have "filepath_dir bp = shard_dir dir a" and "filepath_dir mp = shard_dir dir a"
    using assms by (simp_all add: path_simps key_ok_def shard_dir_def)
  with p show thesis by (rule that)
qed

lemma rename_ok: "rename p q s = (Inr u, t) \<Longrightarrow>
    \<exists>f. sys_files s p = Some f \<and> sys_files t = (sys_files s)(p := None, q \<mapsto> f)"
  by (auto simp: rename_def split: if_splits option.splits)

lemma now_frame [simp]: "snd (now s) = called s"
  by (simp add: now_def)

lemma install_Some:
  "install a tmp m dc s = Some r \<Longrightarrow> \<exists>bp mp. body_path (dc_dir dc) a = Some bp \<and>
     metadata_path (dc_dir dc) a = Some mp"
  by (auto simp: install_def split: option.splits)

text \<open>The four ways an \<open>Install\<close> can go.\<close>

lemma install_cases [consumes 3, case_names mkdir rename metadata stored]:
  assumes "install a tmp m dc s = Some (r, dc', t)"
    and "body_path (dc_dir dc) a = Some bp" and "metadata_path (dc_dir dc) a = Some mp"
  obtains e where "ensure_dir (filepath_dir bp) s = (Inl e, t)" "r = Inl (Wrapped ''mkdir'' e)" "dc' = dc"
  | u s1 e where "ensure_dir (filepath_dir bp) s = (Inr u, s1)" "rename tmp bp s1 = (Inl e, t)"
      "r = Inl (Wrapped ''rename body'' e)" "dc' = dc"
  | u s1 u' s2 e s3 where "ensure_dir (filepath_dir bp) s = (Inr u, s1)" "rename tmp bp s1 = (Inr u', s2)"
      "write_metadata mp m s2 = (Inl e, s3)" "t = remove bp s3"
      "r = Inl (Wrapped ''write metadata'' e)" "dc' = dc"
  | u s1 u' s2 u'' s3 where "ensure_dir (filepath_dir bp) s = (Inr u, s1)"
      "rename tmp bp s1 = (Inr u', s2)" "write_metadata mp m s2 = (Inr u'', s3)"
      "r = Inr bp" "dc' = index_entry a bp m (fst (now s3)) dc" "t = called s3"
  using assms by (auto simp: install_def now_def split: prod.splits sum.splits)

lemma touches_eq: "touches P s (snd c) \<Longrightarrow> c = (x, t) \<Longrightarrow> touches P s t"
  by simp

lemma install_touches:
  assumes "install a tmp m dc s = Some (r, dc', t)"
    and "body_path (dc_dir dc) a = Some bp" and "metadata_path (dc_dir dc) a = Some mp"
  shows "touches {tmp, bp, mp, mp @ ''.tmp''} s t"
proof -
  let ?P = "{tmp, bp, mp, mp @ ''.tmp''}"
  have mkd: "ensure_dir d u = (x, v) \<Longrightarrow> touches ?P u v" for d u v x
    by (rule touches_eq [OF ensure_dir_touches])
  have ren: "rename tmp bp u = (x, v) \<Longrightarrow> touches ?P u v" for u v x
    by (rule touches_eq [OF calls_touch(11)]) auto
  have wr: "write_metadata mp m u = (x, v) \<Longrightarrow> touches ?P u v" for u v x
    by (rule touches_eq [OF touches_mono [OF write_metadata_touches]]) auto
  have rm: "touches ?P u (remove bp u)" for u
    by (rule calls_touch(8)) simp
  from assms show ?thesis
  proof (cases rule: install_cases)
    case mkdir
    then show ?thesis by (auto dest: mkd)
  next
    case rename
    then show ?thesis using mkd ren
      by (blast intro: touches_trans)
  next
    case (metadata u s1 u' s2 e s3)
    then show ?thesis using mkd ren wr rm
      by (blast intro: touches_trans)
  next
    case (stored u s1 u' s2 u'' s3)
    then show ?thesis using mkd ren wr touches_called
      by (blast intro: touches_trans)
  qed
qed

text \<open>A successful install puts the body and its metadata in place and indexes the entry.\<close>

lemma install_done:
  assumes "install a tmp m dc s = Some (Inr p, dc', t)" and "tmp = temp_name (dc_dir dc) n"
    and "body_path (dc_dir dc) a = Some bp" and "metadata_path (dc_dir dc) a = Some mp"
  shows "p = bp \<and> (\<exists>time. dc' = index_entry a bp m time dc)
    \<and> (\<exists>f. sys_files s tmp = Some f \<and> sys_files t bp = Some f) \<and> sys_files t tmp = None
    \<and> (\<exists>f. sys_files t mp = Some f \<and> encode_metadata m = Inr (f_data f))
    \<and> sys_files t (mp @ ''.tmp'') = None"
  using assms(1, 3, 4)
proof (cases rule: install_cases)
  case (stored u s1 u' s2 u'' s3)
  have differ: "bp \<noteq> mp" "bp \<noteq> mp @ ''.tmp''" "tmp \<noteq> bp" "tmp \<noteq> mp" "tmp \<noteq> mp @ ''.tmp''"
    using body_metadata_differ [OF assms(3, 4)] temp_name_differ(1) [OF assms(3)]
      temp_name_differ(2) [OF assms(4)] assms(2) by auto
  have "sys_files s1 = sys_files s"
    using ensure_dir_file [OF stored(1)] by auto
  with rename_ok [OF stored(2)] obtain f where f: "sys_files s tmp = Some f"
    "sys_files s2 = (sys_files s)(tmp := None, bp \<mapsto> f)" by auto
  have "sys_files s3 q = sys_files s2 q" if "q \<noteq> mp" "q \<noteq> mp @ ''.tmp''" for q
    using that write_metadata_touches [of mp s2 m] stored(3) by (auto simp: touches_def)
  with f differ have "sys_files s3 bp = Some f" "sys_files s3 tmp = None" by auto
  with f stored write_metadata_done [OF stored(3)] show ?thesis by auto
qed auto

subsection \<open>The cache as a store\<close>

definition on_disk :: "sys \<Rightarrow> path \<Rightarrow> bool" where
  "on_disk s p \<longleftrightarrow> sys_files s p \<noteq> None \<or> p \<in> sys_dirs s"

definition disk_meta :: "sys \<Rightarrow> path \<Rightarrow> metadata option" where
  "disk_meta s mp =
     (case sys_files s mp of
        None \<Rightarrow> None
      | Some f \<Rightarrow> if f_data f = [] then None
                else case decode_metadata (f_data f) of Inl e \<Rightarrow> None | Inr m \<Rightarrow> Some m)"

text \<open>The abstraction: which metadata and body a lookup of \<open>a\<close> would find.\<close>

definition peek :: "disk_cache \<times> sys \<Rightarrow> string \<Rightarrow> (metadata \<times> path) option" where
  "peek ds a =
     (case ds of (dc, s) \<Rightarrow>
        (case cached_meta a dc of
           Some (m, bp) \<Rightarrow> if bp \<noteq> [] \<and> on_disk s bp then Some (m, bp) else None
         | None \<Rightarrow>
            (case (metadata_path (dc_dir dc) a, body_path (dc_dir dc) a) of
               (Some mp, Some bp) \<Rightarrow>
                 (case disk_meta s mp of
                    None \<Rightarrow> None
                  | Some m \<Rightarrow> if on_disk s bp then Some (m, bp) else None)
             | _ \<Rightarrow> None)))"

lemma stat_on_disk: "no_faults s \<Longrightarrow> (\<exists>i. fst (stat p s) = Inr i) \<longleftrightarrow> on_disk s p"
  by (auto simp: stat_def on_disk_def split: option.splits)

lemma stat_cases:
  assumes "no_faults s"
  obtains i where "stat p s = (Inr i, called s)" "on_disk s p"
  | e where "stat p s = (Inl e, called s)" "\<not> on_disk s p"
  using stat_on_disk [OF assms, of p] stat_state [of p s]
  by (cases "stat p s"; cases "fst (stat p s)") auto

lemma read_metadata_frame:
  "sys_files (snd (read_metadata p s)) = sys_files s \<and> sys_dirs (snd (read_metadata p s)) = sys_dirs s
   \<and> same_oracles s (snd (read_metadata p s))"
  by (auto simp: read_metadata_def read_metadata_full_def open_file_def read_prefix_def read_file_def
      close_file_def Let_def same_oracles_def split: sum.splits option.splits)

lemma read_metadata_disk_meta:
  "no_faults s \<Longrightarrow> disk_meta s p = (case fst (read_metadata p s) of Inl e \<Rightarrow> None | Inr m \<Rightarrow> Some m)"
  using read_metadata_file_contents [of s p]
  by (auto simp: disk_meta_def read_metadata_full_def read_file_def split: option.splits sum.splits)

lemma on_disk_called [simp]: "on_disk (called s) p = on_disk s p"
  by (simp add: on_disk_def)

lemma disk_meta_called [simp]: "disk_meta (called s) p = disk_meta s p"
  by (simp add: disk_meta_def)

text \<open>The view of \<open>a\<close> depends on the cached metadata of \<open>a\<close> and on its two files.\<close>

lemma peek_cong:
  assumes "cached_meta a dc' = cached_meta a dc" and "dc_dir dc' = dc_dir dc"
    and "\<And>m p. cached_meta a dc = Some (m, p) \<Longrightarrow> p \<noteq> [] \<Longrightarrow> on_disk t p = on_disk s p"
    and "\<And>mp. metadata_path (dc_dir dc) a = Some mp \<Longrightarrow> disk_meta t mp = disk_meta s mp"
    and "\<And>p. body_path (dc_dir dc) a = Some p \<Longrightarrow> on_disk t p = on_disk s p"
  shows "peek (dc', t) a = peek (dc, s) a"
  using assms by (auto simp: peek_def split: option.splits)

lemma peek_cached:
  "cached_meta a dc = Some (m, bp) \<Longrightarrow>
   peek (dc, s) a = (if bp \<noteq> [] \<and> on_disk s bp then Some (m, bp) else None)"
  by (simp add: peek_def)

lemma peek_uncached:
  "cached_meta a dc = None \<Longrightarrow> metadata_path (dc_dir dc) a = Some mp \<Longrightarrow> body_path (dc_dir dc) a = Some bp
   \<Longrightarrow> peek (dc, s) a =
     (case disk_meta s mp of None \<Rightarrow> None | Some m \<Rightarrow> if on_disk s bp then Some (m, bp) else None)"
  by (simp add: peek_def)

lemma peek_same_files:
  "sys_files t = sys_files s \<Longrightarrow> sys_dirs t = sys_dirs s \<Longrightarrow> peek (dc, t) a = peek (dc, s) a"
  by (rule peek_cong) (auto simp: on_disk_def disk_meta_def)

lemma peek_called [simp]: "peek (dc, called s) a = peek (dc, s) a"
  by (rule peek_same_files) simp_all

lemma peek_pin [simp]: "peek (pin b dc, s) a = peek (dc, s) a"
  by (rule peek_cong) (auto simp: cached_meta_def)

lemma peek_touch_entry:
  assumes "touch_entry b upd dc s = (dc', t)" and "cached_meta a dc' = cached_meta a dc"
  shows "peek (dc', t) a = peek (dc, s) a"
  by (rule peek_cong) (use touch_entry_frame [OF assms(1)] assms(2) in \<open>auto simp: on_disk_def disk_meta_def\<close>)

lemma cached_meta_touch:
  assumes "touch_entry b upd dc s = (dc', t)"
  shows "cached_meta a dc' =
    (if a = b then (case dc_entries dc b of None \<Rightarrow> None
        | Some e \<Rightarrow> (case e_meta (upd (e\<lparr>e_access := fst (now s)\<rparr>)) of None \<Rightarrow> None
            | Some m \<Rightarrow> Some (m, e_bodyPath (upd (e\<lparr>e_access := fst (now s)\<rparr>)))))
     else cached_meta a dc)"
  using assms
  by (cases "a = b") (auto simp: touch_entry_def cached_meta_def split: option.splits prod.splits)

lemma lookup_cached_view:
  assumes "no_faults s" and "dc_ok dc" and "cached_meta a dc = Some (m, bp)"
    and "lookup_cached a m bp dc s = (r, dc', t)"
  shows "(case peek (dc, s) a of Some (m, p) \<Rightarrow> r = (Some m, p, True) | None \<Rightarrow> \<not> snd (snd r))
    \<and> peek (dc', t) k = peek (dc, s) k \<and> no_faults t \<and> dc_ok dc' \<and> dc_dir dc' = dc_dir dc
    \<and> sys_files t = sys_files s \<and> sys_dirs t = sys_dirs s"
proof (cases "bp = []")
  case True
  with assms peek_cached [OF assms(3), of s] show ?thesis by (auto simp: lookup_cached_def)
next
  case bp: False
  from assms(1) show ?thesis
  proof (cases rule: stat_cases [of s bp])
    case (1 i)
    obtain dc1 t1 where te: "touch_entry a (\<lambda>e. e) dc (called s) = (dc1, t1)"
      by (cases "touch_entry a (\<lambda>e. e) dc (called s)")
    have cm: "cached_meta j dc1 = cached_meta j dc" for j
      using cached_meta_touch [OF te, of j] by (auto simp: cached_meta_def split: option.splits)
    have "peek (dc1, t1) k = peek (dc, s) k"
      using peek_touch_entry [OF te cm] by simp
    moreover have "r = (Some m, bp, True)" "dc' = pin a dc1" "t = t1"
      using assms(4) 1 bp te by (auto simp: lookup_cached_def)
    moreover have "no_faults t1"
      using touch_entry_frame(9) [OF te] assms(1) no_faults_mono no_faults_called by blast
    moreover have "dc_ok dc1"
      by (rule touch_entry_ok(1) [OF te assms(2)]) auto
    ultimately show ?thesis
      using touch_entry_frame [OF te] peek_cached [OF assms(3), of s] 1 bp by simp
  next
    case (2 e)
    have eq: "r = (Some m, [], False)" "dc' = mark_evicted a dc" "t = called s"
      using assms(4) 2 bp by (auto simp: lookup_cached_def)
    have "peek (mark_evicted a dc, called s) k = peek (dc, s) k"
    proof (cases "k = a")
      case True
      have "cached_meta a (mark_evicted a dc) = Some (m, [])"
        using assms(3) by (auto simp: cached_meta_def mark_evicted_def split: option.splits)
      with True peek_cached [OF assms(3), of s] 2 show ?thesis by (simp add: peek_cached)
    next
      case False
      then show ?thesis by (intro peek_cong) (simp_all add: cached_meta_def)
    qed
    with eq assms(1, 2) peek_cached [OF assms(3), of s] 2 show ?thesis by (simp add: mark_evicted_ok)
  qed
qed

lemma touch_entry_index:
  assumes "touch_entry b upd dc s = (dc', t)"
  shows "dom (dc_entries dc') = dom (dc_entries dc)"
  using assms by (auto simp: touch_entry_def split: option.splits prod.splits if_splits)

lemma lookup_on_disk_view:
  assumes "no_faults s" and "dc_ok dc" and "cached_meta a dc = None"
    and paths: "metadata_path (dc_dir dc) a = Some mp" "body_path (dc_dir dc) a = Some bp"
    and "lookup_on_disk a mp bp dc s = (r, dc', t)"
  shows "(case peek (dc, s) a of Some (m, p) \<Rightarrow> r = (Some m, p, True) | None \<Rightarrow> \<not> snd (snd r))
    \<and> peek (dc', t) k = peek (dc, s) k \<and> no_faults t \<and> dc_ok dc' \<and> dc_dir dc' = dc_dir dc
    \<and> sys_files t = sys_files s \<and> sys_dirs t = sys_dirs s"
proof -
  obtain rm s1 where rm: "read_metadata mp s = (rm, s1)" by (cases "read_metadata mp s")
  have s1: "sys_files s1 = sys_files s" "sys_dirs s1 = sys_dirs s" "same_oracles s s1"
    using read_metadata_frame [of mp s] rm by auto
  then have nf: "no_faults s1" using assms(1) no_faults_mono by blast
  have dm: "disk_meta s mp = (case rm of Inl e \<Rightarrow> None | Inr m \<Rightarrow> Some m)"
    using read_metadata_disk_meta [OF assms(1), of mp] rm by simp
  have od: "on_disk s1 p = on_disk s p" for p using s1 by (simp add: on_disk_def)
  show ?thesis
  proof (cases rm)
    case (Inl e)
    then have "r = (None, [], False)" "dc' = dc" "t = s1"
      using assms(6) rm by (simp_all add: lookup_on_disk_def)
    with Inl assms dm s1 nf show ?thesis
      by (simp add: peek_uncached [OF assms(3) paths, of s] peek_same_files [OF s1(1, 2)])
  next
    case (Inr m)
    from nf show ?thesis
    proof (cases rule: stat_cases [of s1 bp])
      case (1 i)
      let ?upd = "\<lambda>e. e\<lparr>e_meta := Some m, e_bodyPath := bp\<rparr>"
      obtain dc1 t1 where te: "touch_entry a ?upd dc (called s1) = (dc1, t1)"
        by (cases "touch_entry a ?upd dc (called s1)")
      have eq: "r = (Some m, bp, True)" "dc' = pin a dc1" "t = t1"
        using assms(6) rm Inr 1 te by (auto simp: lookup_on_disk_def)
      have frame: "dc_dir dc1 = dc_dir dc" "sys_files t1 = sys_files s" "sys_dirs t1 = sys_dirs s"
        "same_oracles (called s1) t1"
        using touch_entry_frame [OF te] s1 by simp_all
      have here: "peek (dc, s) a = Some (m, bp)"
        using peek_uncached [OF assms(3) paths, of s] dm Inr 1 od by simp
      have "peek (dc1, t1) k = peek (dc, s) k"
      proof (cases "k = a \<and> dc_entries dc a \<noteq> None")
        case True
        then obtain e where "dc_entries dc a = Some e" by blast
        then have "cached_meta a dc1 = Some (m, bp)"
          using cached_meta_touch [OF te, of a] by simp
        moreover have "bp \<noteq> []" using paths by (auto simp: body_path_def split: if_splits)
        moreover have "on_disk t1 bp" using 1 s1 frame by (simp add: on_disk_def)
        ultimately show ?thesis using here True peek_cached by simp
      next
        case False
        then have "cached_meta k dc1 = cached_meta k dc"
          using cached_meta_touch [OF te, of k] by (auto simp: cached_meta_def split: option.splits)
        then show ?thesis
          by (rule peek_cong) (use frame in \<open>auto simp: on_disk_def disk_meta_def\<close>)
      qed
      moreover have "dc_ok dc1"
        by (rule touch_entry_ok(1) [OF te assms(2)]) (use paths in auto)
      moreover have "no_faults t1"
        using frame(4) nf no_faults_mono no_faults_called by blast
      ultimately show ?thesis using eq here frame by simp
    next
      case (2 e)
      have "peek (dc, called s1) k = peek (dc, s) k"
        by (rule peek_same_files) (use s1 in simp_all)
      moreover have "r = (Some m, [], False)" "dc' = dc" "t = called s1"
        using assms(6) rm Inr 2 by (simp_all add: lookup_on_disk_def)
      moreover have "peek (dc, s) a = None"
        using peek_uncached [OF assms(3) paths, of s] dm Inr 2 od by simp
      ultimately show ?thesis using assms(2) nf s1 by simp
    qed
  qed
qed

lemma lookup_view:
  assumes "no_faults s" and "dc_ok dc" and "key_ok a"
  shows "\<exists>r dc' t. lookup a dc s = Some (r, dc', t)
    \<and> (case peek (dc, s) a of Some (m, p) \<Rightarrow> r = (Some m, p, True) | None \<Rightarrow> \<not> snd (snd r))
    \<and> (\<forall>k. peek (dc', t) k = peek (dc, s) k) \<and> no_faults t \<and> dc_ok dc' \<and> dc_dir dc' = dc_dir dc
    \<and> sys_files t = sys_files s \<and> sys_dirs t = sys_dirs s"
proof (cases "cached_meta a dc")
  case None
  obtain bp mp where p: "body_path (dc_dir dc) a = Some bp" "metadata_path (dc_dir dc) a = Some mp"
    using key_paths [OF assms(3)] by blast
  obtain r dc' t where "lookup_on_disk a mp bp dc s = (r, dc', t)"
    by (cases "lookup_on_disk a mp bp dc s")
  with lookup_on_disk_view [OF assms(1, 2) None p(2, 1) this] None p show ?thesis
    by (simp add: lookup_def)
next
  case (Some mb)
  then obtain m bp where mb: "cached_meta a dc = Some (m, bp)" by (cases mb) auto
  obtain r dc' t where "lookup_cached a m bp dc s = (r, dc', t)"
    by (cases "lookup_cached a m bp dc s")
  with lookup_cached_view [OF assms(1, 2) mb this] mb show ?thesis
    by (simp add: lookup_def)
qed

lemma dir_prefixes_length: "q \<in> set (dir_prefixes acc cs) \<Longrightarrow> length q \<le> length acc + length cs"
  by (induction acc cs rule: dir_prefixes.induct) (auto split: if_splits)

lemma ensure_dir_dirs: "ensure_dir d s = (r, t) \<Longrightarrow> sys_dirs t \<subseteq> sys_dirs s \<union> {q. length q \<le> length d}"
  using dir_prefixes_length [where acc = "[]"]
  by (fastforce simp: ensure_dir_def stat_def mkdir_all_def split: if_splits option.splits)

lemma calls_dirs:
  "sys_dirs (snd (open_trunc p s)) = sys_dirs s" "sys_dirs (snd (write_data p data s)) = sys_dirs s"
  "sys_dirs (snd (rename p q s)) = sys_dirs s" "sys_dirs (remove p s) = sys_dirs s"
  "sys_dirs (snd (close_file p s)) = sys_dirs s"
  by (auto simp: call_defs split: option.splits)

lemma calls_dirs_eq:
  "open_trunc p s = (r, t) \<Longrightarrow> sys_dirs t = sys_dirs s"
  "write_data p data s = (r, t) \<Longrightarrow> sys_dirs t = sys_dirs s"
  "rename p q s = (r, t) \<Longrightarrow> sys_dirs t = sys_dirs s"
  "close_file p s = (r, t) \<Longrightarrow> sys_dirs t = sys_dirs s"
  using calls_dirs by (metis snd_conv)+

lemma write_metadata_dirs:
  "write_metadata p m s = (r, t) \<Longrightarrow>
   sys_dirs t \<subseteq> sys_dirs s \<union> {q. length q \<le> length (filepath_dir p)}"
  by (auto simp: write_metadata_def Let_def calls_dirs split: sum.splits prod.splits
      dest!: ensure_dir_dirs calls_dirs_eq)

lemma install_dirs:
  assumes "install a tmp m dc s = Some (r, dc', t)" and "key_ok a"
  shows "sys_dirs t \<subseteq> sys_dirs s \<union> {q. length q \<le> length (dc_dir dc) + 3}"
proof -
  obtain bp mp where p: "body_path (dc_dir dc) a = Some bp" "metadata_path (dc_dir dc) a = Some mp"
    "filepath_dir bp = shard_dir (dc_dir dc) a" "filepath_dir mp = shard_dir (dc_dir dc) a"
    using key_paths [OF assms(2)] by blast
  have len: "length (shard_dir (dc_dir dc) a) = length (dc_dir dc) + 3"
    using assms(2) by (simp add: shard_dir_def key_ok_def)
  from assms(1) p(1, 2) show ?thesis
  proof (cases rule: install_cases)
    case mkdir
    with p(3) len show ?thesis by (auto dest!: ensure_dir_dirs)
  next
    case rename
    with p(3) len show ?thesis by (fastforce dest!: ensure_dir_dirs calls_dirs_eq)
  next
    case metadata
    with p(3, 4) len show ?thesis
      by (fastforce simp: calls_dirs dest!: ensure_dir_dirs calls_dirs_eq write_metadata_dirs)
  next
    case stored
    with p(3, 4) len show ?thesis
      by (fastforce dest!: ensure_dir_dirs calls_dirs_eq write_metadata_dirs)
  qed
qed

lemma install_other_paths:
  assumes "install a tmp m dc s = Some (r, dc', t)" and "tmp = temp_name (dc_dir dc) n"
    and "key_ok a" and "j \<noteq> a" and "body_path (dc_dir dc) j = Some bj"
    and "metadata_path (dc_dir dc) j = Some mj"
  shows "on_disk t bj = on_disk s bj \<and> disk_meta t mj = disk_meta s mj
    \<and> sys_files t bj = sys_files s bj \<and> sys_files t mj = sys_files s mj"
proof -
  obtain bp mp where p: "body_path (dc_dir dc) a = Some bp" "metadata_path (dc_dir dc) a = Some mp"
    using key_paths [OF assms(3)] by blast
  have "bj \<notin> {tmp, bp, mp, mp @ ''.tmp''}" "mj \<notin> {tmp, bp, mp, mp @ ''.tmp''}"
    using body_path_inject [of "dc_dir dc" a bp j] metadata_path_inject [of "dc_dir dc" a mp j]
      body_metadata_differ [OF assms(5) p(2)] body_metadata_differ [OF p(1) assms(6)]
      metadata_tmp_differ [OF assms(6) p(2)] temp_name_differ(1) [OF assms(5)]
      temp_name_differ(2) [OF assms(6)] assms p by auto
  with install_touches [OF assms(1) p] have files: "sys_files t bj = sys_files s bj"
    "sys_files t mj = sys_files s mj" and mono: "sys_dirs s \<subseteq> sys_dirs t"
    by (simp_all add: touches_def)
  have "length bj > length (dc_dir dc) + 3"
    using assms(5) by (auto simp: body_path_def split: if_splits)
  then have "bj \<in> sys_dirs t \<longleftrightarrow> bj \<in> sys_dirs s"
    using install_dirs [OF assms(1, 3)] mono by auto
  with files show ?thesis by (simp add: on_disk_def disk_meta_def)
qed

lemma install_index:
  assumes "install a tmp m dc s = Some (r, dc', t)"
  shows "dc_dir dc' = dc_dir dc" and "k \<noteq> a \<Longrightarrow> dc_entries dc' k = dc_entries dc k"
    and "dc_ok dc \<Longrightarrow> dc_ok dc'" and "dc_ok dc \<Longrightarrow> accounted dc \<Longrightarrow> accounted dc'"
    and "no_faults s \<Longrightarrow> no_faults t" and "r = Inl e \<Longrightarrow> dc' = dc"
proof -
  obtain bp mp where p: "body_path (dc_dir dc) a = Some bp" "metadata_path (dc_dir dc) a = Some mp"
    using install_Some [OF assms] by blast
  have dc': "dc' = dc \<and> isl r \<or> (\<exists>time. dc' = index_entry a bp m time dc) \<and> \<not> isl r"
    using assms p by (cases rule: install_cases) auto
  show "dc_dir dc' = dc_dir dc" and "k \<noteq> a \<Longrightarrow> dc_entries dc' k = dc_entries dc k"
    and "dc_ok dc \<Longrightarrow> dc_ok dc'" and "dc_ok dc \<Longrightarrow> accounted dc \<Longrightarrow> accounted dc'"
    and "r = Inl e \<Longrightarrow> dc' = dc"
    using dc' p(1) by (auto simp: index_entry_ok index_entry_accounted)
  show "no_faults s \<Longrightarrow> no_faults t"
    using install_touches [OF assms p] by (auto intro: touches_no_faults)
qed

text \<open>The two operations in the shape of the store's interface.\<close>

definition disk_inv :: "path \<Rightarrow> disk_cache \<times> sys \<Rightarrow> bool" where
  "disk_inv dir ds \<longleftrightarrow> dc_dir (fst ds) = dir \<and> dc_ok (fst ds) \<and> no_faults (snd ds)"

definition disk_src :: "path \<Rightarrow> path \<times> metadata \<Rightarrow> bool" where
  "disk_src dir x \<longleftrightarrow> (\<exists>n. fst x = temp_name dir n)"

definition disk_put ::
    "string \<Rightarrow> path \<times> metadata \<Rightarrow> disk_cache \<times> sys \<Rightarrow> (metadata \<times> path) option \<times> disk_cache \<times> sys" where
  "disk_put a x ds =
     (case install a (fst x) (snd x) (fst ds) (snd ds) of
        None \<Rightarrow> (None, ds)
      | Some (Inl e, ds') \<Rightarrow> (None, ds')
      | Some (Inr p, ds') \<Rightarrow> (Some (snd x, p), ds'))"

definition disk_get ::
    "string \<Rightarrow> disk_cache \<times> sys \<Rightarrow> (metadata \<times> path) option \<times> disk_cache \<times> sys" where
  "disk_get a ds =
     (case lookup a (fst ds) (snd ds) of
        Some ((Some m, p, True), ds') \<Rightarrow> (Some (m, p), ds')
      | Some (_, ds') \<Rightarrow> (None, ds')
      | None \<Rightarrow> (None, ds))"

lemma disk_get_view:
  assumes "disk_inv dir ds" and "key_ok a"
  shows "fst (disk_get a ds) = peek ds a \<and> peek (snd (disk_get a ds)) j = peek ds j
    \<and> disk_inv dir (snd (disk_get a ds))"
proof -
  obtain dc s where ds: "ds = (dc, s)" by (cases ds)
  from assms lookup_view [of s dc a] obtain r dc' t where
    "lookup a dc s = Some (r, dc', t)"
    "case peek (dc, s) a of Some (m, p) \<Rightarrow> r = (Some m, p, True) | None \<Rightarrow> \<not> snd (snd r)"
    "\<forall>k. peek (dc', t) k = peek (dc, s) k" "no_faults t" "dc_ok dc'" "dc_dir dc' = dc_dir dc"
    by (auto simp: disk_inv_def ds)
  with assms(1) show ?thesis
    by (cases r) (auto simp: disk_get_def ds disk_inv_def split: option.splits bool.splits)
qed

lemma disk_put_stored:
  assumes "disk_inv dir ds" and "disk_src dir x" and "disk_put a x ds = (Some v, dt)"
  shows "peek dt a = Some v"
proof -
  obtain dc s where ds: "ds = (dc, s)" by (cases ds)
  obtain tmp m where x: "x = (tmp, m)" by (cases x)
  obtain p dc' t where i: "install a tmp m dc s = Some (Inr p, dc', t)" and v: "v = (m, p)" "dt = (dc', t)"
    using assms(3) by (auto simp: disk_put_def ds x split: option.splits sum.splits prod.splits)
  obtain bp mp where pp: "body_path (dc_dir dc) a = Some bp" "metadata_path (dc_dir dc) a = Some mp"
    using install_Some [OF i] by blast
  obtain n where "tmp = temp_name (dc_dir dc) n"
    using assms(1, 2) by (auto simp: disk_src_def disk_inv_def ds x)
  with install_done [OF i this pp] pp v show ?thesis
    by (auto simp: peek_def cached_meta_def on_disk_def body_path_def split: if_splits)
qed

lemma disk_put_frame:
  assumes "disk_inv dir ds" and "key_ok a" and "disk_src dir x"
  shows "disk_inv dir (snd (disk_put a x ds)) \<and> (key_ok j \<longrightarrow> j \<noteq> a \<longrightarrow> peek (snd (disk_put a x ds)) j = peek ds j)"
proof -
  obtain dc s where ds: "ds = (dc, s)" by (cases ds)
  obtain tmp m where x: "x = (tmp, m)" by (cases x)
  obtain bp mp where pp: "body_path (dc_dir dc) a = Some bp" "metadata_path (dc_dir dc) a = Some mp"
    using key_paths [OF assms(2)] by blast
  then obtain r dc' t where i: "install a tmp m dc s = Some (r, dc', t)"
    by (cases "install a tmp m dc s") (auto simp: install_def)
  have snd: "snd (disk_put a x ds) = (dc', t)"
    using i by (cases r) (simp_all add: disk_put_def ds x)
  obtain n where n: "tmp = temp_name (dc_dir dc) n"
    using assms(1, 3) by (auto simp: disk_src_def disk_inv_def ds x)
  have "peek (dc', t) j = peek (dc, s) j" if j: "key_ok j" "j \<noteq> a"
  proof -
    obtain bj mj where pj: "body_path (dc_dir dc) j = Some bj" "metadata_path (dc_dir dc) j = Some mj"
      using key_paths [OF j(1)] by blast
    note same = install_other_paths [OF i n assms(2) j(2) pj]
    have "p = bj" if "cached_meta j dc = Some (m, p)" "p \<noteq> []" for m p
      using that assms(1) dc_ok_entry pj(1)
      by (fastforce simp: cached_meta_def disk_inv_def ds split: option.splits)
    with same pj install_index(1, 2) [OF i] j(2) show ?thesis
      by (intro peek_cong) (auto simp: cached_meta_def)
  qed
  with snd ds assms(1) install_index [OF i] show ?thesis by (simp add: disk_inv_def)
qed

interpretation disk_store: store "disk_inv dir" key_ok "disk_src dir" peek disk_put disk_get
  for dir :: path
proof
qed (use disk_get_view disk_put_stored disk_put_frame in blast)+

subsection \<open>Restarting\<close>

text \<open>What the scan of a new process leaves: fresh entries without cached metadata.\<close>

definition scanned :: "path \<Rightarrow> disk_cache \<Rightarrow> bool" where
  "scanned dir dc \<longleftrightarrow> dc_ok dc \<and> dc_dir dc = dir \<and> dc_pinned dc = {}
     \<and> (\<forall>k e. dc_entries dc k = Some e \<longrightarrow> e_meta e = None \<and> e_hasBody e)"

lemma scanned_cached_meta: "scanned dir dc \<Longrightarrow> cached_meta a dc = None"
  by (auto simp: scanned_def cached_meta_def split: option.splits)

lemma scan_file_keeps:
  assumes "scan_file sub name dc s = (dc', t)" and "scanned dir dc"
  shows "scanned dir dc' \<and> touches {} s t"
proof -
  have "stat p s = (x, u) \<Longrightarrow> touches {} s u" for p x u
    using stat_state [of p s] by simp
  with assms show ?thesis
    by (auto simp: scan_file_def scanned_def Let_def split: if_splits prod.splits sum.splits
        intro!: dc_ok_update)
qed

lemma scan_files_keeps:
  "scan_files sub names dc s = (dc', t) \<Longrightarrow> scanned dir dc \<Longrightarrow> scanned dir dc' \<and> touches {} s t"
proof (induction sub names dc s arbitrary: dc' t rule: scan_files.induct)
  case (2 sub name is_dir rest dc s)
  obtain dc1 s1 where one: "scan_file sub name dc s = (dc1, s1)" by (cases "scan_file sub name dc s")
  with 2 scan_file_keeps [OF one] show ?case by (auto intro: touches_trans)
qed simp

lemma read_dir_touches: "read_dir d s = (r, t) \<Longrightarrow> touches P s t"
  by (auto simp: read_dir_def split: if_splits)

lemma scan_shards_keeps:
  "scan_shards d shards dc s = (dc', t) \<Longrightarrow> scanned dir dc \<Longrightarrow> scanned dir dc' \<and> touches {} s t"
proof (induction d shards dc s arbitrary: dc' t rule: scan_shards.induct)
  case (2 d name is_dir rest dc s)
  show ?case
  proof (cases "\<not> is_dir \<or> length name \<noteq> 2")
    case True
    with 2 show ?thesis by auto
  next
    case False
    obtain r s1 where rd: "read_dir (d @ ''/'' @ name) s = (r, s1)" by (cases "read_dir (d @ ''/'' @ name) s")
    note t1 = read_dir_touches [OF rd, of "{}"]
    show ?thesis
    proof (cases r)
      case (Inl e)
      with 2 False rd t1 show ?thesis by (auto intro: touches_trans)
    next
      case (Inr fs)
      obtain dc1 s2 where one: "scan_files (d @ ''/'' @ name) fs dc s1 = (dc1, s2)"
        by (cases "scan_files (d @ ''/'' @ name) fs dc s1")
      note keep = scan_files_keeps [OF one "2.prems"(2)]
      have "scanned dir dc' \<and> touches {} s2 t"
        using 2 False rd Inr one keep by simp
      with keep t1 show ?thesis by (blast intro: touches_trans)
    qed
  qed
qed simp

lemma remove_touches: "p \<in> P \<Longrightarrow> touches P s (remove p s)"
  by (rule calls_touch(8))

lemma remove_temp_files_touches:
  "touches {dir @ ''/'' @ name | name. has_prefix name ''tmp-''} s (remove_temp_files dir names s)"
proof (induction dir names s rule: remove_temp_files.induct)
  case (2 dir name is_dir rest s)
  have "touches {dir @ ''/'' @ name | name. has_prefix name ''tmp-''} s (remove (dir @ ''/'' @ name) s)"
    if "has_prefix name ''tmp-''"
    using that by (auto intro: remove_touches)
  with 2 show ?case by (auto intro: touches_trans)
qed simp

lemma length_tmp: "length ''tmp-'' = 4"
  by simp

lemma root_file_differs:
  assumes "has_prefix name ''tmp-''" and "key_ok a"
  shows "body_path dir a \<noteq> Some (dir @ ''/'' @ name)" and "metadata_path dir a \<noteq> Some (dir @ ''/'' @ name)"
proof -
  have "take 2 a @ ''/'' @ r \<noteq> name" for r
  proof
    assume "take 2 a @ ''/'' @ r = name"
    then have "name ! 2 = CHR ''/''" using assms(2) by (auto simp: nth_append key_ok_def)
    moreover obtain rest where "name = ''tmp-'' @ rest"
      using assms(1) append_take_drop_id [of 4 name] by (metis has_prefix_def length_tmp)
    ultimately show False by simp
  qed
  then show "body_path dir a \<noteq> Some (dir @ ''/'' @ name)" "metadata_path dir a \<noteq> Some (dir @ ''/'' @ name)"
    by (auto simp: body_path_def metadata_path_def)
qed

lemma new_disk_cache_keeps:
  assumes "new_disk_cache dir mx s = (Inr dc, t)"
  shows "scanned dir dc \<and> touches {dir @ ''/'' @ name | name. has_prefix name ''tmp-''} s t"
proof -
  let ?P = "{dir @ ''/'' @ name | name. has_prefix name ''tmp-''}"
  obtain u s1 where m: "mkdir_all dir s = (Inr u, s1)" and sc: "scan (empty_cache dir mx) s1 = (dc, t)"
    using assms by (auto simp: new_disk_cache_def split: prod.splits sum.splits)
  have t1: "touches ?P s s1" using calls_touch(3) [of ?P s dir] m by simp
  obtain r s2 where rd: "read_dir dir s1 = (r, s2)" by (cases "read_dir dir s1")
  note t2 = read_dir_touches [OF rd, of ?P]
  have e: "scanned dir (empty_cache dir mx)" by (simp add: scanned_def empty_cache_def dc_ok_def)
  show ?thesis
  proof (cases r)
    case (Inl x)
    with sc rd have "dc = empty_cache dir mx" "t = s2" by (simp_all add: scan_def empty_cache_def)
    with e t1 t2 show ?thesis by (auto intro: touches_trans)
  next
    case (Inr root)
    with sc rd have "scan_shards dir root (empty_cache dir mx) (remove_temp_files dir root s2) = (dc, t)"
      by (simp add: scan_def empty_cache_def)
    from scan_shards_keeps [OF this e] have "scanned dir dc"
      and "touches ?P (remove_temp_files dir root s2) t"
      using touches_mono by auto
    with t1 t2 remove_temp_files_touches [of dir s2 root] show ?thesis by (blast intro: touches_trans)
  qed
qed

subsection \<open>What the cache promises\<close>

text \<open>The body of a key stays as it is while other keys are installed and looked up.\<close>

lemma disk_step_body:
  assumes "disk_inv dir ds" and "key_ok a" and "body_path dir a = Some bp"
    and "spares key_ok (disk_src dir) a op"
  shows "sys_files (snd (store_step disk_put disk_get op ds)) bp = sys_files (snd ds) bp"
proof -
  obtain dc s where ds: "ds = (dc, s)" by (cases ds)
  obtain mp where mp: "metadata_path dir a = Some mp" using key_paths [OF assms(2)] by blast
  show ?thesis
  proof (cases op)
    case (Put j x)
    obtain bj mj where pj: "body_path dir j = Some bj" "metadata_path dir j = Some mj"
      using assms(4) Put by (auto elim: key_paths [of j dir])
    then obtain r dc' t where i: "install j (fst x) (snd x) dc s = Some (r, dc', t)"
      using assms(1) by (cases "install j (fst x) (snd x) dc s") (auto simp: install_def disk_inv_def ds)
    have dir: "dc_dir dc = dir" using assms(1) by (simp add: disk_inv_def ds)
    obtain n where n: "fst x = temp_name (dc_dir dc) n" using assms(4) Put dir by (auto simp: disk_src_def)
    have "sys_files t bp = sys_files s bp"
      using install_other_paths [OF i n, of a bp mp] assms(3, 4) mp dir Put by auto
    with i Put show ?thesis by (cases r) (simp_all add: disk_put_def ds)
  next
    case (Get j)
    with lookup_view [of s dc j] assms(1, 4) show ?thesis
      by (auto simp: disk_get_def ds disk_inv_def split: option.splits prod.splits bool.splits)
  qed
qed

lemma disk_run_body:
  assumes "disk_inv dir ds" and "key_ok a" and "body_path dir a = Some bp"
    and "list_all (spares key_ok (disk_src dir) a) ops"
  shows "sys_files (snd (fold (store_step disk_put disk_get) ops ds)) bp = sys_files (snd ds) bp"
  using assms
proof (induction ops arbitrary: ds)
  case (Cons op ops)
  then show ?case
    using disk_step_body [of dir ds a bp op] disk_store.step_inv [of dir ds a op] by simp
qed simp

text \<open>With its shard directory in place and no failing call, an install succeeds.\<close>

lemma install_succeeds:
  assumes "no_faults s" and "key_ok a" and "tmp = temp_name (dc_dir dc) n" and "sys_files s tmp = Some f"
    and "shard_dir (dc_dir dc) a \<in> sys_dirs s" and "format_time (m_time m) \<noteq> None"
    and "body_path (dc_dir dc) a = Some bp" and "metadata_path (dc_dir dc) a = Some mp"
    and "bp \<notin> sys_dirs s" and "mp \<notin> sys_dirs s" and "mp @ ''.tmp'' \<notin> sys_dirs s"
  shows "\<exists>dc' t. install a tmp m dc s = Some (Inr bp, dc', t) \<and> no_faults t"
proof -
  have dirs: "filepath_dir bp = shard_dir (dc_dir dc) a" "filepath_dir mp = shard_dir (dc_dir dc) a"
    using assms(2, 7, 8) key_paths [OF assms(2), of "dc_dir dc"] by auto
  have e: "ensure_dir (shard_dir (dc_dir dc) a) s = (Inr (), called s)"
    by (rule ensure_dir_exists [OF assms(1, 5)])
  let ?s2 = "(called (called s))\<lparr>sys_files := (sys_files s)(tmp := None, bp \<mapsto> f)\<rparr>"
  have r: "rename tmp bp (called s) = (Inr (), ?s2)"
    using assms dirs by (simp add: rename_def)
  obtain t where w: "write_metadata mp m ?s2 = (Inr (), t)" "no_faults t"
    using write_metadata_succeeds [of ?s2 mp m] assms dirs by auto
  show ?thesis
    using assms(7, 8) dirs e r w by (simp add: install_def now_def)
qed

lemma temp_example: "temp_name ''/c'' 7 = ''/c/tmp-7''"
  by code_simp

definition example_body :: sys where
  "example_body = example_sys\<lparr>sys_files := [''/c/tmp-7'' \<mapsto> \<lparr>f_data = [1, 2, 3, 4, 5], f_mtime = 0\<rparr>]\<rparr>"

lemma install_example:
  "\<exists>dc' t. install ''ab12'' ''/c/tmp-7'' example_metadata (empty_cache ''/c'' 1000) example_body
     = Some (Inr ''/c/ab/ab12-d'', dc', t) \<and> no_faults t"
  using wf_example_metadata
  by (intro install_succeeds [where n = 7 and mp = "''/c/ab/ab12-m''"])
    (simp_all add: example_body_def key_ok_def temp_example empty_cache_def shard_dir_def
      body_path_def metadata_path_def wf_metadata_def)

lemma disk_inv_example: "disk_inv ''/c'' (empty_cache ''/c'' 1000, example_body)"
  by (simp add: disk_inv_def empty_cache_def dc_ok_def example_body_def)

text \<open>
  C22: a body that was installed is served from then on. After a successful \<open>Install\<close> of \<open>a\<close> and
  any further sequence of installs of other entries and lookups of any entry, with no failing
  system call, \<open>Lookup\<close> of \<open>a\<close> hits: it returns the metadata and the body path of the install, and
  that file holds the very body that was in the temporary file.
\<close>

theorem install_then_lookup:
  assumes "disk_inv dir (dc, s)" and "key_ok a" and "tmp = temp_name dir n"
    and "install a tmp m dc s = Some (Inr p, dc', t)"
    and "list_all (spares key_ok (disk_src dir) a) ops"
    and "fold (store_step disk_put disk_get) ops (dc', t) = (dc'', u)"
  shows "(\<exists>dc3 v. lookup a dc'' u = Some ((Some m, p, True), dc3, v)) \<and> body_path dir a = Some p
    \<and> (\<exists>f. sys_files s tmp = Some f \<and> sys_files u p = Some f)"
proof -
  have dir: "dc_dir dc = dir" using assms(1) by (simp add: disk_inv_def)
  obtain bp mp where p: "body_path (dc_dir dc) a = Some bp" "metadata_path (dc_dir dc) a = Some mp"
    using key_paths [OF assms(2)] by blast
  note inst = install_done [OF assms(4) _ p]
  have put: "disk_put a (tmp, m) (dc, s) = (Some (m, p), (dc', t))"
    using assms(4) by (simp add: disk_put_def)
  have inv: "disk_inv dir (dc', t)"
    using disk_put_frame [OF assms(1, 2), of "(tmp, m)"] assms(3) put by (auto simp: disk_src_def)
  have "fst (disk_get a (dc'', u)) = Some (m, p)"
    using disk_store.get_after_put [OF assms(1, 2) _ put assms(5)] assms(3, 6)
    by (auto simp: disk_src_def)
  then have "\<exists>dc3 v. lookup a dc'' u = Some ((Some m, p, True), dc3, v)"
    by (auto simp: disk_get_def split: option.splits prod.splits bool.splits)
  moreover have "sys_files u p = sys_files t p"
    using disk_run_body [OF inv assms(2) _ assms(5)] p dir inst assms(3, 6) by simp
  ultimately show ?thesis using inst p dir assms(3) by auto
qed

theorem install_then_lookup_witness:
  "\<exists>dc' t dc3 v. install ''ab12'' ''/c/tmp-7'' example_metadata (empty_cache ''/c'' 1000) example_body
      = Some (Inr ''/c/ab/ab12-d'', dc', t)
    \<and> lookup ''ab12'' dc' t = Some ((Some example_metadata, ''/c/ab/ab12-d'', True), dc3, v)"
proof -
  obtain dc' t where i: "install ''ab12'' ''/c/tmp-7'' example_metadata (empty_cache ''/c'' 1000) example_body
      = Some (Inr ''/c/ab/ab12-d'', dc', t)"
    using install_example by blast
  have "key_ok ''ab12''" "''/c/tmp-7'' = temp_name ''/c'' 7"
    by (simp_all add: key_ok_def temp_example)
  with install_then_lookup [OF disk_inv_example _ _ i, of 7 "[]"] i show ?thesis by auto
qed

text \<open>
  C23: the cache survives a restart. When \<open>a\<close> was installed (with metadata a file can carry) and a
  new process opens the directory with \<open>NewDiskCache\<close>, with no failing system call, its first
  \<open>Lookup\<close> of \<open>a\<close> hits with the same metadata and body path, and the body is unchanged.
\<close>

theorem restart_then_lookup:
  assumes "key_ok a" and "tmp = temp_name (dc_dir dc) n" and "wf_metadata m"
    and "install a tmp m dc s = Some (Inr p, dc', t)" and "no_faults t"
    and "new_disk_cache (dc_dir dc) mx t = (Inr fresh, u)"
  shows "\<exists>dc3 v. lookup a fresh u = Some ((Some m, p, True), dc3, v)
    \<and> (\<exists>f. sys_files s tmp = Some f \<and> sys_files v p = Some f)"
proof -
  let ?dir = "dc_dir dc"
  obtain bp mp where p: "body_path ?dir a = Some bp" "metadata_path ?dir a = Some mp"
    using key_paths [OF assms(1)] by blast
  obtain f g where fg: "p = bp" "sys_files s tmp = Some f" "sys_files t bp = Some f"
    "sys_files t mp = Some g" "encode_metadata m = Inr (f_data g)"
    using install_done [OF assms(4, 2) p] by blast
  have new: "scanned ?dir fresh" and touch: "touches {?dir @ ''/'' @ name | name. has_prefix name ''tmp-''} t u"
    using new_disk_cache_keeps [OF assms(6)] by auto
  have "bp \<notin> {?dir @ ''/'' @ name | name. has_prefix name ''tmp-''}"
    and "mp \<notin> {?dir @ ''/'' @ name | name. has_prefix name ''tmp-''}"
    using root_file_differs [OF _ assms(1), of _ ?dir] p by auto
  then have "sys_files u bp = Some f" and "sys_files u mp = Some g"
    using fg touches_file [OF touch] by simp_all
  moreover have nf: "no_faults u" using touches_no_faults [OF touch assms(5)] .
  ultimately have "disk_meta u mp = Some m" and "on_disk u bp"
    using encode_nonempty [OF fg(5)] decode_encode_metadata [OF assms(3)] fg(5)
    by (auto simp: disk_meta_def on_disk_def)
  then have "peek (fresh, u) a = Some (m, bp)"
    using peek_uncached [OF scanned_cached_meta [OF new], of a mp bp u] new p by (simp add: scanned_def)
  with lookup_view [OF nf _ assms(1), of fresh] new fg \<open>sys_files u bp = Some f\<close> show ?thesis
    by (fastforce simp: scanned_def)
qed

lemma new_disk_cache_opens:
  "no_faults s \<Longrightarrow> \<forall>q \<in> set (dir_prefixes [] dir). sys_files s q = None \<Longrightarrow>
   \<exists>dc t. new_disk_cache dir mx s = (Inr dc, t)"
  by (auto simp: new_disk_cache_def mkdir_all_def split: prod.splits)

theorem restart_then_lookup_witness:
  "\<exists>dc' t fresh u dc3 v. install ''ab12'' ''/c/tmp-7'' example_metadata (empty_cache ''/c'' 1000) example_body
      = Some (Inr ''/c/ab/ab12-d'', dc', t)
    \<and> new_disk_cache ''/c'' 1000 t = (Inr fresh, u)
    \<and> lookup ''ab12'' fresh u = Some ((Some example_metadata, ''/c/ab/ab12-d'', True), dc3, v)"
proof -
  obtain dc' t where i: "install ''ab12'' ''/c/tmp-7'' example_metadata (empty_cache ''/c'' 1000) example_body
      = Some (Inr ''/c/ab/ab12-d'', dc', t)" and nf: "no_faults t"
    using install_example by blast
  have k: "key_ok ''ab12''" and tmp: "''/c/tmp-7'' = temp_name (dc_dir (empty_cache ''/c'' 1000)) 7"
    by (simp_all add: key_ok_def temp_example empty_cache_def)
  have "touches {''/c/tmp-7'', ''/c/ab/ab12-d'', ''/c/ab/ab12-m'', ''/c/ab/ab12-m'' @ ''.tmp''} example_body t"
    by (rule install_touches [OF i]) (simp_all add: empty_cache_def body_path_def metadata_path_def)
  then have "sys_files t ''/c'' = None"
    by (simp add: touches_def example_body_def)
  then obtain fresh u where "new_disk_cache ''/c'' 1000 t = (Inr fresh, u)"
    using new_disk_cache_opens [OF nf, of "''/c''" 1000] by auto
  with restart_then_lookup [OF k tmp wf_example_metadata i nf, of 1000 fresh u] i show ?thesis
    by (auto simp: empty_cache_def)
qed

text \<open>
  A failed \<open>Install\<close> loses nothing: whatever system call fails, the index is exactly as before
  and no other entry's body or metadata file changes.
\<close>

theorem install_error_frame:
  assumes "install a tmp m dc s = Some (Inl e, dc', t)" and "key_ok a"
    and "tmp = temp_name (dc_dir dc) n"
  shows "dc' = dc \<and> (\<forall>k bk mk. k \<noteq> a \<longrightarrow> body_path (dc_dir dc) k = Some bk \<longrightarrow>
      metadata_path (dc_dir dc) k = Some mk \<longrightarrow>
      sys_files t bk = sys_files s bk \<and> sys_files t mk = sys_files s mk)"
  using install_index(6) [OF assms(1)] install_other_paths [OF assms(1, 3, 2)] by blast

theorem install_error_frame_witness:
  "\<exists>e dc' t. install ''ab12'' ''/c/tmp-7'' example_metadata (empty_cache ''/c'' 1000) example_sys = Some (Inl e, dc', t)
    \<and> dc' = empty_cache ''/c'' 1000 \<and> sys_files t ''/c/cd/cd34-d'' = None"
proof -
  have "ensure_dir ''/c/ab'' example_sys = (Inr (), called example_sys)"
    by (rule ensure_dir_exists) simp_all
  then obtain e dc' t where i:
    "install ''ab12'' ''/c/tmp-7'' example_metadata (empty_cache ''/c'' 1000) example_sys = Some (Inl e, dc', t)"
    by (simp add: install_def body_path_def metadata_path_def empty_cache_def filepath_dir_def rename_def)
      (simp add: example_sys_def)
  have "key_ok ''ab12''" "''/c/tmp-7'' = temp_name (dc_dir (empty_cache ''/c'' 1000)) 7"
    by (simp_all add: key_ok_def temp_example empty_cache_def)
  note frame = install_error_frame [OF i this]
  then have "dc' = empty_cache ''/c'' 1000" by (rule conjunct1)
  moreover have "sys_files t ''/c/cd/cd34-d'' = sys_files example_sys ''/c/cd/cd34-d''"
    using conjunct2 [OF frame, rule_format, of "''cd34''" "''/c/cd/cd34-d''" "''/c/cd/cd34-m''"]
    by (simp add: empty_cache_def body_path_def metadata_path_def)
  ultimately have "dc' = empty_cache ''/c'' 1000" "sys_files t ''/c/cd/cd34-d'' = None"
    by (simp_all add: example_sys_def)
  with i show ?thesis by blast
qed

text \<open>
  A lookup that finds a cached entry's body gone reports a miss with its metadata and marks the
  entry, but leaves the running total as it was: the total then exceeds the sum of the present
  bodies by the size of the lost one.
\<close>

lemma lookup_gone_total:
  assumes "dc_ok dc" and "accounted dc" and "dc_entries dc a = Some e" and "e_meta e = Some m"
    and "e_hasBody e" and "e_bodyPath e \<noteq> []" and "\<not> on_disk s (e_bodyPath e)"
  shows "\<exists>dc'. lookup a dc s = Some ((Some m, [], False), dc', called s)
    \<and> dc_total dc' = i64 (body_sum dc' + e_size e)"
proof -
  have "fst (stat (e_bodyPath e) s) = Inl io_error \<or> fst (stat (e_bodyPath e) s) = Inl not_exist"
    using assms(7) by (auto simp: stat_def on_disk_def)
  then obtain x where "stat (e_bodyPath e) s = (Inl x, called s)"
    using stat_state [of "e_bodyPath e" s] by (metis prod.collapse)
  with assms have "lookup a dc s = Some ((Some m, [], False), mark_evicted a dc, called s)"
    by (simp add: lookup_def cached_meta_def lookup_cached_def)
  moreover have "body_sum (mark_evicted a dc) = body_sum dc - e_size e"
    using body_sum_mark_evicted [OF assms(1), of a] assms(3, 5) by simp
  ultimately show ?thesis using assms(2) by (simp add: accounted_def)
qed

definition example_entry :: "string \<Rightarrow> int \<Rightarrow> time \<Rightarrow> entry" where
  "example_entry k n t = \<lparr>e_key = k, e_size = n, e_access = t, e_hasBody = True,
     e_meta = Some example_metadata, e_bodyPath = ''/c/ab/'' @ k @ ''-d''\<rparr>"

definition example_index :: disk_cache where
  "example_index = (empty_cache ''/c'' 100)\<lparr>dc_total := 90,
     dc_entries := [''ab12'' \<mapsto> example_entry ''ab12'' 40 5, ''ab34'' \<mapsto> example_entry ''ab34'' 50 3],
     dc_pinned := {''ab12''}\<rparr>"

lemma example_index_ok [simp]: "dc_ok example_index" "accounted example_index"
  by (auto simp: dc_ok_def accounted_def body_sum_def example_index_def empty_cache_def example_entry_def
      body_path_def i64_def split: if_splits)

lemma example_index_entries [simp]:
  "dc_entries example_index = [''ab12'' \<mapsto> example_entry ''ab12'' 40 5, ''ab34'' \<mapsto> example_entry ''ab34'' 50 3]"
  "dc_dir example_index = ''/c''" "dc_pinned example_index = {''ab12''}"
  by (simp_all add: example_index_def empty_cache_def)

lemma lookup_gone_example:
  "\<exists>dc'. lookup ''ab12'' example_index example_sys = Some ((Some example_metadata, [], False), dc', called example_sys)
    \<and> dc_total dc' = i64 (body_sum dc' + 40)"
  using lookup_gone_total [of example_index "''ab12''" "example_entry ''ab12'' 40 5" example_metadata example_sys]
  by (simp add: example_entry_def on_disk_def) (simp add: example_sys_def)

end
