(* ===== verification/Get.thy ===== *)
theory Get
  imports Protocol Synthetic Disk
begin

text \<open>
  \<open>internal/handler/get.go\<close>: a \<open>get\<close> is answered from the disk cache, from the remote storage when
  only the metadata is left, or from the remote action cache. A node is one process: its disk cache,
  the world its system and remote calls act on, the cache of synthetic digests, and the uploads that
  earlier \<open>put\<close>s have started.
\<close>

record populate =
  pp_actionIDHex :: string
  pp_outputIDHex :: string
  pp_body :: path
  pp_digest :: digest

record 'v node =
  n_cache :: disk_cache
  n_world :: "'v world"
  n_synthetic :: synthetic_cache
  n_tasks :: "populate list"
  n_closed :: bool

text \<open>The fixed part of a \<open>Handler\<close>; \<open>h_marshal\<close> and \<open>h_dir\<close> are what \<open>package reapi\<close> holds.\<close>

record 'v handler =
  h_client :: "'v client option"
  h_maxArtifactSize :: int
  h_marshal :: marshal
  h_dir :: "bytes \<times> digest"

definition on_world :: "('v world \<Rightarrow> 'r \<times> 'v world) \<Rightarrow> 'v node \<Rightarrow> 'r \<times> 'v node" where
  "on_world f n = (case f (n_world n) of (r, w) \<Rightarrow> (r, n\<lparr>n_world := w\<rparr>))"

definition on_sys :: "(sys \<Rightarrow> 'r \<times> sys) \<Rightarrow> 'v node \<Rightarrow> 'r \<times> 'v node" where
  "on_sys f n = on_world (call_sys f) n"

definition on_cache ::
    "(disk_cache \<Rightarrow> sys \<Rightarrow> ('r \<times> disk_cache \<times> sys) option) \<Rightarrow> 'v node \<Rightarrow> ('r \<times> 'v node) option" where
  "on_cache f n =
     (case f (n_cache n) (w_sys (n_world n)) of
        None \<Rightarrow> None
      | Some (r, dc, s) \<Rightarrow> Some (r, n\<lparr>n_cache := dc, n_world := (n_world n)\<lparr>w_sys := s\<rparr>\<rparr>))"

text \<open>The same for an operation without a result.\<close>

definition update_cache :: "(disk_cache \<Rightarrow> sys \<Rightarrow> (disk_cache \<times> sys) option) \<Rightarrow> 'v node \<Rightarrow> 'v node option" where
  "update_cache f n =
     (case f (n_cache n) (w_sys (n_world n)) of
        None \<Rightarrow> None
      | Some (dc, s) \<Rightarrow> Some (n\<lparr>n_cache := dc, n_world := (n_world n)\<lparr>w_sys := s\<rparr>\<rparr>))"

definition remove_temp :: "path \<Rightarrow> 'v node \<Rightarrow> 'v node" where
  "remove_temp p n = snd (on_sys (\<lambda>s. ((), remove p s)) n)"

definition miss_response :: "request \<Rightarrow> response" where
  "miss_response req = zero_response\<lparr>rs_id := rq_id req, rs_miss := True\<rparr>"

definition hit_response :: "request \<Rightarrow> bytes \<Rightarrow> int \<Rightarrow> path \<Rightarrow> time \<Rightarrow> response" where
  "hit_response req outputID len p t =
     zero_response\<lparr>rs_id := rq_id req, rs_outputID := outputID, rs_size := len, rs_diskPath := p, rs_time := t\<rparr>"

subsection \<open>Downloading a body\<close>

text \<open>The download writes to the temporary file and to the hash; both start empty.\<close>

definition download_to :: "'v client \<Rightarrow> digest \<Rightarrow> path \<Rightarrow> 'v world \<Rightarrow> (err option \<times> bytes) \<times> 'v world" where
  "download_to c d tmp w = (case download_blob c d tmp ([], w) of (e, hashed, w1) \<Rightarrow> ((e, hashed), w1))"

definition mismatch :: "string \<Rightarrow> int \<Rightarrow> digest \<Rightarrow> err" where
  "mismatch got len d = Plain (''digest mismatch: got '' @ got @ ''/'' @ show_int len @ '', want '' @ d_hash d
     @ ''/'' @ show_int (d_size d))"

definition download_and_install ::
    "'v client \<Rightarrow> string \<Rightarrow> digest \<Rightarrow> metadata \<Rightarrow> 'v node \<Rightarrow> ((err + path) \<times> 'v node) option" where
  "download_and_install c a d m n =
     (case on_sys (temp_file (n_cache n)) n of
        (Inl e, n1) \<Rightarrow> Some (Inl e, n1)
      | (Inr tmp, n1) \<Rightarrow>
         (case on_world (download_to c d tmp) n1 of
            ((Some e, hashed), n2) \<Rightarrow> Some (Inl e, remove_temp tmp (snd (on_sys (close_file tmp) n2)))
          | ((None, hashed), n2) \<Rightarrow>
             (case on_sys (close_file tmp) n2 of
                (Inl e, n3) \<Rightarrow> Some (Inl e, remove_temp tmp n3)
              | (Inr _, n3) \<Rightarrow>
                 (case on_sys (stat tmp) n3 of
                    (Inl e, n4) \<Rightarrow> Some (Inl e, remove_temp tmp n4)
                  | (Inr info, n4) \<Rightarrow>
                     (let got = hex_encode_fixed (sha256 hashed) in
                      if got \<noteq> d_hash d \<or> fi_size info \<noteq> d_size d
                      then Some (Inl (mismatch got (fi_size info) d), remove_temp tmp n4)
                      else on_cache (install a tmp m) n4)))))"

subsection \<open>Answering a get\<close>

definition refill_from_cas ::
    "'v client \<Rightarrow> request \<Rightarrow> string \<Rightarrow> metadata \<Rightarrow> 'v node \<Rightarrow> (response option \<times> 'v node) option" where
  "refill_from_cas c req a m n =
     (case download_and_install c a \<lparr>d_hash = m_casHash m, d_size = m_casSize m\<rparr> m n of
        None \<Rightarrow> None
      | Some (Inl e, n1) \<Rightarrow> Some (None, n1)
      | Some (Inr p, n1) \<Rightarrow>
         (case hex_decode (m_outputIDHex m) of
            Inl e \<Rightarrow> Some (None, n1)
          | Inr outputID \<Rightarrow> Some (Some (hit_response req outputID (m_size m) p (m_time m)), n1)))"

definition remote_ac_lookup ::
    "'v handler \<Rightarrow> 'v client \<Rightarrow> ctx \<Rightarrow> request \<Rightarrow> string \<Rightarrow> 'v node \<Rightarrow> (response \<times> 'v node) option" where
  "remote_ac_lookup h c ctx req a n =
     (case compute_synthetic_digests (h_marshal h) (h_dir h) a (n_synthetic n) of
        (Inl e, cache) \<Rightarrow> Some (miss_response req, n\<lparr>n_synthetic := cache\<rparr>)
      | (Inr sd, cache) \<Rightarrow>
         (case on_world (get_action_result c ctx (sd_actionDigest sd)) (n\<lparr>n_synthetic := cache\<rparr>) of
            (Inl e, n1) \<Rightarrow> Some (miss_response req, n1)
          | (Inr None, n1) \<Rightarrow> Some (miss_response req, n1)
          | (Inr (Some ar), n1) \<Rightarrow>
             (case ar_output_files ar of
                [] \<Rightarrow> Some (miss_response req, n1)
              | out # _ \<Rightarrow>
                 (let d = digest_from_proto (of_digest out) in
                  case hex_decode (of_path out) of
                    Inl e \<Rightarrow> Some (miss_response req, n1)
                  | Inr outputID \<Rightarrow>
                     (case on_sys now n1 of
                        (t, n2) \<Rightarrow>
                         (let m = \<lparr>m_outputIDHex = of_path out, m_size = d_size d, m_time = t,
                                   m_casHash = d_hash d, m_casSize = d_size d\<rparr> in
                          case download_and_install c a d m n2 of
                            None \<Rightarrow> None
                          | Some (Inl e, n3) \<Rightarrow> Some (miss_response req, n3)
                          | Some (Inr p, n3) \<Rightarrow>
                              Some (hit_response req outputID (d_size d) p (m_time m), n3)))))))"

text \<open>Each caller of a shared lookup copies the response under its own request's id.\<close>

definition copy_response :: "request \<Rightarrow> response \<Rightarrow> response" where
  "copy_response req orig =
     \<lparr>rs_id = rq_id req, rs_err = rs_err orig, rs_miss = rs_miss orig, rs_outputID = rs_outputID orig,
      rs_size = rs_size orig, rs_time = rs_time orig, rs_diskPath = rs_diskPath orig, rs_knownCommands = []\<rparr>"

text \<open>
  Step 3. \<open>shared\<close> is \<open>singleflight\<close>: the response of a lookup of the same key that was under way and
  whose result this caller waits for, or \<open>None\<close> when the caller does the lookup itself.
\<close>

definition lookup_remote ::
    "'v handler \<Rightarrow> ctx \<Rightarrow> response option \<Rightarrow> request \<Rightarrow> string \<Rightarrow> 'v node \<Rightarrow> (response \<times> 'v node) option" where
  "lookup_remote h ctx shared req a n =
     (case h_client h of
        None \<Rightarrow> Some (miss_response req, n)
      | Some c \<Rightarrow>
         (case shared of
            Some orig \<Rightarrow> Some (copy_response req orig, n)
          | None \<Rightarrow>
             (case remote_ac_lookup h c ctx req a n of
                None \<Rightarrow> None
              | Some (orig, n1) \<Rightarrow> Some (copy_response req orig, n1))))"

definition handle_get ::
    "'v handler \<Rightarrow> ctx \<Rightarrow> response option \<Rightarrow> request \<Rightarrow> 'v node \<Rightarrow> (response \<times> 'v node) option" where
  "handle_get h ctx shared req n =
     (let a = hex_encode (rq_actionID req) in
      case on_cache (lookup a) n of
        None \<Rightarrow> None
      | Some ((None, bp, True), n1) \<Rightarrow> None
      | Some ((Some m, bp, True), n1) \<Rightarrow>
         (case hex_decode (m_outputIDHex m) of
            Inl e \<Rightarrow>
              map_option (\<lambda>n2. (miss_response req, n2)) (update_cache (remove_entry a) n1)
          | Inr outputID \<Rightarrow> Some (hit_response req outputID (m_size m) bp (m_time m), n1))
      | Some ((None, bp, False), n1) \<Rightarrow> lookup_remote h ctx shared req a n1
      | Some ((Some m, bp, False), n1) \<Rightarrow>
         (case h_client h of
            None \<Rightarrow> lookup_remote h ctx shared req a n1
          | Some c \<Rightarrow>
             (case refill_from_cas c req a m n1 of
                None \<Rightarrow> None
              | Some (Some resp, n2) \<Rightarrow> Some (resp, n2)
              | Some (None, n2) \<Rightarrow> lookup_remote h ctx shared req a n2)))"


subsection \<open>What a download does\<close>

abbreviation n_sys :: "'v node \<Rightarrow> sys" where
  "n_sys n \<equiv> w_sys (n_world n)"

abbreviation temps :: "path \<Rightarrow> path set" where
  "temps dir \<equiv> range (temp_name dir)"

text \<open>Only temporary files change: the part of the file system that lookups see is left alone.\<close>

definition quiet_sys :: "path \<Rightarrow> sys \<Rightarrow> sys \<Rightarrow> bool" where
  "quiet_sys dir s t \<longleftrightarrow> touches (temps dir) s t \<and> sys_dirs t = sys_dirs s"

lemma quiet_sys_refl [simp]: "quiet_sys dir s s"
  by (simp add: quiet_sys_def)

lemma quiet_sys_trans [trans]: "quiet_sys dir s t \<Longrightarrow> quiet_sys dir t u \<Longrightarrow> quiet_sys dir s u"
  by (auto simp: quiet_sys_def intro: touches_trans)

lemma quiet_sys_called [simp]: "quiet_sys dir s (called s)"
  by (simp add: quiet_sys_def)

lemma quiet_sys_calls:
  "quiet_sys dir s (snd (now s))" "quiet_sys dir s (snd (random s))" "quiet_sys dir s (snd (stat p s))"
  "quiet_sys dir s (snd (open_file p s))" "quiet_sys dir s (snd (read_file p s))"
  "quiet_sys dir s (snd (close_file p s))" "quiet_sys dir s (snd (create_temp dir s))"
  "p \<in> temps dir \<Longrightarrow> quiet_sys dir s (remove p s)"
  "p \<in> temps dir \<Longrightarrow> quiet_sys dir s (snd (write_data p data s))"
  by (auto simp: quiet_sys_def call_defs touches_def same_oracles_def Let_def split: option.splits)

lemma create_temp_ok:
  "create_temp dir s = (Inr p, t) \<Longrightarrow>
   p \<in> temps dir \<and> (\<exists>f. sys_files t p = Some f \<and> f_data f = [])"
  by (auto simp: create_temp_def Let_def split: if_splits)

text \<open>A download writes its own file only.\<close>

definition only_file :: "path \<Rightarrow> sys \<Rightarrow> sys \<Rightarrow> bool" where
  "only_file p s t \<longleftrightarrow> touches {p} s t \<and> sys_dirs t = sys_dirs s"

lemma only_file_refl [simp]: "only_file p s s"
  by (simp add: only_file_def)

lemma only_file_trans [trans]: "only_file p s t \<Longrightarrow> only_file p t u \<Longrightarrow> only_file p s u"
  by (auto simp: only_file_def intro: touches_trans)

lemma only_file_quiet: "only_file p s t \<Longrightarrow> p \<in> temps dir \<Longrightarrow> quiet_sys dir s t"
  unfolding only_file_def quiet_sys_def by (meson empty_subsetI insert_subset touches_mono)

lemma only_file_write: "only_file p s (snd (write_data p data s))"
  by (auto simp: only_file_def call_defs touches_def same_oracles_def split: option.splits)

text \<open>The temporary file holds what was hashed.\<close>

definition holds :: "path \<Rightarrow> bytes \<times> 'v world \<Rightarrow> bool" where
  "holds p hw \<longleftrightarrow> (\<exists>f. sys_files (w_sys (snd hw)) p = Some f \<and> f_data f = fst hw)"

definition keeps_file :: "path \<Rightarrow> bytes \<times> 'v world \<Rightarrow> err option \<times> bytes \<times> 'v world \<Rightarrow> bool" where
  "keeps_file p hw r \<longleftrightarrow> only_file p (w_sys (snd hw)) (w_sys (snd (snd r)))
     \<and> (sys_files (w_sys (snd hw)) p \<noteq> None \<longrightarrow> sys_files (w_sys (snd (snd r))) p \<noteq> None)
     \<and> (holds p hw \<longrightarrow> fst r = None \<longrightarrow> holds p (snd r))"

lemma keeps_file_self [simp]: "keeps_file p hw (e, hw)" "keeps_file p (h, w) (e, h, w)"
  by (simp_all add: keeps_file_def)

lemma keeps_file_trans:
  "keeps_file p hw (None, hw1) \<Longrightarrow> keeps_file p hw1 r \<Longrightarrow> keeps_file p hw r"
  by (auto simp: keeps_file_def intro: only_file_trans)

lemma keeps_file_same_sys:
  "w_sys w1 = w_sys (snd hw) \<Longrightarrow> keeps_file p (fst hw, w1) r \<Longrightarrow> keeps_file p hw r"
  by (simp add: keeps_file_def holds_def)

lemma multi_write_keeps: "keeps_file p hw (multi_write p data hw)"
proof -
  obtain h w where hw: "hw = (h, w)" by (cases hw)
  obtain x s where wd: "write_data p data (w_sys w) = (x, s)" by (cases "write_data p data (w_sys w)")
  have "only_file p (w_sys w) s" using only_file_write [of p "w_sys w" data] wd by simp
  moreover have "sys_files (w_sys w) p \<noteq> None \<longrightarrow> sys_files s p \<noteq> None"
    using wd by (auto simp: write_data_def append_data_def split: option.splits)
  moreover have "\<exists>g. sys_files s p = Some g \<and> f_data g = f_data f @ data"
    if "sys_files (w_sys w) p = Some f" "x = Inr u" for f u
    using that wd by (auto simp: write_data_def append_data_def split: option.splits)
  ultimately show ?thesis
    using wd by (cases x) (auto simp: multi_write_def keeps_file_def holds_def hw call_sys_def)
qed

lemma write_responses_keeps: "keeps_file p hw (write_responses p rs hw)"
proof (induction rs arbitrary: hw)
  case (Cons r rs)
  obtain x hw1 where m: "multi_write p (rr_data r) hw = (x, hw1)" by (cases "multi_write p (rr_data r) hw")
  show ?case
    using multi_write_keeps [of p hw "rr_data r"] m keeps_file_trans [OF _ Cons.IH, of hw hw1]
    by (cases x) (simp_all add: keeps_file_def)
qed simp

lemma receive_chunks_keeps: "keeps_file p hw (receive_chunks p chunks e hw)"
proof (induction p chunks e hw rule: receive_chunks.induct)
  case (3 p data rest e hw)
  note one = multi_write_keeps [of p hw data]
  obtain x hw1 where m: "multi_write p data hw = (x, hw1)" by (cases "multi_write p data hw")
  show ?case
  proof (cases x)
    case None
    with m have "keeps_file p hw1 (receive_chunks p rest e hw1)" using 3 by simp
    with one m None show ?thesis by (auto intro: keeps_file_trans)
  qed (use one m in \<open>simp add: keeps_file_def\<close>)
qed simp_all

lemma download_blob_keeps: "keeps_file p hw (download_blob c d p hw)"
proof -
  have batch: "keeps_file p hw (batch_download c d p hw)"
  proof -
    obtain x w1 where r: "call_srv (batch_read_blobs (cl_server c) (cl_instance c) [to_proto d]) (snd hw) = (x, w1)"
      by (cases "call_srv (batch_read_blobs (cl_server c) (cl_instance c) [to_proto d]) (snd hw)")
    then have "w_sys w1 = w_sys (snd hw)" by (metis call_srv_frame(3) snd_conv)
    note same = keeps_file_same_sys [OF this, of p]
    from r write_responses_keeps show ?thesis
      by (cases x) (auto simp: batch_download_def intro!: same)
  qed
  have stream: "keeps_file p hw (byte_stream_download c d p hw)"
  proof -
    obtain x w1 where r: "call_srv (stream_read (cl_server c) (read_resource c d) 0) (snd hw) = (x, w1)"
      by (cases "call_srv (stream_read (cl_server c) (read_resource c d) 0) (snd hw)")
    then have "w_sys w1 = w_sys (snd hw)" by (metis call_srv_frame(3) snd_conv)
    note same = keeps_file_same_sys [OF this, of p]
    from r receive_chunks_keeps show ?thesis
      by (cases x) (auto simp: byte_stream_download_def split: prod.split intro!: same)
  qed
  from batch stream show ?thesis by (simp add: download_blob_def)
qed


text \<open>The same on a node: index, digests and started uploads stay as they are.\<close>

definition quiet :: "'v node \<Rightarrow> 'v node \<Rightarrow> bool" where
  "quiet n n' \<longleftrightarrow> n_cache n' = n_cache n \<and> n_synthetic n' = n_synthetic n \<and> n_tasks n' = n_tasks n
     \<and> n_closed n' = n_closed n \<and> quiet_sys (dc_dir (n_cache n)) (n_sys n) (n_sys n')"

lemma quiet_refl [simp]: "quiet n n"
  by (simp add: quiet_def)

lemma quiet_trans [trans]: "quiet n n' \<Longrightarrow> quiet n' n'' \<Longrightarrow> quiet n n''"
  by (auto simp: quiet_def intro: quiet_sys_trans)

lemma on_world_eq: "on_world f n = (r, n') \<longleftrightarrow> f (n_world n) = (r, n_world n') \<and> n' = n\<lparr>n_world := n_world n'\<rparr>"
  by (cases n; cases n') (auto simp: on_world_def split: prod.splits)

lemma on_sys_eq:
  "on_sys f n = (r, n') \<longleftrightarrow>
   f (n_sys n) = (r, n_sys n') \<and> n' = n\<lparr>n_world := (n_world n)\<lparr>w_sys := n_sys n'\<rparr>\<rparr>"
  by (cases n; cases n'; cases "n_world n") (auto simp: on_sys_def on_world_def call_sys_def split: prod.splits)

lemma on_sys_quiet:
  assumes "on_sys f n = (r, n')" and "quiet_sys (dc_dir (n_cache n)) (n_sys n) (snd (f (n_sys n)))"
  shows "quiet n n'"
  using assms unfolding on_sys_eq quiet_def by (metis node.select_convs(1,3-5) node.surjective node.update_convs(2) snd_conv)

lemma on_sys_srv: "on_sys f n = (r, n') \<Longrightarrow> w_srv (n_world n') = w_srv (n_world n)"
  unfolding on_sys_eq by (metis node.select_convs(2) node.surjective node.update_convs(2) world.select_convs(2) world.surjective world.update_convs(1))

lemma remove_temp_quiet: "p \<in> temps (dc_dir (n_cache n)) \<Longrightarrow> quiet n (remove_temp p n)"
proof -
  assume "p \<in> temps (dc_dir (n_cache n))"
  then have "quiet_sys (dc_dir (n_cache n)) (n_sys n) (remove p (n_sys n))" by (rule quiet_sys_calls(8))
  then show ?thesis
    by (simp add: remove_temp_def on_sys_def on_world_def call_sys_def quiet_def)
qed

lemma close_temp_quiet: "quiet n (snd (on_sys (close_file p) n))"
  by (cases "on_sys (close_file p) n") (auto intro: on_sys_quiet quiet_sys_calls)

lemma download_to_only:
  assumes "download_to c d p w = ((e, hashed), w')"
  shows "only_file p (w_sys w) (w_sys w')" and "holds p ([], w) \<Longrightarrow> e = None \<Longrightarrow> holds p (hashed, w')"
    and "sys_files (w_sys w) p \<noteq> None \<Longrightarrow> sys_files (w_sys w') p \<noteq> None"
  using assms download_blob_keeps [of p "([], w)" c d]
  by (auto simp: download_to_def keeps_file_def split: prod.splits)

lemma download_to_quiet:
  assumes "on_world (download_to c d p) n = ((e, hashed), n')" and "p \<in> temps (dc_dir (n_cache n))"
  shows "quiet n n'" and "holds p ([], n_world n) \<Longrightarrow> e = None \<Longrightarrow> holds p (hashed, n_world n')"
  using assms download_to_only [of c d p "n_world n" e hashed "n_world n'"] only_file_quiet [OF _ assms(2)]
  unfolding on_world_eq quiet_def
  by (metis node.select_convs(1,3-5) node.surjective node.update_convs(2))+

lemma temp_file_quiet:
  assumes "on_sys (temp_file (n_cache n)) n = (r, n')"
  shows "quiet n n'" and "r = Inr p \<Longrightarrow> p \<in> temps (dc_dir (n_cache n)) \<and> holds p ([], n_world n')"
proof -
  show "quiet n n'"
    by (rule on_sys_quiet [OF assms]) (simp add: temp_file_def quiet_sys_calls)
  show "p \<in> temps (dc_dir (n_cache n)) \<and> holds p ([], n_world n')" if "r = Inr p"
    using assms that create_temp_ok [of "dc_dir (n_cache n)" "n_sys n" p "n_sys n'"]
    by (simp add: on_sys_eq temp_file_def holds_def)
qed

lemma holds_called: "holds p (h, w\<lparr>w_sys := called (w_sys w)\<rparr>) = holds p (h, w)"
  by (simp add: holds_def)

lemma on_sys_holds:
  assumes "on_sys f n = (r, n')" and "snd (f (n_sys n)) = called (n_sys n)"
  shows "holds p (h, n_world n') = holds p (h, n_world n)"
  using assms by (auto simp: on_sys_eq holds_def)

lemma stat_holds: "stat p s = (Inr info, t) \<Longrightarrow> sys_files s p = Some f \<Longrightarrow> fi_size info = int (length (f_data f))"
  by (auto simp: stat_def split: if_splits)

lemma download_and_install_cases [consumes 1, case_names failed installed]:
  assumes "download_and_install c a d m n = Some (r, n')"
  obtains e where "r = Inl e" and "quiet n n'"
  | tmp n1 f where "quiet n n1" and "tmp \<in> temps (dc_dir (n_cache n))" and "sys_files (n_sys n1) tmp = Some f"
      and "hex_encode (sha256 (f_data f)) = d_hash d" and "int (length (f_data f)) = d_size d"
      and "on_cache (install a tmp m) n1 = Some (r, n')"
proof -
  obtain x n1 where t: "on_sys (temp_file (n_cache n)) n = (x, n1)" by (cases "on_sys (temp_file (n_cache n)) n")
  note q1 = temp_file_quiet(1) [OF t]
  show thesis
  proof (cases x)
    case (Inl e)
    with assms t have "r = Inl e" "n' = n1" by (auto simp: download_and_install_def)
    with q1 that(1) show thesis by simp
  next
    case (Inr tmp)
    have tmp: "tmp \<in> temps (dc_dir (n_cache n))" "holds tmp ([], n_world n1)" and dir: "n_cache n1 = n_cache n"
      using temp_file_quiet(2) [OF t Inr] q1 by (simp_all add: quiet_def)
    obtain de hashed n2 where dl: "on_world (download_to c d tmp) n1 = ((de, hashed), n2)" by (metis prod.collapse)
    have q2: "quiet n n2" using download_to_quiet(1) [OF dl] tmp dir q1 by (auto intro: quiet_trans)
    obtain y n3 where cl: "on_sys (close_file tmp) n2 = (y, n3)" by (cases "on_sys (close_file tmp) n2")
    have q3: "quiet n n3" using close_temp_quiet [of n2 tmp] cl q2 by (auto intro: quiet_trans)
    obtain z n4 where st: "on_sys (stat tmp) n3 = (z, n4)" by (cases "on_sys (stat tmp) n3")
    have q4: "quiet n n4" using on_sys_quiet [OF st] q3 by (auto intro: quiet_trans quiet_sys_calls)
    have rm: "quiet n (remove_temp tmp n0)" if "quiet n n0" for n0
      using that remove_temp_quiet [of tmp n0] tmp(1) by (auto simp: quiet_def intro: quiet_sys_trans)
    consider (bad) e where "r = Inl e" "quiet n n'"
      | (good) info where "de = None" "z = Inr info" "hex_encode (sha256 hashed) = d_hash d"
          "fi_size info = d_size d" "on_cache (install a tmp m) n4 = Some (r, n')"
      using assms t Inr dl cl st q3 q4 rm
      by (cases de; cases y; cases z)
        (auto simp: download_and_install_def Let_def hex_encode_def split: if_splits)
    then show thesis
    proof cases
      case good
      have "holds tmp (hashed, n_world n2)"
        using download_to_quiet(2) [OF dl] tmp dir good(1) by simp
      then have "holds tmp (hashed, n_world n3)" using on_sys_holds [OF cl] by simp
      then obtain f where f: "sys_files (n_sys n3) tmp = Some f" "f_data f = hashed" by (auto simp: holds_def)
      moreover have "sys_files (n_sys n4) tmp = Some f"
        using f(1) calls_file(2) st unfolding on_sys_eq by metis
      moreover have "fi_size info = int (length (f_data f))"
        using stat_holds [of tmp "n_sys n3" info "n_sys n4" f] st f(1) good(2) by (simp add: on_sys_eq)
      ultimately show thesis using that(2) [OF q4 tmp(1)] good by simp
    qed (rule that(1))
  qed
qed

end
