(* ===== verification/Put.thy ===== *)
theory Put
  imports Get
begin

text \<open>
  \<open>internal/handler/put.go\<close>: a \<open>put\<close> stores its body in the disk cache and starts the upload of the
  body, of the synthetic action and of its result to the remote cache.
\<close>

subsection \<open>Storing the body\<close>

definition write_body_to_temp :: "bytes \<Rightarrow> 'v node \<Rightarrow> (err + digest \<times> path) \<times> 'v node" where
  "write_body_to_temp body n =
     (case on_sys (temp_file (n_cache n)) n of
        (Inl e, n1) \<Rightarrow> (Inl e, n1)
      | (Inr tmp, n1) \<Rightarrow>
         (case on_sys (write_data tmp body) n1 of
            (Inl e, n2) \<Rightarrow> (Inl e, remove_temp tmp (snd (on_sys (close_file tmp) n2)))
          | (Inr _, n2) \<Rightarrow>
             (case on_sys (close_file tmp) n2 of
                (Inl e, n3) \<Rightarrow> (Inl e, remove_temp tmp n3)
              | (Inr _, n3) \<Rightarrow>
                  (Inr (\<lparr>d_hash = hex_encode (sha256 body), d_size = int (length body)\<rparr>, tmp), n3))))"

definition put_error :: "request \<Rightarrow> string \<Rightarrow> response" where
  "put_error req msg = zero_response\<lparr>rs_id := rq_id req, rs_err := msg\<rparr>"

definition handle_put :: "'v handler \<Rightarrow> request \<Rightarrow> 'v node \<Rightarrow> (response \<times> 'v node) option" where
  "handle_put h req n =
     (if 0 < h_maxArtifactSize h \<and> h_maxArtifactSize h < rq_bodySize req
      then Some (put_error req (''artifact too large: '' @ show_int (rq_bodySize req) @ '' bytes exceeds limit ''
                   @ show_int (h_maxArtifactSize h)), n)
      else
        let a = hex_encode (rq_actionID req); outputIDHex = hex_encode (rq_outputID req) in
        case write_body_to_temp (rq_body req) n of
          (Inl e, n1) \<Rightarrow> Some (put_error req (''write body: '' @ err_text e), n1)
        | (Inr (d, tmp), n1) \<Rightarrow>
           (case on_sys now n1 of
              (t, n2) \<Rightarrow>
               (let m = \<lparr>m_outputIDHex = outputIDHex, m_size = rq_bodySize req, m_time = t,
                         m_casHash = d_hash d, m_casSize = d_size d\<rparr> in
                case on_cache (install a tmp m) n2 of
                  None \<Rightarrow> None
                | Some (Inl e, n3) \<Rightarrow> Some (put_error req (''local install: '' @ err_text e), n3)
                | Some (Inr p, n3) \<Rightarrow>
                    Some (zero_response\<lparr>rs_id := rq_id req, rs_diskPath := p\<rparr>,
                          if h_client h = None then n3
                          else n3\<lparr>n_tasks := n_tasks n3 @
                                 [\<lparr>pp_actionIDHex = a, pp_outputIDHex = outputIDHex, pp_body = p, pp_digest = d\<rparr>]\<rparr>))))"

subsection \<open>Uploading\<close>

text \<open>The blobs of the synthetic action, and the loop that uploads them.\<close>

definition proto_blobs :: "synthetic_digests \<Rightarrow> (bytes \<times> digest) list" where
  "proto_blobs sd =
     [(sd_commandData sd, sd_commandDigest sd), (sd_dirData sd, sd_dirDigest sd),
      (sd_actionData sd, sd_actionDigest sd)]"

fun upload_protos :: "'v client \<Rightarrow> (bytes \<times> digest) list \<Rightarrow> 'v world \<Rightarrow> err option \<times> 'v world" where
  "upload_protos c [] w = (None, w)"
| "upload_protos c ((data, d) # rest) w =
     (case upload_blob c None d data w of
        (Some e, w1) \<Rightarrow> (Some e, w1)
      | (None, w1) \<Rightarrow> upload_protos c rest w1)"

text \<open>The body, then the blobs of the action; \<open>again\<close> marks the errors of a second round.\<close>

definition upload_all ::
    "'v client \<Rightarrow> string \<Rightarrow> string \<Rightarrow> path \<Rightarrow> digest \<Rightarrow> synthetic_digests \<Rightarrow> 'v world \<Rightarrow> err option \<times> 'v world"
where
  "upload_all c body_msg proto_msg p d sd w =
     (case upload_file c None p d w of
        (Some e, w1) \<Rightarrow> (Some (Wrapped body_msg e), w1)
      | (None, w1) \<Rightarrow>
         (case upload_protos c (proto_blobs sd) w1 of
            (Some e, w2) \<Rightarrow> (Some (Wrapped proto_msg e), w2)
          | (None, w2) \<Rightarrow> (None, w2)))"

text \<open>The result's entry in the action cache, with one more round when the server has lost a blob.\<close>

definition publish ::
    "'v client \<Rightarrow> string \<Rightarrow> path \<Rightarrow> digest \<Rightarrow> synthetic_digests \<Rightarrow> 'v world \<Rightarrow> err option \<times> 'v world" where
  "publish c outputIDHex p d sd w =
     (let ar = synthetic_action_result outputIDHex d in
      case update_action_result c None (sd_actionDigest sd) ar w of
        (None, w1) \<Rightarrow> (None, w1)
      | (Some e, w1) \<Rightarrow>
          if status_code e = FailedPrecondition
          then (case upload_all c ''re-upload body after FAILED_PRECONDITION''
                       ''re-upload proto blob after FAILED_PRECONDITION'' p d sd w1 of
                  (Some e, w2) \<Rightarrow> (Some e, w2)
                | (None, w2) \<Rightarrow>
                   (case update_action_result c None (sd_actionDigest sd) ar w2 of
                      (Some e, w3) \<Rightarrow> (Some (Wrapped ''retry update action result'' e), w3)
                    | (None, w3) \<Rightarrow> (None, w3)))
          else (Some (Wrapped ''update action result'' e), w1))"

definition populate_world ::
    "'v client \<Rightarrow> string \<Rightarrow> path \<Rightarrow> digest \<Rightarrow> synthetic_digests \<Rightarrow> 'v world \<Rightarrow> err option \<times> 'v world" where
  "populate_world c outputIDHex p d sd w =
     (case upload_all c ''upload body'' ''upload proto blob'' p d sd w of
        (Some e, w1) \<Rightarrow> (Some e, w1)
      | (None, w1) \<Rightarrow> if cl_updateEnabled c then publish c outputIDHex p d sd w1 else (None, w1))"

text \<open>Its context is never cancelled (\<open>context.WithoutCancel\<close>).\<close>

definition remote_populate :: "'v handler \<Rightarrow> 'v client \<Rightarrow> populate \<Rightarrow> 'v node \<Rightarrow> err option \<times> 'v node" where
  "remote_populate h c task n =
     (case compute_synthetic_digests (h_marshal h) (h_dir h) (pp_actionIDHex task) (n_synthetic n) of
        (Inl e, cache) \<Rightarrow> (Some (Wrapped ''synthetic digests'' e), n\<lparr>n_synthetic := cache\<rparr>)
      | (Inr sd, cache) \<Rightarrow>
          on_world (populate_world c (pp_outputIDHex task) (pp_body task) (pp_digest task) sd)
            (n\<lparr>n_synthetic := cache\<rparr>))"

text \<open>One of the started uploads runs to its end; its error is only logged.\<close>

definition run_task :: "'v handler \<Rightarrow> nat \<Rightarrow> 'v node \<Rightarrow> 'v node" where
  "run_task h i n =
     (case h_client h of
        None \<Rightarrow> n
      | Some c \<Rightarrow>
          if i < length (n_tasks n)
          then snd (remote_populate h c (n_tasks n ! i)
                 (n\<lparr>n_tasks := take i (n_tasks n) @ drop (Suc i) (n_tasks n)\<rparr>))
          else n)"

end
