(* ===== verification/Remote.thy ===== *)
theory Remote
  imports Cas
begin

text \<open>
  What the client relies on of a remote cache, as a locale, and what its uploads achieve there:
  the contract between \<open>internal/reapi\<close> and the server. The theory \<open>Contract\<close> interprets it.
\<close>

subsection \<open>What calls do to the server\<close>

text \<open>One method call. The flag says whether it is an update of the action cache.\<close>

inductive srv_step :: "'v server \<Rightarrow> bool \<Rightarrow> 'v \<Rightarrow> 'v \<Rightarrow> bool" for srv where
  find: "srv_step srv False v (snd (find_missing_blobs srv i ds v))"
| batch: "srv_step srv False v (snd (batch_update_blobs srv i reqs v))"
| batch_read: "srv_step srv False v (snd (batch_read_blobs srv i ds v))"
| wopen: "srv_step srv False v (snd (write_open srv v))"
| wsend: "srv_step srv False v (snd (write_send srv r v))"
| wclose: "srv_step srv False v (snd (write_close srv v))"
| wcancel: "srv_step srv False v (write_cancel srv v)"
| sread: "srv_step srv False v (snd (stream_read srv name off v))"
| get: "srv_step srv False v (snd (get_action srv i d v))"
| update: "srv_step srv True v (snd (update_action srv i d ar v))"
| capabilities: "srv_step srv False v (snd (get_capabilities srv i v))"

inductive_cases srv_stepE: "srv_step srv upd v v'"

text \<open>Runs of calls, without updates of the action cache and with.\<close>

abbreviation reads_or_uploads :: "'v server \<Rightarrow> 'v \<Rightarrow> 'v \<Rightarrow> bool" where
  "reads_or_uploads srv \<equiv> (srv_step srv False)\<^sup>*\<^sup>*"

lemma call_srv_srv [simp]: "w_srv (snd (call_srv f w)) = snd (f (w_srv w))"
  by (simp add: call_srv_def split: prod.splits)

lemma call_srv_eq: "call_srv f w = (r, w') \<Longrightarrow> f (w_srv w) = (r, w_srv w') \<and> w' = w\<lparr>w_srv := w_srv w'\<rparr>"
  by (auto simp: call_srv_def split: prod.splits)

lemma call_sys_srv [simp]: "w_srv (snd (call_sys f w)) = w_srv w"
  by (simp add: call_sys_def split: prod.splits)

lemma call_sys_eq: "call_sys f w = (r, w') \<Longrightarrow> f (w_sys w) = (r, w_sys w') \<and> w_srv w' = w_srv w"
  by (auto simp: call_sys_def split: prod.splits)

lemma find_missing_call_steps:
  "reads_or_uploads (cl_server c) (w_srv w) (w_srv (snd (find_missing_call c ds w)))"
proof -
  have "w_srv (snd (find_missing_call c ds w)) = snd (find_missing_blobs (cl_server c) (cl_instance c)
      (map (\<lambda>d. fill_proto d empty_proto) ds) (w_srv w))"
    by (auto simp: find_missing_call_def call_srv_def split: prod.splits sum.splits)
  then show ?thesis by (metis r_into_rtranclp find)
qed

lemma batch_upload_call_steps:
  "reads_or_uploads (cl_server c) (w_srv w) (w_srv (snd (batch_upload_call c d data w)))"
proof -
  have "w_srv (snd (batch_upload_call c d data w))
      = snd (batch_update_blobs (cl_server c) (cl_instance c) [(to_proto d, data)] (w_srv w))"
    by (auto simp: batch_upload_call_def call_srv_def split: prod.splits sum.splits)
  then show ?thesis by (metis r_into_rtranclp batch)
qed

lemma get_action_result_call_steps:
  "reads_or_uploads (cl_server c) (w_srv w) (w_srv (snd (get_action_result_call c d w)))"
proof -
  have "w_srv (snd (get_action_result_call c d w))
      = snd (get_action (cl_server c) (cl_instance c) (to_proto d) (w_srv w))"
    by (auto simp: get_action_result_call_def call_srv_def split: prod.splits sum.splits)
  then show ?thesis by (metis r_into_rtranclp get)
qed

lemma find_missing_steps: "reads_or_uploads (cl_server c) (w_srv w) (w_srv (snd (find_missing c ctx ds w)))"
  unfolding find_missing_def by (rule retry_srv) (rule find_missing_call_steps)

lemma batch_upload_steps: "reads_or_uploads (cl_server c) (w_srv w) (w_srv (snd (batch_upload c ctx d data w)))"
  unfolding batch_upload_def by (rule retry_no_result_srv) (rule batch_upload_call_steps)

lemma get_action_result_steps:
  "reads_or_uploads (cl_server c) (w_srv w) (w_srv (snd (get_action_result c ctx d w)))"
  unfolding get_action_result_def by (rule retry_srv) (rule get_action_result_call_steps)

subsection \<open>Streams\<close>

text \<open>Sending a list of requests, all of which the server accepts.\<close>

fun send_all :: "'v server \<Rightarrow> write_request list \<Rightarrow> 'v \<Rightarrow> 'v option" where
  "send_all srv [] v = Some v"
| "send_all srv (r # rs) v = (case write_send srv r v of (None, v1) \<Rightarrow> send_all srv rs v1 | (Some e, v1) \<Rightarrow> None)"

lemma read_chunk_srv: "read_chunk r data w = (x, w') \<Longrightarrow> w_srv w' = w_srv w"
  by (auto simp: read_chunk_def split: if_splits)

lemma read_chunk_cases [case_names error end_of_data chunk]:
  obtains x w1 where "read_chunk r data w = (([], ReadError x), w1)" "w_srv w1 = w_srv w"
  | w1 where "data = []" "read_chunk r data w = (([], Eof), w1)" "w_srv w1 = w_srv w"
  | w1 where "data \<noteq> []" "take upload_buffer data \<noteq> []" "w_srv w1 = w_srv w"
      "read_chunk r data w = ((take upload_buffer data, NoError), w1)"
proof -
  obtain chunk e w1 where rc: "read_chunk r data w = ((chunk, e), w1)" by (metis prod.collapse)
  note srv = read_chunk_srv [OF rc]
  from rc consider (error) x where "chunk = []" "e = ReadError x"
    | (end_of_data) "data = []" "chunk = []" "e = Eof"
    | (chunk) "data \<noteq> []" "chunk = take upload_buffer data" "e = NoError"
    by (auto simp: read_chunk_def split: if_splits)
  then show thesis
    by cases (use rc srv that upload_buffer_pos in simp_all)
qed

text \<open>One round of the loop, by what the read returned.\<close>

lemma send_chunks_error: "read_chunk r data w = (([], ReadError x), w1) \<Longrightarrow>
    send_chunks c name r first data w = (Some (Wrapped ''read data'' x), w1)"
  by (subst send_chunks.simps) simp

lemma send_chunks_end: "read_chunk r data w = (([], Eof), w1) \<Longrightarrow>
    send_chunks c name r first data w = (None, w1)"
  by (subst send_chunks.simps) simp

lemma send_chunks_chunk:
  assumes "read_chunk r data w = ((chunk, NoError), w1)" and "chunk \<noteq> []" and "data \<noteq> []"
  shows "send_chunks c name r first data w =
    (case call_srv (write_send (cl_server c)
        \<lparr>wr_resource = (if first then name else []), wr_data = chunk, wr_finish = False\<rparr>) w1 of
       (Some e, w2) \<Rightarrow> (Some (Wrapped ''ByteStream.Write send'' e), w2)
     | (None, w2) \<Rightarrow> send_chunks c name r False (drop upload_buffer data) w2)"
  using assms by (subst send_chunks.simps) (auto split: prod.splits option.splits)

text \<open>What the loop sends: the data in order, with the resource name on the first request only.\<close>

lemma send_chunks_sends:
  assumes "send_chunks c name r first data w = (None, w')"
  shows "\<exists>reqs. send_all (cl_server c) reqs (w_srv w) = Some (w_srv w') \<and> concat (map wr_data reqs) = data
    \<and> (\<forall>q \<in> set reqs. \<not> wr_finish q) \<and> (first \<longrightarrow> reqs \<noteq> [] \<longrightarrow> wr_resource (hd reqs) = name)
    \<and> (\<forall>q \<in> set (if first then tl reqs else reqs). wr_resource q = [])"
  using assms
proof (induction "length data" arbitrary: first data w rule: less_induct)
  case less
  show ?case
  proof (cases rule: read_chunk_cases [of r data w])
    case (error x w1)
    with less(2) show ?thesis by (simp add: send_chunks_error)
  next
    case (end_of_data w1)
    with less(2) show ?thesis by (intro exI [of _ "[]"]) (simp add: send_chunks_end)
  next
    case (chunk w1)
    let ?q = "\<lparr>wr_resource = (if first then name else []), wr_data = take upload_buffer data, wr_finish = False\<rparr>"
    obtain x w2 where s: "call_srv (write_send (cl_server c) ?q) w1 = (x, w2)"
      by (cases "call_srv (write_send (cl_server c) ?q) w1")
    have x: "x = None" and rest: "send_chunks c name r False (drop upload_buffer data) w2 = (None, w')"
      using less(2) s by (cases x; simp add: send_chunks_chunk [OF chunk(4, 2, 1)])+
    have "length (drop upload_buffer data) < length data"
      using chunk(1) upload_buffer_pos by simp
    from less(1) [OF this rest] obtain reqs where
      reqs: "send_all (cl_server c) reqs (w_srv w2) = Some (w_srv w')"
        "concat (map wr_data reqs) = drop upload_buffer data" "\<forall>q \<in> set reqs. \<not> wr_finish q"
        "\<forall>q \<in> set reqs. wr_resource q = []"
      by auto
    have "write_send (cl_server c) ?q (w_srv w) = (None, w_srv w2)"
      using call_srv_eq [OF s] x chunk(3) by simp
    with reqs show ?thesis by (intro exI [of _ "?q # reqs"]) simp
  qed
qed

lemma send_all_steps: "send_all srv reqs v = Some v' \<Longrightarrow> reads_or_uploads srv v v'"
proof (induction reqs arbitrary: v)
  case (Cons r rs)
  then obtain v1 where "write_send srv r v = (None, v1)" "send_all srv rs v1 = Some v'"
    by (auto split: prod.splits option.splits)
  with Cons.IH [of v1] wsend [of srv v r] show ?case
    by (metis converse_rtranclp_into_rtranclp snd_conv)
qed simp

lemma send_chunks_steps: "reads_or_uploads (cl_server c) (w_srv w) (w_srv (snd (send_chunks c name r first data w)))"
proof (induction "length data" arbitrary: first data w rule: less_induct)
  case less
  show ?case
  proof (cases rule: read_chunk_cases [of r data w])
    case (error x w1)
    then show ?thesis by (simp add: send_chunks_error)
  next
    case (end_of_data w1)
    then show ?thesis by (simp add: send_chunks_end)
  next
    case (chunk w1)
    let ?q = "\<lparr>wr_resource = (if first then name else []), wr_data = take upload_buffer data, wr_finish = False\<rparr>"
    obtain x w2 where s: "call_srv (write_send (cl_server c) ?q) w1 = (x, w2)"
      by (cases "call_srv (write_send (cl_server c) ?q) w1")
    have "w_srv w2 = snd (write_send (cl_server c) ?q (w_srv w))"
      using call_srv_eq [OF s] chunk(3) by simp
    then have one: "reads_or_uploads (cl_server c) (w_srv w) (w_srv w2)" by (metis r_into_rtranclp wsend)
    have "length (drop upload_buffer data) < length data"
      using chunk(1) upload_buffer_pos by simp
    from less [OF this] one s show ?thesis
      by (cases x) (auto simp: send_chunks_chunk [OF chunk(4, 2, 1)] intro: rtranclp_trans)
  qed
qed

lemma byte_stream_upload_steps:
  "reads_or_uploads (cl_server c) (w_srv w) (w_srv (snd (byte_stream_upload c d r data w)))"
proof -
  obtain x w1 where o: "call_srv (write_open (cl_server c)) w = (x, w1)"
    by (cases "call_srv (write_open (cl_server c)) w")
  have "w_srv w1 = snd (write_open (cl_server c) (w_srv w))" using call_srv_eq [OF o] by simp
  then have s1: "reads_or_uploads (cl_server c) (w_srv w) (w_srv w1)" by (metis r_into_rtranclp wopen)
  obtain n w2 where u: "call_sys random w1 = (n, w2)" by (cases "call_sys random w1")
  let ?name = "write_resource c (cl_uuid c n) d"
  obtain y w3 where sc: "send_chunks c ?name r True data w2 = (y, w3)"
    by (cases "send_chunks c ?name r True data w2")
  have s3: "reads_or_uploads (cl_server c) (w_srv w) (w_srv w3)"
    using s1 send_chunks_steps [of c w2 ?name r True data] sc call_sys_eq [OF u]
    by (auto intro: rtranclp_trans)
  obtain z w4 where cl: "call_srv (write_close (cl_server c)) w3 = (z, w4)"
    by (cases "call_srv (write_close (cl_server c)) w3")
  have "w_srv w4 = snd (write_close (cl_server c) (w_srv w3))" using call_srv_eq [OF cl] by simp
  then have s4: "reads_or_uploads (cl_server c) (w_srv w) (w_srv w4)"
    using s3 by (metis rtranclp.rtrancl_into_rtrancl wclose)
  have sx: "reads_or_uploads (cl_server c) (w_srv w) (write_cancel (cl_server c) (w_srv w3))"
    using s3 by (metis rtranclp.rtrancl_into_rtrancl wcancel)
  show ?thesis
    using s1 s3 s4 sx o u sc cl
    by (auto simp: byte_stream_upload_def split: option.splits sum.splits)
qed

lemma upload_blob_steps: "reads_or_uploads (cl_server c) (w_srv w) (w_srv (snd (upload_blob c ctx d data w)))"
proof -
  obtain x w1 where f: "find_missing c ctx [d] w = (x, w1)" by (cases "find_missing c ctx [d] w")
  have "reads_or_uploads (cl_server c) (w_srv w) (w_srv w1)" using find_missing_steps [of c w ctx "[d]"] f by simp
  with batch_upload_steps [of c w1 ctx d data] byte_stream_upload_steps [of c w1 d Memory data] f show ?thesis
    by (auto simp: upload_blob_def split: sum.splits intro: rtranclp_trans)
qed

lemma upload_file_steps: "reads_or_uploads (cl_server c) (w_srv w) (w_srv (snd (upload_file c ctx p d w)))"
proof -
  obtain x w1 where f: "find_missing c ctx [d] w = (x, w1)" by (cases "find_missing c ctx [d] w")
  have s1: "reads_or_uploads (cl_server c) (w_srv w) (w_srv w1)" using find_missing_steps [of c w ctx "[d]"] f by simp
  obtain y w2 where o: "call_sys (open_file p) w1 = (y, w2)" by (cases "call_sys (open_file p) w1")
  obtain z w3 where rf: "call_sys (read_full p (d_size d)) w2 = (z, w3)"
    by (cases "call_sys (read_full p (d_size d)) w2")
  have same: "w_srv w2 = w_srv w1" "w_srv w3 = w_srv w1"
    using call_sys_eq [OF o] call_sys_eq [OF rf] by simp_all
  have b: "reads_or_uploads (cl_server c) (w_srv w) (w_srv (snd (batch_upload c ctx d data w3)))" for data
    using s1 same batch_upload_steps [of c w3 ctx d data] by (auto intro: rtranclp_trans)
  have st: "reads_or_uploads (cl_server c) (w_srv w) (w_srv (snd (byte_stream_upload c d FromFile data w2)))" for data
    using s1 same byte_stream_upload_steps [of c w2 d FromFile data] by (auto intro: rtranclp_trans)
  show ?thesis
    using s1 same b st f o rf
    by (auto simp: upload_file_def split: sum.splits prod.splits)
      (metis snd_conv)+
qed

subsection \<open>The contract\<close>

text \<open>
  A remote cache in a state that is \<open>ok\<close> has the content \<open>blobs\<close>, by hash, and the action cache
  \<open>actions\<close>. No call loses a blob, only updates change the action cache, a blob's hash is the SHA-256
  of its bytes, and what a call reports is so. The write law is about a whole stream: opened, sent
  and closed with success, its first request naming the blob.
\<close>

locale remote_cache =
  fixes srv :: "'v server"
    and ok :: "'v \<Rightarrow> bool"
    and blobs :: "'v \<Rightarrow> string \<Rightarrow> bytes option"
    and actions :: "'v \<Rightarrow> string \<Rightarrow> action_result option"
    and inst_ok :: "string \<Rightarrow> bool"
    and seg_ok :: "string \<Rightarrow> bool"
  assumes step_ok: "ok v \<Longrightarrow> srv_step srv upd v v' \<Longrightarrow> ok v'"
    and step_grows: "ok v \<Longrightarrow> srv_step srv upd v v' \<Longrightarrow> blobs v h \<noteq> None \<Longrightarrow> blobs v' h \<noteq> None"
    and step_actions: "ok v \<Longrightarrow> srv_step srv False v v' \<Longrightarrow> actions v' = actions v"
    and integrity: "ok v \<Longrightarrow> blobs v h = Some data \<Longrightarrow> hex_encode (sha256 data) = h"
    and find_law: "ok v \<Longrightarrow> find_missing_blobs srv i [d] v = (Inr [], v') \<Longrightarrow> blobs v' (pd_hash d) \<noteq> None"
    and batch_law: "ok v \<Longrightarrow> batch_update_blobs srv i [(d, data)] v = (Inr rs, v') \<Longrightarrow>
      update_failure rs = None \<Longrightarrow> blobs v' (pd_hash d) \<noteq> None"
    and write_law: "ok v \<Longrightarrow> inst_ok i \<Longrightarrow> seg_ok u \<Longrightarrow> seg_ok h \<Longrightarrow> write_open srv v = (None, v1) \<Longrightarrow>
      send_all srv reqs v1 = Some v2 \<Longrightarrow>
      (reqs \<noteq> [] \<Longrightarrow> wr_resource (hd reqs) = i @ ''/uploads/'' @ u @ ''/blobs/'' @ h @ ''/'' @ show_int n) \<Longrightarrow>
      (\<forall>q \<in> set (tl reqs). wr_resource q = []) \<Longrightarrow> write_close srv v2 = (Inr k, v3) \<Longrightarrow> blobs v3 h \<noteq> None"
    and update_law: "ok v \<Longrightarrow> update_action srv i d ar v = (Inr x, v') \<Longrightarrow> actions v' = (actions v)(pd_hash d \<mapsto> ar)"
    and update_only: "ok v \<Longrightarrow> update_action srv i d ar v = (res, v') \<Longrightarrow>
      actions v' = actions v \<or> actions v' = (actions v)(pd_hash d \<mapsto> ar)"
    and get_law: "ok v \<Longrightarrow> get_action srv i d v = (Inr ar, v') \<Longrightarrow> actions v (pd_hash d) = Some ar"
begin

lemma run_ok: "reads_or_uploads srv v v' \<Longrightarrow> ok v \<Longrightarrow> ok v'"
proof (induction rule: rtranclp_induct)
  case (step y z)
  then show ?case using step_ok [of y False z] by simp
qed simp

lemma run_grows:
  assumes "reads_or_uploads srv v v'" and "ok v" and "blobs v h \<noteq> None"
  shows "blobs v' h \<noteq> None"
  using assms
proof (induction rule: rtranclp_induct)
  case (step y z)
  have "ok y" using run_ok [OF step(1) step(4)] .
  with step_grows [OF this step(2)] step show ?case by simp
qed simp

lemma run_actions:
  assumes "reads_or_uploads srv v v'" and "ok v"
  shows "actions v' = actions v"
  using assms
proof (induction rule: rtranclp_induct)
  case (step y z)
  have "ok y" using run_ok [OF step(1) step(4)] .
  with step_actions [OF this step(2)] step show ?case by simp
qed simp

lemma find_missing_none:
  assumes "cl_server c = srv" and "ok (w_srv w)" and "find_missing c ctx [d] w = (Inr [], w')"
  shows "blobs (w_srv w') (d_hash d) \<noteq> None"
proof -
  from assms(3) obtain w1 w2 where r: "reads_or_uploads srv (w_srv w) (w_srv w1)"
    "find_missing_call c [d] w1 = (Inr [], w2)" "w_srv w' = w_srv w2"
    unfolding find_missing_def
    using retry_Inr [of "srv_step srv False" "find_missing_call c [d]" ctx w "[]" w']
      find_missing_call_steps [of c _ "[d]"] assms(1) by metis
  then have "find_missing_blobs srv (cl_instance c) [to_proto d] (w_srv w1) = (Inr [], w_srv w2)"
    using assms(1) by (auto simp: find_missing_call_def split: prod.splits sum.splits dest: call_srv_eq)
  from find_law [OF run_ok [OF r(1) assms(2)] this] r(3) show ?thesis by (simp add: to_proto_def)
qed

lemma batch_upload_done:
  assumes "cl_server c = srv" and "ok (w_srv w)" and "batch_upload c ctx d data w = (None, w')"
  shows "blobs (w_srv w') (d_hash d) \<noteq> None"
proof -
  from assms(3) obtain w1 w2 where r: "reads_or_uploads srv (w_srv w) (w_srv w1)"
    "batch_upload_call c d data w1 = (None, w2)" "w_srv w' = w_srv w2"
    unfolding batch_upload_def
    using retry_no_result_None [of "srv_step srv False" "batch_upload_call c d data" ctx w w']
      batch_upload_call_steps [of c _ d data] assms(1) by metis
  then obtain rs where "batch_update_blobs srv (cl_instance c) [(to_proto d, data)] (w_srv w1) = (Inr rs, w_srv w2)"
    "update_failure rs = None"
    using assms(1) by (auto simp: batch_upload_call_def split: prod.splits sum.splits dest: call_srv_eq)
  from batch_law [OF run_ok [OF r(1) assms(2)] this] r(3) show ?thesis by (simp add: to_proto_def)
qed

lemma byte_stream_upload_done:
  assumes "cl_server c = srv" and "ok (w_srv w)" and "inst_ok (cl_instance c)" and "\<And>n. seg_ok (cl_uuid c n)"
    and "seg_ok (d_hash d)" and "byte_stream_upload c d r data w = (None, w')"
  shows "blobs (w_srv w') (d_hash d) \<noteq> None"
proof -
  from assms(6) obtain w1 n w2 w3 k where
    o: "call_srv (write_open srv) w = (None, w1)" and u: "call_sys random w1 = (n, w2)"
    and sc: "send_chunks c (write_resource c (cl_uuid c n) d) r True data w2 = (None, w3)"
    and cl: "call_srv (write_close srv) w3 = (Inr k, w')"
    by (auto simp: byte_stream_upload_def assms(1) split: prod.splits option.splits sum.splits)
  from send_chunks_sends [OF sc] assms(1) obtain reqs where
    "send_all srv reqs (w_srv w2) = Some (w_srv w3)"
    "reqs \<noteq> [] \<Longrightarrow> wr_resource (hd reqs) = write_resource c (cl_uuid c n) d"
    "\<forall>q \<in> set (tl reqs). wr_resource q = []" by auto
  with write_law [OF assms(2, 3) assms(4) assms(5), of "w_srv w1" reqs "w_srv w3" n "d_size d" k "w_srv w'"]
    call_srv_eq [OF o] call_sys_eq [OF u] call_srv_eq [OF cl] show ?thesis
    by (simp add: write_resource_def)
qed

lemma upload_blob_done:
  assumes "cl_server c = srv" and "ok (w_srv w)" and "inst_ok (cl_instance c)" and "\<And>n. seg_ok (cl_uuid c n)"
    and "seg_ok (d_hash d)" and "upload_blob c ctx d data w = (None, w')"
  shows "blobs (w_srv w') (d_hash d) \<noteq> None"
proof -
  obtain x w1 where f: "find_missing c ctx [d] w = (x, w1)" by (cases "find_missing c ctx [d] w")
  then have "ok (w_srv w1)" using run_ok [OF _ assms(2)] find_missing_steps [of c w ctx "[d]"] assms(1) by simp
  with f assms find_missing_none [OF assms(1, 2), of ctx d] batch_upload_done [OF assms(1), of w1]
    byte_stream_upload_done [OF assms(1), of w1] show ?thesis
    by (auto simp: upload_blob_def split: sum.splits if_splits)
qed

lemma upload_file_done:
  assumes "cl_server c = srv" and "ok (w_srv w)" and "inst_ok (cl_instance c)" and "\<And>n. seg_ok (cl_uuid c n)"
    and "seg_ok (d_hash d)" and "upload_file c ctx p d w = (None, w')"
  shows "blobs (w_srv w') (d_hash d) \<noteq> None"
proof -
  obtain x w1 where f: "find_missing c ctx [d] w = (x, w1)" by (cases "find_missing c ctx [d] w")
  then have ok1: "ok (w_srv w1)" using run_ok [OF _ assms(2)] find_missing_steps [of c w ctx "[d]"] assms(1) by simp
  obtain y w2 where o: "call_sys (open_file p) w1 = (y, w2)" by (cases "call_sys (open_file p) w1")
  obtain z w3 where rf: "call_sys (read_full p (d_size d)) w2 = (z, w3)"
    by (cases "call_sys (read_full p (d_size d)) w2")
  have same: "ok (w_srv w2)" "ok (w_srv w3)"
    using call_sys_eq [OF o] call_sys_eq [OF rf] ok1 by simp_all
  note batch = batch_upload_done [OF assms(1) same(2), of ctx d]
  note stream = byte_stream_upload_done [OF assms(1) same(1) assms(3, 4, 5), of FromFile]
  have closed: "w_srv (snd (call_sys (close_file p) v)) = w_srv v" for v :: "'v world" by simp
  show ?thesis
  proof (cases x)
    case (Inr missing)
    show ?thesis
    proof (cases "missing = []")
      case True
      with f Inr assms(6) find_missing_none [OF assms(1, 2), of ctx d w1] show ?thesis
        by (auto simp: upload_file_def)
    next
      case False
      with f Inr assms(6) o rf batch stream closed show ?thesis
        by (auto simp: upload_file_def split: sum.splits prod.splits if_splits)
    qed
  qed (use f assms(6) in \<open>simp add: upload_file_def\<close>)
qed

lemma update_action_result_done:
  assumes "cl_server c = srv" and "ok (w_srv w)" and "update_action_result_call c d ar w = (None, w')"
  shows "actions (w_srv w') = (actions (w_srv w))(d_hash d \<mapsto> ar)"
  using assms update_law [OF assms(2), of "cl_instance c" "to_proto d" ar]
  by (auto simp: update_action_result_call_def to_proto_def split: prod.splits sum.splits dest!: call_srv_eq)

end

end
