(* ===== verification/Node.thy ===== *)
theory Node
  imports Put Remote
begin

text \<open>
  The invariant of a node: its disk cache is well-formed, and every body that a lookup finds has the
  digest its metadata names. What each part of the handlers does to it.
\<close>

abbreviation n_disk :: "'v node \<Rightarrow> disk_cache \<times> sys" where
  "n_disk n \<equiv> (n_cache n, n_sys n)"

definition intact :: "'v node \<Rightarrow> bool" where
  "intact n \<longleftrightarrow> (\<forall>a m p. key_ok a \<longrightarrow> peek (n_disk n) a = Some (m, p) \<longrightarrow>
     (\<exists>f. sys_files (n_sys n) p = Some f \<and> hex_encode (sha256 (f_data f)) = m_casHash m
        \<and> int (length (f_data f)) = m_casSize m))"

definition node_ok :: "path \<Rightarrow> 'v node \<Rightarrow> bool" where
  "node_ok dir n \<longleftrightarrow> disk_inv dir (n_disk n) \<and> intact n"

lemma peek_path:
  assumes "dc_ok dc" and "peek (dc, s) a = Some (m, p)"
  shows "body_path (dc_dir dc) a = Some p" and "on_disk s p"
  using assms dc_ok_entry
  by (fastforce simp: peek_def cached_meta_def split: option.splits if_splits)+

subsection \<open>Quiet steps\<close>

lemma body_not_temp: "body_path dir a = Some p \<Longrightarrow> p \<notin> temps dir"
  "metadata_path dir a = Some p \<Longrightarrow> p \<notin> temps dir"
  using temp_name_differ by blast+

lemma quiet_sys_files:
  assumes "quiet_sys dir s t" and "p \<notin> temps dir"
  shows "sys_files t p = sys_files s p" and "on_disk t p = on_disk s p" and "disk_meta t p = disk_meta s p"
  using assms by (auto simp: quiet_sys_def on_disk_def disk_meta_def touches_def)

lemma quiet_peek:
  assumes "quiet_sys (dc_dir dc) s t" and "dc_ok dc"
  shows "peek (dc, t) a = peek (dc, s) a"
proof (rule peek_cong)
  fix m p assume "cached_meta a dc = Some (m, p)" "p \<noteq> []"
  then have "body_path (dc_dir dc) a = Some p"
    using dc_ok_entry [OF assms(2)] by (fastforce simp: cached_meta_def split: option.splits)
  then show "on_disk t p = on_disk s p" using quiet_sys_files [OF assms(1)] body_not_temp by blast
qed (use quiet_sys_files [OF assms(1)] body_not_temp in blast)+

lemma quiet_disk_inv: "quiet n n' \<Longrightarrow> disk_inv dir (n_disk n) \<Longrightarrow> disk_inv dir (n_disk n')"
  by (auto simp: quiet_def quiet_sys_def disk_inv_def intro: touches_no_faults)

lemma quiet_node_ok: "quiet n n' \<Longrightarrow> node_ok dir n \<Longrightarrow> node_ok dir n'"
proof -
  assume q: "quiet n n'" and ok: "node_ok dir n"
  then have qs: "quiet_sys (dc_dir (n_cache n)) (n_sys n) (n_sys n')" and dc: "dc_ok (n_cache n)"
    and same: "n_cache n' = n_cache n"
    by (simp_all add: quiet_def node_ok_def disk_inv_def)
  have "sys_files (n_sys n') p = sys_files (n_sys n) p" if "peek (n_disk n) a = Some (m, p)" for a m p
    using peek_path(1) [OF dc that] quiet_sys_files(1) [OF qs] body_not_temp by blast
  then have "intact n'"
    using ok quiet_peek [OF qs dc] same by (fastforce simp: node_ok_def intact_def)
  with ok show ?thesis using quiet_disk_inv [OF q] by (simp add: node_ok_def)
qed

subsection \<open>Lookups and installs\<close>

lemma on_cache_eq:
  "on_cache f n = Some (r, n') \<longleftrightarrow>
   (\<exists>dc s. f (n_cache n) (n_sys n) = Some (r, dc, s) \<and> n' = n\<lparr>n_cache := dc, n_world := (n_world n)\<lparr>w_sys := s\<rparr>\<rparr>)"
  by (auto simp: on_cache_def split: option.splits)

lemma lookup_node:
  assumes "node_ok dir n" and "key_ok a" and "on_cache (lookup a) n = Some ((meta, p, hit), n')"
  shows "node_ok dir n'" and "peek (n_disk n') k = peek (n_disk n) k"
    and "sys_files (n_sys n') = sys_files (n_sys n)"
    and "peek (n_disk n) a = Some (m, q) \<Longrightarrow> meta = Some m \<and> p = q \<and> hit"
    and "peek (n_disk n) a = None \<Longrightarrow> \<not> hit"
    and "w_srv (n_world n') = w_srv (n_world n)"
proof -
  obtain dc s where r: "lookup a (n_cache n) (n_sys n) = Some ((meta, p, hit), dc, s)"
    and n': "n' = n\<lparr>n_cache := dc, n_world := (n_world n)\<lparr>w_sys := s\<rparr>\<rparr>"
    using assms(3) by (auto simp: on_cache_eq)
  have inv: "disk_inv dir (n_disk n)" using assms(1) by (simp add: node_ok_def)
  from lookup_view [of "n_sys n" "n_cache n" a] inv assms(2) r have v:
    "(case peek (n_disk n) a of Some (m, q) \<Rightarrow> (meta, p, hit) = (Some m, q, True) | None \<Rightarrow> \<not> hit)"
    "\<forall>k. peek (dc, s) k = peek (n_disk n) k" "no_faults s" "dc_ok dc" "dc_dir dc = dc_dir (n_cache n)"
    "sys_files s = sys_files (n_sys n)"
    by (auto simp: disk_inv_def split: option.splits)
  show "peek (n_disk n') k = peek (n_disk n) k" and "sys_files (n_sys n') = sys_files (n_sys n)"
    and "peek (n_disk n) a = Some (m, q) \<Longrightarrow> meta = Some m \<and> p = q \<and> hit"
    and "peek (n_disk n) a = None \<Longrightarrow> \<not> hit" and "w_srv (n_world n') = w_srv (n_world n)"
    using v n' by auto
  show "node_ok dir n'" using v n' assms(1) by (auto simp: node_ok_def intact_def disk_inv_def)
qed

text \<open>A failed install leaves the entry as it was, or without its body.\<close>

lemma ensure_dir_on_disk:
  assumes "ensure_dir d s = (r, t)" and "length d < length p"
  shows "on_disk t p = on_disk s p" and "sys_files t p = sys_files s p" and "disk_meta t q = disk_meta s q"
proof -
  have f: "sys_files t x = sys_files s x" for x using ensure_dir_file [OF assms(1)] .
  have "p \<in> sys_dirs t \<longleftrightarrow> p \<in> sys_dirs s"
    using ensure_dir_dirs [OF assms(1)] assms ensure_dir_touches [of "{}" s d] by (auto simp: touches_def)
  with f show "on_disk t p = on_disk s p" "sys_files t p = sys_files s p" "disk_meta t q = disk_meta s q"
    by (simp_all add: on_disk_def disk_meta_def)
qed

lemma rename_failed: "rename p q s = (Inl e, t) \<Longrightarrow> t = called s"
  by (auto simp: rename_def split: if_splits option.splits)

lemma remove_gone: "no_faults s \<Longrightarrow> p \<notin> sys_dirs s \<Longrightarrow> \<not> on_disk (remove p s) p"
  by (simp add: remove_def on_disk_def)

lemma install_failed_view:
  assumes "install a tmp m dc s = Some (Inl e, dc', t)" and "no_faults s" and "key_ok a"
    and "body_path (dc_dir dc) a = Some bp" and "metadata_path (dc_dir dc) a = Some mp"
  shows "\<not> on_disk t bp \<or> on_disk t bp = on_disk s bp \<and> sys_files t bp = sys_files s bp
    \<and> disk_meta t mp = disk_meta s mp"
proof -
  have dirs: "filepath_dir bp = shard_dir (dc_dir dc) a" "filepath_dir mp = shard_dir (dc_dir dc) a"
    using assms(3-5) key_paths [OF assms(3), of "dc_dir dc"] by auto
  have long: "length (shard_dir (dc_dir dc) a) < length bp"
    using assms(3, 4) by (auto simp: shard_dir_def key_ok_def body_path_def split: if_splits)
  note stay = ensure_dir_on_disk [OF _ long]
  from assms(1, 4, 5) show ?thesis
  proof (cases rule: install_cases)
    case mkdir
    with stay dirs show ?thesis by metis
  next
    case (rename u s1 e')
    with stay dirs rename_failed [OF rename(2)] show ?thesis
      by (metis called_simps(1) disk_meta_called on_disk_called)
  next
    case (metadata u s1 u' s2 e' s3)
    have nf: "no_faults s3"
      using assms(2) metadata ensure_dir_touches write_metadata_touches calls_touch(11) [of tmp "{tmp, bp}" bp]
        touches_no_faults by (metis insertCI snd_conv)
    have "bp \<notin> sys_dirs s1" "sys_dirs s2 = sys_dirs s1"
      using metadata(2) by (auto simp: rename_def split: if_splits option.splits)
    then have "bp \<notin> sys_dirs s3"
      using write_metadata_dirs [OF metadata(3)] dirs long by auto
    with remove_gone [OF nf] metadata show ?thesis by simp
  qed simp
qed

text \<open>Installing a body whose digest is the one in its metadata.\<close>

lemma install_node:
  assumes "node_ok dir n" and "key_ok a" and "tmp \<in> temps dir" and "sys_files (n_sys n) tmp = Some f"
    and "hex_encode (sha256 (f_data f)) = m_casHash m" and "int (length (f_data f)) = m_casSize m"
    and "on_cache (install a tmp m) n = Some (r, n')"
  shows "node_ok dir n'" and "w_srv (n_world n') = w_srv (n_world n)"
    and "r = Inr p \<Longrightarrow> peek (n_disk n') a = Some (m, p) \<and> sys_files (n_sys n') p = Some f"
    and "key_ok k \<Longrightarrow> k \<noteq> a \<Longrightarrow> peek (n_disk n') k = peek (n_disk n) k"
    and "key_ok k \<Longrightarrow> k \<noteq> a \<Longrightarrow> body_path dir k = Some q \<Longrightarrow> sys_files (n_sys n') q = sys_files (n_sys n) q"
proof -
  obtain dc s where i: "install a tmp m (n_cache n) (n_sys n) = Some (r, dc, s)"
    and n': "n' = n\<lparr>n_cache := dc, n_world := (n_world n)\<lparr>w_sys := s\<rparr>\<rparr>"
    using assms(7) by (auto simp: on_cache_eq)
  have inv: "disk_inv dir (n_disk n)" and dir: "dc_dir (n_cache n) = dir"
    using assms(1) by (simp_all add: node_ok_def disk_inv_def)
  obtain tn where tn: "tmp = temp_name (dc_dir (n_cache n)) tn" using assms(3) dir by auto
  have src: "disk_src dir (tmp, m)" using tn dir by (auto simp: disk_src_def)
  have snd: "snd (disk_put a (tmp, m) (n_disk n)) = n_disk n'"
    using i n' by (cases r) (simp_all add: disk_put_def)
  note frame = disk_put_frame [OF inv assms(2) src, unfolded snd]
  obtain bp mp where pp: "body_path (dc_dir (n_cache n)) a = Some bp" "metadata_path (dc_dir (n_cache n)) a = Some mp"
    using key_paths [OF assms(2)] by blast
  have stored: "peek (n_disk n') a = Some (m, p) \<and> sys_files (n_sys n') p = Some f" if "r = Inr p" for p
    using disk_put_stored [OF inv src, of a "(m, p)" "n_disk n'"] i that n' install_done [OF i [unfolded that] tn pp] assms(4)
    by (auto simp: disk_put_def)
  show other: "key_ok k \<Longrightarrow> k \<noteq> a \<Longrightarrow> peek (n_disk n') k = peek (n_disk n) k" for k using frame [of k] by blast
  show files: "sys_files (n_sys n') q = sys_files (n_sys n) q" if "key_ok k" "k \<noteq> a" "body_path dir k = Some q" for k q
  proof -
    note k = that
    obtain mk where "metadata_path dir k = Some mk" using key_paths [OF k(1), of dir] by blast
    with install_other_paths [OF i tn assms(2) k(2)] k(3) dir n' show ?thesis by simp
  qed
  have "\<exists>g. sys_files (n_sys n') q = Some g \<and> hex_encode (sha256 (f_data g)) = m_casHash m'
      \<and> int (length (f_data g)) = m_casSize m'"
    if k: "key_ok k" "peek (n_disk n') k = Some (m', q)" for k m' q
  proof (cases "k = a")
    case False
    have "peek (n_disk n) k = Some (m', q)" using other [OF k(1) False] k(2) by simp
    moreover have "body_path dir k = Some q" using peek_path(1) [OF _ calculation] inv dir by (simp add: disk_inv_def)
    ultimately show ?thesis using assms(1) k(1) files [OF k(1) False] by (simp add: node_ok_def intact_def)
  next
    case True
    show ?thesis
    proof (cases r)
      case (Inr p)
      with stored True k(2) assms(5, 6) show ?thesis by auto
    next
      case (Inl e)
      have dc: "dc = n_cache n" using install_index(6) [OF i Inl] .
      have "q = bp" and on: "on_disk s bp"
        using peek_path [of "n_cache n" s a m' q] k(2) True n' dc inv pp by (auto simp: disk_inv_def)
      moreover from install_failed_view [OF i [unfolded Inl] _ assms(2) pp] inv on have same:
        "on_disk s bp = on_disk (n_sys n) bp" "sys_files s bp = sys_files (n_sys n) bp"
        "disk_meta s mp = disk_meta (n_sys n) mp" by (auto simp: disk_inv_def)
      moreover have "peek (n_cache n, s) a = peek (n_disk n) a"
        by (rule peek_cong) (use same pp inv dc_ok_entry in
          \<open>fastforce simp: cached_meta_def disk_inv_def split: option.splits\<close>)+
      ultimately show ?thesis
        using assms(1, 2) k(2) True n' dc by (simp add: node_ok_def intact_def)
    qed
  qed
  then show "node_ok dir n'" using frame by (simp add: node_ok_def intact_def)
  show "w_srv (n_world n') = w_srv (n_world n)" using n' by simp
  show "r = Inr p \<Longrightarrow> peek (n_disk n') a = Some (m, p) \<and> sys_files (n_sys n') p = Some f" by (rule stored)
qed

subsection \<open>Uploads\<close>

text \<open>Remote calls only read files, the clock and the random source.\<close>

abbreviation world_quiet :: "path \<Rightarrow> 'v world \<Rightarrow> 'v world \<Rightarrow> bool" where
  "world_quiet dir w w' \<equiv> quiet_sys dir (w_sys w) (w_sys w')"

lemma breaker_quiet [simp]:
  "world_quiet dir w (snd (clock w))" "world_quiet dir w (snd (cb_allow w))" "world_quiet dir w (cb_success w)"
  "world_quiet dir w (cb_failure w)" "world_quiet dir w (backoff k w)"
  by (simp_all add: clock_def now_def cb_allow_def cb_success_def cb_failure_def backoff_def random_def Let_def
      split: option.splits)

lemma retry_from_quiet:
  assumes "\<And>w. w_sys (snd (fn w)) = w_sys w"
  shows "world_quiet dir w (snd (retry_from ctx fn n k e0 w))"
proof (induction n arbitrary: k e0 w)
  case (Suc n)
  obtain x w1 where f: "fn w = (x, w1)" by (cases "fn w")
  then have same: "w_sys w1 = w_sys w" using assms [of w] by simp
  have "world_quiet dir w1 (if k < max_attempts - 1 then backoff k w1 else w1)" by simp
  then have rest: "world_quiet dir w (snd (retry_from ctx fn n (Suc k) e
      (if k < max_attempts - 1 then backoff k w1 else w1)))" for e
    using Suc.IH quiet_sys_trans same by metis
  have "world_quiet dir w (cb_success w1)" using same by simp
  with rest f same show ?case by (auto split: option.splits sum.splits)
qed simp

lemma retry_quiet:
  assumes "\<And>w. w_sys (snd (fn w)) = w_sys w"
  shows "world_quiet dir w (snd (retry_rpc ctx fn w))"
proof -
  obtain b w1 where a: "cb_allow w = (b, w1)" by (cases "cb_allow w")
  then have "world_quiet dir w w1" using breaker_quiet(2) [of dir w] by simp
  with a retry_from_quiet [OF assms, of dir w1 ctx max_attempts 0 "Plain []"] show ?thesis
    by (cases b) (auto simp: retry_rpc_def intro: quiet_sys_trans)
qed

lemma retry_no_result_quiet:
  assumes "\<And>w. w_sys (snd (fn w)) = w_sys w"
  shows "world_quiet dir w (snd (retry_no_result ctx fn w))"
  using retry_quiet [of "with_unit fn" dir w ctx] assms by (simp add: retry_with_unit)

lemma calls_same_sys [simp]:
  "w_sys (snd (find_missing_call c ds w)) = w_sys w"
  "w_sys (snd (batch_upload_call c d data w)) = w_sys w"
  "w_sys (snd (get_action_result_call c d w)) = w_sys w"
  "w_sys (snd (update_action_result_call c d ar w)) = w_sys w"
  by (auto simp: find_missing_call_def batch_upload_call_def get_action_result_call_def
      update_action_result_call_def call_srv_def split: prod.splits sum.splits)

lemma retried_quiet:
  "world_quiet dir w (snd (find_missing c ctx ds w))"
  "world_quiet dir w (snd (batch_upload c ctx d data w))"
  "world_quiet dir w (snd (get_action_result c ctx d w))"
  "world_quiet dir w (snd (update_action_result c ctx d ar w))"
  by (simp_all add: find_missing_def batch_upload_def get_action_result_def update_action_result_def
      retry_quiet retry_no_result_quiet)

lemma call_sys_quiet:
  "call_sys f w = (r, w') \<Longrightarrow> quiet_sys dir (w_sys w) (snd (f (w_sys w))) \<Longrightarrow> world_quiet dir w w'"
  by (auto simp: call_sys_def split: prod.splits)

lemma call_srv_same_sys: "call_srv f w = (r, w') \<Longrightarrow> w_sys w' = w_sys w"
  by (auto simp: call_srv_def split: prod.splits)

lemma send_chunks_quiet: "world_quiet dir w (snd (send_chunks c name r first data w))"
proof (induction "length data" arbitrary: first data w rule: less_induct)
  case less
  have rc: "world_quiet dir w w1" if "read_chunk r data w = (x, w1)" for x w1
    using that by (auto simp: read_chunk_def split: if_splits)
  show ?case
  proof (cases rule: read_chunk_cases [of r data w])
    case (error x w1)
    with rc show ?thesis by (simp add: send_chunks_error)
  next
    case (end_of_data w1)
    with rc show ?thesis by (simp add: send_chunks_end)
  next
    case (chunk w1)
    obtain x w2 where s: "call_srv (write_send (cl_server c) \<lparr>wr_resource = (if first then name else []),
        wr_data = take upload_buffer data, wr_finish = False\<rparr>) w1 = (x, w2)"
      by (metis prod.collapse)
    have one: "world_quiet dir w w2" using rc [OF chunk(4)] call_srv_same_sys [OF s] by simp
    have "length (drop upload_buffer data) < length data" using chunk(1) upload_buffer_pos by simp
    from less [OF this, of w2 False] one s show ?thesis
      by (cases x) (auto simp: send_chunks_chunk [OF chunk(4, 2, 1)] intro: quiet_sys_trans)
  qed
qed

lemma byte_stream_upload_quiet: "world_quiet dir w (snd (byte_stream_upload c d r data w))"
proof -
  obtain x w1 where o: "call_srv (write_open (cl_server c)) w = (x, w1)"
    by (cases "call_srv (write_open (cl_server c)) w")
  obtain n w2 where u: "call_sys random w1 = (n, w2)" by (cases "call_sys random w1")
  let ?name = "write_resource c (cl_uuid c n) d"
  obtain y w3 where sc: "send_chunks c ?name r True data w2 = (y, w3)"
    by (cases "send_chunks c ?name r True data w2")
  obtain z w4 where cl: "call_srv (write_close (cl_server c)) w3 = (z, w4)"
    by (cases "call_srv (write_close (cl_server c)) w3")
  have "world_quiet dir w1 w2" by (rule call_sys_quiet [OF u]) (rule quiet_sys_calls)
  moreover have "world_quiet dir w2 w3" using send_chunks_quiet [of dir w2 c ?name r True data] sc by simp
  ultimately have "world_quiet dir w w3" using call_srv_same_sys [OF o] by (metis quiet_sys_trans)
  then show ?thesis
    using o u sc cl call_srv_same_sys [OF o] call_srv_same_sys [OF cl]
    by (auto simp: byte_stream_upload_def split: option.splits sum.splits)
qed

lemma upload_blob_quiet: "world_quiet dir w (snd (upload_blob c ctx d data w))"
proof -
  obtain x w1 where f: "find_missing c ctx [d] w = (x, w1)" by (cases "find_missing c ctx [d] w")
  then have "world_quiet dir w w1" using retried_quiet(1) [of dir w c ctx "[d]"] by simp
  with f retried_quiet(2) [of dir w1 c ctx d data] byte_stream_upload_quiet [of dir w1 c d Memory data] show ?thesis
    by (auto simp: upload_blob_def split: sum.splits intro: quiet_sys_trans)
qed

lemma upload_file_quiet: "world_quiet dir w (snd (upload_file c ctx p d w))"
proof -
  obtain x w1 where f: "find_missing c ctx [d] w = (x, w1)" by (cases "find_missing c ctx [d] w")
  then have s1: "world_quiet dir w w1" using retried_quiet(1) [of dir w c ctx "[d]"] by simp
  obtain y w2 where o: "call_sys (open_file p) w1 = (y, w2)" by (cases "call_sys (open_file p) w1")
  have s2: "world_quiet dir w w2" using s1 call_sys_quiet [OF o quiet_sys_calls(4)] by (rule quiet_sys_trans)
  obtain z w3 where rf: "call_sys (read_full p (d_size d)) w2 = (z, w3)"
    by (cases "call_sys (read_full p (d_size d)) w2")
  have "quiet_sys dir s (snd (read_full p n s))" for n and s :: sys
    using quiet_sys_calls(5) [of dir s p] by (auto simp: read_full_def split: prod.splits sum.splits)
  then have s3: "world_quiet dir w w3" using s2 call_sys_quiet [OF rf] by (blast intro: quiet_sys_trans)
  have close: "world_quiet dir w (snd (call_sys (close_file p) v))" if "world_quiet dir w v" for v
  proof -
    obtain r v' where "call_sys (close_file p) v = (r, v')" by (cases "call_sys (close_file p) v")
    with call_sys_quiet [OF this quiet_sys_calls(6)] that show ?thesis by (auto intro: quiet_sys_trans)
  qed
  have b: "world_quiet dir w (snd (batch_upload c ctx d data w3))" for data
    using s3 retried_quiet(2) by (rule quiet_sys_trans)
  have st: "world_quiet dir w (snd (byte_stream_upload c d FromFile data w2))" for data
    using s2 byte_stream_upload_quiet by (rule quiet_sys_trans)
  show ?thesis
    using f o rf s1 s2 s3 b st close
    by (auto simp: upload_file_def split: sum.splits prod.splits) (metis snd_conv)+
qed

lemma upload_protos_quiet: "world_quiet dir w (snd (upload_protos c blobs w))"
proof (induction blobs arbitrary: w)
  case (Cons b blobs)
  obtain data d where b: "b = (data, d)" by (cases b)
  obtain x w1 where u: "upload_blob c None d data w = (x, w1)" by (cases "upload_blob c None d data w")
  then have "world_quiet dir w w1" using upload_blob_quiet [of dir w c None d data] by simp
  with Cons.IH [of w1] u b show ?case by (cases x) (auto intro: quiet_sys_trans)
qed simp

lemma upload_all_quiet: "world_quiet dir w (snd (upload_all c bm pm p d sd w))"
proof -
  obtain x w1 where u: "upload_file c None p d w = (x, w1)" by (cases "upload_file c None p d w")
  then have "world_quiet dir w w1" using upload_file_quiet [of dir w c None p d] by simp
  with u upload_protos_quiet [of dir w1 c "proto_blobs sd"] show ?thesis
    by (auto simp: upload_all_def split: option.splits prod.splits intro: quiet_sys_trans)
qed

lemma publish_quiet: "world_quiet dir w (snd (publish c outputIDHex p d sd w))"
proof -
  let ?ar = "synthetic_action_result outputIDHex d"
  let ?bm = "''re-upload body after FAILED_PRECONDITION''" and ?pm = "''re-upload proto blob after FAILED_PRECONDITION''"
  obtain x w1 where u: "update_action_result c None (sd_actionDigest sd) ?ar w = (x, w1)"
    by (cases "update_action_result c None (sd_actionDigest sd) ?ar w")
  obtain y w2 where a: "upload_all c ?bm ?pm p d sd w1 = (y, w2)" by (cases "upload_all c ?bm ?pm p d sd w1")
  obtain z w3 where v: "update_action_result c None (sd_actionDigest sd) ?ar w2 = (z, w3)"
    by (cases "update_action_result c None (sd_actionDigest sd) ?ar w2")
  have "world_quiet dir w w1" using retried_quiet(4) [of dir w c None "sd_actionDigest sd" ?ar] u by simp
  moreover have "world_quiet dir w1 w2" using upload_all_quiet [of dir w1 c ?bm ?pm p d sd] a by simp
  moreover have "world_quiet dir w2 w3" using retried_quiet(4) [of dir w2 c None "sd_actionDigest sd" ?ar] v by simp
  ultimately show ?thesis
    using u a v by (auto simp: publish_def Let_def split: option.splits intro: quiet_sys_trans)
qed

lemma populate_world_quiet: "world_quiet dir w (snd (populate_world c outputIDHex p d sd w))"
proof -
  obtain x w1 where u: "upload_all c ''upload body'' ''upload proto blob'' p d sd w = (x, w1)"
    by (cases "upload_all c ''upload body'' ''upload proto blob'' p d sd w")
  then have "world_quiet dir w w1"
    using upload_all_quiet [of dir w c "''upload body''" "''upload proto blob''" p d sd] by simp
  with u publish_quiet [of dir w1 c outputIDHex p d sd] show ?thesis
    by (auto simp: populate_world_def split: option.splits intro: quiet_sys_trans)
qed

text \<open>Synthetic digests and the list of uploads are no part of the invariant.\<close>

lemma node_ok_frame [simp]:
  "node_ok dir (n\<lparr>n_synthetic := x\<rparr>) = node_ok dir n" "node_ok dir (n\<lparr>n_tasks := y\<rparr>) = node_ok dir n"
  "node_ok dir (n\<lparr>n_closed := z\<rparr>) = node_ok dir n"
  by (simp_all add: node_ok_def intact_def)

lemma on_world_node:
  assumes "on_world f n = (r, n')" and "world_quiet (dc_dir (n_cache n)) (n_world n) (snd (f (n_world n)))"
  shows "quiet n n'"
  using assms by (cases "f (n_world n)") (auto simp: on_world_def quiet_def)

lemma run_task_node: "node_ok dir n \<Longrightarrow> node_ok dir (run_task h i n)"
proof -
  assume ok: "node_ok dir n"
  show ?thesis
  proof (cases "h_client h = None \<or> length (n_tasks n) \<le> i")
    case True
    with ok show ?thesis by (auto simp: run_task_def split: option.splits)
  next
    case False
    then obtain c where c: "h_client h = Some c" "i < length (n_tasks n)" by auto
    let ?n = "n\<lparr>n_tasks := take i (n_tasks n) @ drop (Suc i) (n_tasks n)\<rparr>" and ?t = "n_tasks n ! i"
    obtain x cache where comp: "compute_synthetic_digests (h_marshal h) (h_dir h) (pp_actionIDHex ?t) (n_synthetic n)
        = (x, cache)" by fastforce
    show ?thesis
    proof (cases x)
      case (Inr sd)
      obtain r n' where pop: "on_world (populate_world c (pp_outputIDHex ?t) (pp_body ?t) (pp_digest ?t) sd)
          (?n\<lparr>n_synthetic := cache\<rparr>) = (r, n')" by fastforce
      have "node_ok dir n'"
        by (rule quiet_node_ok [OF on_world_node [OF pop populate_world_quiet]]) (use ok in simp)
      with c comp Inr pop show ?thesis by (simp add: run_task_def remote_populate_def)
    qed (use ok c comp in \<open>simp add: run_task_def remote_populate_def\<close>)
  qed
qed

end
