(* ===== verification/Float64.thy ===== *)
theory Float64
  imports Prelude
begin

text \<open>
  The double-precision arithmetic that the program and the packages it uses evaluate, on
  non-negative values: numbers are rounded to 53 significant bits, ties to even. A double is a
  natural number, or a pair of a numerator and a denominator. The exponent is not bounded: every
  use converts the result to a 64-bit integer, and a result so small that its exponent matters
  (below \<open>2 ^ -1022\<close>) truncates to 0 in either case.
\<close>

fun bit_length :: "nat \<Rightarrow> nat" where
  "bit_length n = (if n = 0 then 0 else Suc (bit_length (n div 2)))"

declare bit_length.simps [simp del]

text \<open>\<open>n\<close> rounded to a multiple of \<open>2 ^ k\<close>.\<close>

definition round_even :: "nat \<Rightarrow> nat \<Rightarrow> nat" where
  "round_even n k =
     (let q = n div 2 ^ k; r = n mod 2 ^ k in
      (if 2 * r < 2 ^ k then q else if 2 ^ k < 2 * r then q + 1
       else if even q then q else q + 1) * 2 ^ k)"

definition round53 :: "nat \<Rightarrow> nat" where
  "round53 n = (if n < 2 ^ 53 then n else round_even n (bit_length n - 53))"

text \<open>The double nearest to \<open>n / d\<close>, for \<open>d > 0\<close>.\<close>

definition round_div :: "nat \<Rightarrow> nat \<Rightarrow> nat" where
  "round_div n d =
     (let q = n div d; r = n mod d in
      if 2 * r < d then q else if d < 2 * r then q + 1 else if even q then q else q + 1)"

definition ratio_exponent :: "nat \<Rightarrow> nat \<Rightarrow> int" where
  "ratio_exponent n d =
     (let e = int (bit_length n) - int (bit_length d) - 53 in
      if n * 2 ^ nat (- e) < 2 ^ 53 * (d * 2 ^ nat e) then e else e + 1)"

definition round_ratio :: "nat \<Rightarrow> nat \<Rightarrow> nat \<times> nat" where
  "round_ratio n d =
     (let e = ratio_exponent n d; m = round_div (n * 2 ^ nat (- e)) (d * 2 ^ nat e)
      in (m * 2 ^ nat e, 2 ^ nat (- e)))"

subsection \<open>Bounds\<close>

lemma bit_length_bounds: "n \<noteq> 0 \<Longrightarrow> 2 ^ (bit_length n - 1) \<le> n \<and> n < 2 ^ bit_length n \<and> 0 < bit_length n"
proof (induction n rule: bit_length.induct)
  case (1 n)
  show ?case
  proof (cases "n div 2 = 0")
    case True
    with 1 have "n = 1" by simp
    then show ?thesis by (simp add: bit_length.simps)
  next
    case False
    with 1 have ih: "2 ^ (bit_length (n div 2) - 1) \<le> n div 2" "n div 2 < 2 ^ bit_length (n div 2)"
      "0 < bit_length (n div 2)" by auto
    have b: "bit_length n = Suc (bit_length (n div 2))" using 1(2) by (subst bit_length.simps) simp
    obtain k where k: "bit_length (n div 2) = Suc k" using ih(3) by (cases "bit_length (n div 2)") auto
    have "2 * 2 ^ k \<le> 2 * (n div 2)" "2 * (n div 2) + 2 \<le> 2 * (2 * 2 ^ k)" using ih k by simp_all
    moreover have "2 * (n div 2) \<le> n" "n < 2 * (n div 2) + 2" by simp_all
    ultimately show ?thesis by (simp add: b k)
  qed
qed

lemma round_even_bounds:
  assumes "a * 2 ^ k \<le> n" and "2 * n + 2 ^ k < 2 * (c * 2 ^ k)"
  shows "a * 2 ^ k \<le> round_even n k \<and> round_even n k < c * 2 ^ k"
proof -
  define q r where "q = n div 2 ^ k" and "r = n mod 2 ^ k"
  have n: "n = q * 2 ^ k + r" and r: "r < 2 ^ k" unfolding q_def r_def by (simp_all only: div_mult_mod_eq) simp
  have "a \<le> q" using assms(1) by (simp add: q_def less_eq_div_iff_mult_less_eq)
  moreover have "q < c"
  proof (rule ccontr)
    assume "\<not> q < c"
    then have "c * 2 ^ k \<le> q * 2 ^ k" by simp
    with assms(2) n show False by simp
  qed
  moreover have "q + 1 < c" if "2 ^ k \<le> 2 * r"
  proof (rule ccontr)
    assume "\<not> q + 1 < c"
    then have "c * 2 ^ k \<le> (q + 1) * 2 ^ k" by (intro mult_right_mono) simp_all
    with assms(2) n that show False by (simp add: algebra_simps)
  qed
  ultimately show ?thesis
    by (simp add: round_even_def Let_def q_def [symmetric] r_def [symmetric])
qed

subsection \<open>Exact results\<close>

lemma round53_id: "n < 2 ^ 53 \<Longrightarrow> round53 n = n"
  by (simp add: round53_def)

lemma round_div_mult: "0 < d \<Longrightarrow> round_div (k * d) d = k"
  by (simp add: round_div_def)

lemma bit_length_0 [simp]: "bit_length 0 = 0"
  by (simp add: bit_length.simps)

lemma bit_length_le: "n < 2 ^ k \<Longrightarrow> bit_length n \<le> k"
proof (rule ccontr)
  assume n: "n < 2 ^ k" and "\<not> bit_length n \<le> k"
  then have "n \<noteq> 0" by (metis bit_length_0 le0)
  moreover from \<open>\<not> bit_length n \<le> k\<close> have "(2::nat) ^ k \<le> 2 ^ (bit_length n - 1)" by (intro power_increasing) simp_all
  ultimately show False using n bit_length_bounds [of n] by linarith
qed

lemma bit_length_mult: "k < 2 ^ a \<Longrightarrow> bit_length (k * d) \<le> a + bit_length d"
proof (cases "d = 0")
  case False
  assume "k < 2 ^ a"
  then have "k * d < 2 ^ a * 2 ^ bit_length d"
    using False bit_length_bounds [of d] by (intro mult_strict_mono) simp_all
  then show ?thesis by (intro bit_length_le) (simp add: power_add)
qed (simp add: bit_length.simps)

text \<open>A quotient that is a natural number of at most 53 bits is not rounded.\<close>

lemma round_ratio_exact:
  assumes "k < 2 ^ 53" and "0 < d"
  shows "\<exists>t. round_ratio (k * d) d = (k * 2 ^ t, 2 ^ t)"
proof -
  define e where "e = ratio_exponent (k * d) d"
  have "bit_length (k * d) \<le> 53 + bit_length d" using assms(1) by (rule bit_length_mult)
  moreover have "k * d * 2 ^ 0 < 2 ^ 53 * (d * 2 ^ 0)" using assms by simp
  ultimately have "e \<le> 0"
    by (cases "bit_length (k * d) = 53 + bit_length d") (simp_all add: e_def ratio_exponent_def Let_def)
  moreover have "k * d * 2 ^ nat (- e) = k * 2 ^ nat (- e) * d" by simp
  moreover have "round_div (k * 2 ^ nat (- e) * d) d = k * 2 ^ nat (- e)" using assms(2) by (rule round_div_mult)
  ultimately have "round_ratio (k * d) d = (k * 2 ^ nat (- e), 2 ^ nat (- e))"
    by (simp only: round_ratio_def Let_def e_def [symmetric] nat_0_iff [THEN iffD2] power_0 mult_1_right)
  then show ?thesis by blast
qed

lemma round_ratio_trunc:
  "k < 2 ^ 53 \<Longrightarrow> 0 < d \<Longrightarrow> (case round_ratio (k * d) d of (a, b) \<Rightarrow> a div b) = k"
  using round_ratio_exact [of k d] by auto

end
