(* ===== verification/Trim.thy ===== *)
theory Trim
  imports Disk Float64
begin

text \<open>
  \<open>DiskCache.Trim\<close> of \<open>internal/cache/disk.go\<close>: which bodies are evicted, in which order and how
  many, and what the eviction leaves alone.
\<close>

text \<open>
  \<open>int64(float64(dc.maxSize) * 0.8)\<close> in IEEE double arithmetic, which the code evaluates: both the
  conversion and the product are rounded to 53 significant bits, ties to even; the constant
  \<open>0.8\<close> is the double \<open>7205759403792794 / 2 ^ 53\<close>; the conversion back truncates towards zero.
\<close>

definition point_eight :: nat where
  "point_eight = 7205759403792794"

definition trim_target :: "int \<Rightarrow> int" where
  "trim_target mx =
     sgn mx * int (round53 (round53 (nat \<bar>mx\<bar>) * point_eight) div 2 ^ 53)"

text \<open>
  The candidates in the order of a range over the index, then sorted. Go leaves open both the order
  of the range and the order of equal elements after \<open>sort.Slice\<close>; together they are any
  order of the keys, the argument \<open>order\<close>, followed by a stable sort.
\<close>

definition candidates :: "time \<Rightarrow> disk_cache \<Rightarrow> string list \<Rightarrow> entry list" where
  "candidates t dc order =
     filter (\<lambda>e. e_hasBody e \<and> e_key e \<notin> dc_pinned dc \<and> \<not> time_sub t (e_access e) < dc_safety dc)
       (List.map_filter (dc_entries dc) order)"

fun choose_evictions :: "int \<Rightarrow> int \<Rightarrow> entry list \<Rightarrow> string list" where
  "choose_evictions target cur [] = []"
| "choose_evictions target cur (e # es) =
     (if cur \<le> target then []
      else e_key e # choose_evictions target (i64 (cur - e_size e)) es)"

text \<open>One round of the eviction loop, outside the lock but for the index update.\<close>

definition evict :: "string \<Rightarrow> disk_cache \<Rightarrow> sys \<Rightarrow> (disk_cache \<times> sys) option" where
  "evict a dc s =
     (case body_path (dc_dir dc) a of
        None \<Rightarrow> None
      | Some bp \<Rightarrow>
          (let s1 = remove bp s in
           case dc_entries dc a of
             None \<Rightarrow> Some (dc, s1)
           | Some e \<Rightarrow>
               if e_hasBody e
               then Some (dc\<lparr>dc_total := i64 (dc_total dc - e_size e),
                             dc_entries := (dc_entries dc)(a \<mapsto> e\<lparr>e_hasBody := False, e_bodyPath := []\<rparr>)\<rparr>, s1)
               else Some (dc, s1)))"

fun evict_all :: "string list \<Rightarrow> disk_cache \<Rightarrow> sys \<Rightarrow> (disk_cache \<times> sys) option" where
  "evict_all [] dc s = Some (dc, s)"
| "evict_all (a # as) dc s =
     (case evict a dc s of None \<Rightarrow> None | Some (dc1, s1) \<Rightarrow> evict_all as dc1 s1)"

definition trim_evictions :: "string list \<Rightarrow> time \<Rightarrow> disk_cache \<Rightarrow> string list" where
  "trim_evictions order t dc =
     choose_evictions (trim_target (dc_maxSize dc)) (dc_total dc)
       (sort_key e_access (candidates t dc order))"

definition trim :: "string list \<Rightarrow> disk_cache \<Rightarrow> sys \<Rightarrow> (disk_cache \<times> sys) option" where
  "trim order dc s =
     (if dc_total dc \<le> trim_target (dc_maxSize dc) then Some (dc, s)
      else case now s of (t, s1) \<Rightarrow> evict_all (trim_evictions order t dc) dc s1)"

text \<open>A trim returns, without a panic, when every key is long enough to have a shard directory.\<close>

lemma evict_None_iff: "evict a dc s = None \<longleftrightarrow> length a < 2"
  by (auto simp: evict_def body_path_def Let_def split: option.splits)

lemma evict_all_None_iff: "evict_all as dc s = None \<longleftrightarrow> (\<exists>a \<in> set as. length a < 2)"
proof (induction as arbitrary: dc s)
  case (Cons a as)
  then show ?case
    by (cases "evict a dc s") (auto simp: evict_None_iff [of a dc s, symmetric])
qed simp

lemma trim_None_iff:
  "trim order dc s = None \<longleftrightarrow> trim_target (dc_maxSize dc) < dc_total dc
     \<and> (\<exists>a \<in> set (trim_evictions order (sys_clock s (sys_calls s)) dc). length a < 2)"
  by (simp add: trim_def now_def evict_all_None_iff not_le)

lemma set_choose_evictions: "set (choose_evictions target cur es) \<subseteq> e_key ` set es"
  by (induction target cur es rule: choose_evictions.induct) auto

lemma trim_evictions_keys: "dc_ok dc \<Longrightarrow> set (trim_evictions order t dc) \<subseteq> dom (dc_entries dc)"
  using set_choose_evictions dc_ok_entry
  by (fastforce simp: trim_evictions_def candidates_def List.map_filter_def)

subsection \<open>The eviction loop\<close>

text \<open>The specification's view of a candidate.\<close>

definition evictable :: "time \<Rightarrow> disk_cache \<Rightarrow> entry \<Rightarrow> bool" where
  "evictable t dc e \<longleftrightarrow> e_hasBody e \<and> e_key e \<notin> dc_pinned dc \<and> dc_safety dc \<le> time_sub t (e_access e)"

definition evicted :: "entry \<Rightarrow> entry" where
  "evicted e = e\<lparr>e_hasBody := False, e_bodyPath := []\<rparr>"

text \<open>The running total after evicting a list of entries.\<close>

definition total_after :: "int \<Rightarrow> entry list \<Rightarrow> int" where
  "total_after cur es = fold (\<lambda>e c. i64 (c - e_size e)) es cur"

lemma total_after_simps [simp]:
  "total_after cur [] = cur" "total_after cur (e # es) = total_after (i64 (cur - e_size e)) es"
  by (simp_all add: total_after_def)

lemma choose_evictions_prefix:
  "\<exists>n \<le> length es. choose_evictions target cur es = map e_key (take n es)
     \<and> (total_after cur (take n es) \<le> target \<or> n = length es)
     \<and> (\<forall>i < n. target < total_after cur (take i es))"
proof (induction es arbitrary: cur)
  case (Cons e es)
  show ?case
  proof (cases "cur \<le> target")
    case True
    then show ?thesis by (intro exI [of _ 0]) simp
  next
    case False
    from Cons.IH [of "i64 (cur - e_size e)"] obtain n where
      "n \<le> length es" "choose_evictions target (i64 (cur - e_size e)) es = map e_key (take n es)"
      "total_after (i64 (cur - e_size e)) (take n es) \<le> target \<or> n = length es"
      "\<forall>i < n. target < total_after (i64 (cur - e_size e)) (take i es)" by blast
    with False show ?thesis
      by (intro exI [of _ "Suc n"]) (auto simp: less_Suc_eq_0_disj)
  qed
qed simp

lemma candidates_set:
  assumes "dc_ok dc" and "set order = dom (dc_entries dc)"
  shows "set (candidates t dc order) = {e. dc_entries dc (e_key e) = Some e \<and> evictable t dc e}"
proof -
  have "e \<in> set (List.map_filter (dc_entries dc) order) \<longleftrightarrow> dc_entries dc (e_key e) = Some e" for e
  proof
    assume "e \<in> set (List.map_filter (dc_entries dc) order)"
    then obtain k where "dc_entries dc k = Some e" by (auto simp: List.map_filter_def)
    with dc_ok_entry [OF assms(1) this] show "dc_entries dc (e_key e) = Some e" by simp
  next
    assume e: "dc_entries dc (e_key e) = Some e"
    then have "e_key e \<in> set order" using assms(2) by auto
    with e show "e \<in> set (List.map_filter (dc_entries dc) order)"
      by (force simp: List.map_filter_def)
  qed
  then show ?thesis by (auto simp: candidates_def evictable_def)
qed

lemma candidates_distinct:
  assumes "dc_ok dc" and "distinct order"
  shows "distinct (map e_key (candidates t dc order))"
proof -
  have "distinct (map e_key (List.map_filter (dc_entries dc) order))
      \<and> set (map e_key (List.map_filter (dc_entries dc) order)) \<subseteq> set order"
    using assms(2)
  proof (induction order)
    case (Cons k order)
    then show ?case
      using dc_ok_entry [OF assms(1), of k]
      by (cases "dc_entries dc k") (auto simp: List.map_filter_simps)
  qed (simp add: List.map_filter_simps)
  then show ?thesis by (auto simp: candidates_def intro: distinct_map_filter)
qed

lemma evict_spec:
  assumes "evict a dc s = Some (dc', t)" and "dc_entries dc a = Some e" and "e_hasBody e"
  shows "dc' = dc\<lparr>dc_total := i64 (dc_total dc - e_size e), dc_entries := (dc_entries dc)(a \<mapsto> evicted e)\<rparr>
    \<and> (\<exists>bp. body_path (dc_dir dc) a = Some bp \<and> touches {bp} s t)"
  using assms by (auto simp: evict_def evicted_def Let_def remove_touches split: option.splits)

text \<open>Evicting the entries \<open>es\<close>: what the loop does to the index, the total and the files.\<close>

lemma evict_all_spec:
  assumes "evict_all (map e_key es) dc s = Some (dc', t)" and "distinct (map e_key es)"
    and "\<And>e. e \<in> set es \<Longrightarrow> dc_entries dc (e_key e) = Some e \<and> e_hasBody e"
  shows "dc_total dc' = total_after (dc_total dc) es
    \<and> dc_entries dc' = (\<lambda>k. if k \<in> e_key ` set es then map_option evicted (dc_entries dc k) else dc_entries dc k)
    \<and> dc_dir dc' = dc_dir dc \<and> dc_maxSize dc' = dc_maxSize dc \<and> dc_safety dc' = dc_safety dc
    \<and> dc_pinned dc' = dc_pinned dc
    \<and> touches {bp. \<exists>e \<in> set es. body_path (dc_dir dc) (e_key e) = Some bp} s t"
  using assms
proof (induction es arbitrary: dc s)
  case (Cons e es)
  obtain dc1 s1 where ev: "evict (e_key e) dc s = Some (dc1, s1)"
    and rest: "evict_all (map e_key es) dc1 s1 = Some (dc', t)"
    using Cons.prems(1) by (auto split: option.splits)
  have "dc_entries dc (e_key e) = Some e" "e_hasBody e" using Cons.prems(3) by auto
  from evict_spec [OF ev this] obtain bp where
    dc1: "dc1 = dc\<lparr>dc_total := i64 (dc_total dc - e_size e), dc_entries := (dc_entries dc)(e_key e \<mapsto> evicted e)\<rparr>"
    and bp: "body_path (dc_dir dc) (e_key e) = Some bp" and t1: "touches {bp} s s1" by blast
  let ?P = "{bp. \<exists>x \<in> set (e # es). body_path (dc_dir dc) (e_key x) = Some bp}"
  have "dc_entries dc1 (e_key x) = Some x \<and> e_hasBody x" if "x \<in> set es" for x
  proof -
    have "e_key x \<noteq> e_key e" using that Cons.prems(2) by (metis distinct.simps(2) image_eqI list.simps(9) set_map)
    with Cons.prems(3) [of x] that dc1 show ?thesis by simp
  qed
  from Cons.IH [OF rest _ this] Cons.prems(2) have ih:
    "dc_total dc' = total_after (dc_total dc1) es"
    "dc_entries dc' = (\<lambda>k. if k \<in> e_key ` set es then map_option evicted (dc_entries dc1 k) else dc_entries dc1 k)"
    "dc_dir dc' = dc_dir dc1" "dc_maxSize dc' = dc_maxSize dc1" "dc_safety dc' = dc_safety dc1"
    "dc_pinned dc' = dc_pinned dc1"
    "touches {bp. \<exists>e \<in> set es. body_path (dc_dir dc1) (e_key e) = Some bp} s1 t" by auto
  have "touches ?P s s1" by (rule touches_mono [OF t1]) (use bp in auto)
  moreover have "touches ?P s1 t" by (rule touches_mono [OF ih(7)]) (auto simp: dc1)
  ultimately have "touches ?P s t" by (rule touches_trans)
  with ih Cons.prems(2, 3) show ?case by (auto simp: dc1 fun_eq_iff)
qed auto

text \<open>
  What \<open>Trim\<close> does: it evicts a prefix \<open>es\<close> of the candidates in order of their access time, the
  shortest that brings the total down to the target.
\<close>

definition trims :: "entry list \<Rightarrow> time \<Rightarrow> disk_cache \<Rightarrow> disk_cache \<Rightarrow> bool" where
  "trims es t dc dc' \<longleftrightarrow>
     dc_total dc' = total_after (dc_total dc) es
     \<and> dc_entries dc' = (\<lambda>k. if k \<in> e_key ` set es then map_option evicted (dc_entries dc k) else dc_entries dc k)
     \<and> (\<forall>e \<in> set es. dc_entries dc (e_key e) = Some e \<and> evictable t dc e)
     \<and> (\<forall>e \<in> set es. \<forall>j k. dc_entries dc k = Some j \<longrightarrow> evictable t dc j \<longrightarrow> j \<notin> set es \<longrightarrow> e_access e \<le> e_access j)
     \<and> (dc_total dc' \<le> trim_target (dc_maxSize dc) \<or>
          (\<forall>k j. dc_entries dc k = Some j \<longrightarrow> evictable t dc j \<longrightarrow> j \<in> set es))
     \<and> (\<forall>i < length es. trim_target (dc_maxSize dc) < total_after (dc_total dc) (take i es))
     \<and> distinct (map e_key es)"

lemma sorted_take_le:
  assumes "sorted (map f xs)" and "x \<in> set (take n xs)" and "y \<in> set xs" and "y \<notin> set (take n xs)"
  shows "f x \<le> f y"
proof -
  have "y \<in> set (drop n xs)" using assms(3, 4) by (metis Un_iff append_take_drop_id set_append)
  moreover have "sorted (map f (take n xs) @ map f (drop n xs))"
    using assms(1) by (simp flip: map_append)
  ultimately show ?thesis using assms(2) by (auto simp: sorted_append)
qed

lemma trim_trims:
  assumes "dc_ok dc" and "distinct order" and "set order = dom (dc_entries dc)"
    and "trim order dc s = Some (dc', t)"
  shows "\<exists>es. trims es (sys_clock s (sys_calls s)) dc dc'
    \<and> touches {bp. \<exists>e \<in> set es. body_path (dc_dir dc) (e_key e) = Some bp} s t
    \<and> dc_dir dc' = dc_dir dc \<and> dc_pinned dc' = dc_pinned dc"
proof (cases "dc_total dc \<le> trim_target (dc_maxSize dc)")
  case True
  with assms(4) show ?thesis by (intro exI [of _ "[]"]) (auto simp: trim_def trims_def)
next
  case False
  let ?now = "sys_clock s (sys_calls s)"
  let ?cs = "sort_key e_access (candidates ?now dc order)"
  let ?target = "trim_target (dc_maxSize dc)"
  from assms(4) False have run: "evict_all (choose_evictions ?target (dc_total dc) ?cs) dc (called s) = Some (dc', t)"
    by (simp add: trim_def trim_evictions_def now_def)
  from choose_evictions_prefix [of ?cs ?target "dc_total dc"] obtain n where
    n: "n \<le> length ?cs" "choose_evictions ?target (dc_total dc) ?cs = map e_key (take n ?cs)"
      "total_after (dc_total dc) (take n ?cs) \<le> ?target \<or> n = length ?cs"
      "\<forall>i < n. ?target < total_after (dc_total dc) (take i ?cs)" by blast
  let ?es = "take n ?cs"
  have cs: "set ?cs = {e. dc_entries dc (e_key e) = Some e \<and> evictable ?now dc e}"
    using candidates_set [OF assms(1, 3)] by simp
  have mem: "j \<in> set ?cs" if "dc_entries dc k = Some j" "evictable ?now dc j" for j k
    using that dc_ok_entry [OF assms(1)] cs by auto
  have "distinct (map e_key (candidates ?now dc order))" by (rule candidates_distinct [OF assms(1, 2)])
  then have dk: "distinct (map e_key ?cs)"
    by (simp add: distinct_map inj_on_def)
  then have de: "distinct (map e_key ?es)" by (simp add: take_map [symmetric])
  have sub: "set ?es \<subseteq> set ?cs" by (rule set_take_subset)
  from run n(2) have run': "evict_all (map e_key ?es) dc (called s) = Some (dc', t)" by simp
  have inx: "dc_entries dc (e_key e) = Some e \<and> e_hasBody e" if "e \<in> set ?es" for e
    using that sub cs by (auto simp: evictable_def)
  note spec = evict_all_spec [OF run' de inx]
  have "trims ?es ?now dc dc'"
    unfolding trims_def
  proof (intro conjI)
    show "\<forall>e \<in> set ?es. dc_entries dc (e_key e) = Some e \<and> evictable ?now dc e" using sub cs by auto
    show "\<forall>e \<in> set ?es. \<forall>j k. dc_entries dc k = Some j \<longrightarrow> evictable ?now dc j \<longrightarrow> j \<notin> set ?es
        \<longrightarrow> e_access e \<le> e_access j"
      using sorted_take_le [of e_access ?cs] mem by (metis sorted_sort_key)
    show "dc_total dc' \<le> ?target \<or> (\<forall>k j. dc_entries dc k = Some j \<longrightarrow> evictable ?now dc j \<longrightarrow> j \<in> set ?es)"
      using n(3) spec mem by (metis take_all_iff order_refl)
    show "\<forall>i < length ?es. ?target < total_after (dc_total dc) (take i ?es)"
      using n(4) by (simp add: min_def)
  qed (use spec de in simp_all)
  moreover have "touches {bp. \<exists>e \<in> set ?es. body_path (dc_dir dc) (e_key e) = Some bp} s t"
    using spec touches_trans [OF touches_called] by blast
  ultimately show ?thesis using spec by blast
qed

subsection \<open>The target\<close>

lemma trim_target_value:
  assumes "0 \<le> mx" and "mx < 2 ^ 50"
  shows "trim_target mx = 4 * mx div 5"
proof (cases "mx = 0")
  case True
  then show ?thesis by (simp add: trim_target_def)
next
  case False
  define x where "x = nat mx"
  define n where "n = x * point_eight"
  define q where "q = 4 * x div 5"
  have x: "mx = int x" "0 < x" "x < 2 ^ 50" using assms False by (auto simp: x_def)
  have five: "5 * n = 4 * x * 2 ^ 53 + 2 * x" by (simp add: n_def point_eight_def)
  have q: "5 * q \<le> 4 * x" "4 * x \<le> 5 * q + 4" by (simp_all add: q_def)
  have lo: "q * 2 ^ 53 \<le> n" using five q(1) by simp
  have hi: "5 * n + 2 ^ 53 \<le> 5 * ((q + 1) * 2 ^ 53) + 2 * x" using five q(2) by simp
  have "round53 n div 2 ^ 53 = q"
  proof (cases "n < 2 ^ 53")
    case True
    have "n < (q + 1) * 2 ^ 53" using hi x(3) by simp
    with True lo show ?thesis
      by (simp add: round53_def)
  next
    case False
    define k where "k = bit_length n - 53"
    have nz: "n \<noteq> 0" using False by auto
    note bl = bit_length_bounds [OF nz]
    have big: "53 < bit_length n"
    proof (rule ccontr)
      assume "\<not> 53 < bit_length n"
      then have "(2::nat) ^ bit_length n \<le> 2 ^ 53" by (intro power_increasing) simp_all
      with bl False show False by linarith
    qed
    then have kk: "bit_length n - 1 = 52 + k" "0 < k" by (simp_all add: k_def)
    have small: "2 ^ 52 * 2 ^ k \<le> n" using bl kk by (simp add: power_add)
    have "n < 2 ^ 103" using five x(3) by simp
    then have "(2::nat) ^ (52 + k) < 2 ^ 103" using small by (simp add: power_add)
    then have "52 + k < 103" by (rule power_less_imp_less_exp [rotated]) simp
    then have "k < 51" by simp
    then have p: "(2::nat) ^ 53 = 2 ^ (53 - k) * 2 ^ k" by (simp flip: power_add)
    have "5 * 2 ^ k * 2 ^ 52 \<le> 4 * x * 2 ^ 53 + 2 * x" using small five by simp
    then have gap: "5 * 2 ^ k < 10 * x" using x(2) by simp
    have "q * 2 ^ 53 \<le> round_even n k \<and> round_even n k < (q + 1) * 2 ^ 53"
    proof -
      have "2 * n + 2 ^ k < 2 * ((q + 1) * 2 ^ 53)" using hi gap x(3) by simp
      with round_even_bounds [of "q * 2 ^ (53 - k)" k n "(q + 1) * 2 ^ (53 - k)"] lo show ?thesis
        by (simp only: p mult.assoc)
    qed
    then have "round_even n k div 2 ^ 53 = q" by (simp add: div_nat_eqI mult.commute)
    with False show ?thesis by (simp add: round53_def k_def)
  qed
  moreover have "round53 x = x" using x(3) by (simp add: round53_def)
  ultimately show ?thesis
    using x(2) by (simp add: trim_target_def x(1) n_def [symmetric] q_def zdiv_int)
qed

text \<open>
  C31: the eviction target is 80% of the size limit, rounded down, for every limit below 1 PiB: the
  double-precision arithmetic of \<open>int64(float64(dc.maxSize) * 0.8)\<close> is exact there.
\<close>

theorem trim_target_exact:
  assumes "0 \<le> mx" and "mx < 2 ^ 50"
  shows "trim_target mx = 4 * mx div 5"
  using assms by (rule trim_target_value)

theorem trim_target_exact_witness: "trim_target 1001 = 800"
  using trim_target_exact [of 1001] by simp

subsection \<open>What trimming promises\<close>

lemma evicted_simps [simp]:
  "e_hasBody (evicted e) = False" "e_key (evicted e) = e_key e" "e_meta (evicted e) = e_meta e"
  "e_bodyPath (evicted e) = []" "e_size (evicted e) = e_size e" "e_access (evicted e) = e_access e"
  by (simp_all add: evicted_def)

lemma trims_mem: "trims es t dc dc' \<Longrightarrow> e \<in> set es \<Longrightarrow> dc_entries dc (e_key e) = Some e \<and> evictable t dc e"
  unfolding trims_def by (elim conjE) (erule (1) bspec)

lemma trims_order: "trims es t dc dc' \<Longrightarrow> x \<in> set es \<Longrightarrow> dc_entries dc k = Some j \<Longrightarrow> evictable t dc j
    \<Longrightarrow> j \<notin> set es \<Longrightarrow> e_access x \<le> e_access j"
proof -
  assume "trims es t dc dc'"
  then have "\<forall>e \<in> set es. \<forall>j k. dc_entries dc k = Some j \<longrightarrow> evictable t dc j \<longrightarrow> j \<notin> set es
      \<longrightarrow> e_access e \<le> e_access j"
    unfolding trims_def by (elim conjE)
  then show "x \<in> set es \<Longrightarrow> dc_entries dc k = Some j \<Longrightarrow> evictable t dc j \<Longrightarrow> j \<notin> set es
      \<Longrightarrow> e_access x \<le> e_access j"
    by blast
qed

lemma trims_enough: "trims es t dc dc' \<Longrightarrow> dc_total dc' \<le> trim_target (dc_maxSize dc)
    \<or> (\<forall>k j. dc_entries dc k = Some j \<longrightarrow> evictable t dc j \<longrightarrow> j \<in> set es)"
  unfolding trims_def by (elim conjE)

lemma trims_total: "trims es t dc dc' \<Longrightarrow> dc_total dc' = total_after (dc_total dc) es \<and> distinct (map e_key es)
    \<and> (\<forall>i < length es. trim_target (dc_maxSize dc) < total_after (dc_total dc) (take i es))"
  unfolding trims_def by (elim conjE) (intro conjI)

lemma trims_entry:
  assumes "trims es t dc dc'" and "dc_entries dc k = Some e" and "dc_ok dc"
  shows "dc_entries dc' k = Some (if e \<in> set es then evicted e else e)"
proof -
  have "k \<in> e_key ` set es \<longleftrightarrow> e \<in> set es"
  proof
    assume "k \<in> e_key ` set es"
    then obtain x where x: "x \<in> set es" "e_key x = k" by auto
    then have "dc_entries dc k = Some x" using assms(1) by (auto simp: trims_def)
    with x assms(2) show "e \<in> set es" by simp
  next
    assume "e \<in> set es"
    with dc_ok_entry [OF assms(3, 2)] show "k \<in> e_key ` set es" by (metis image_eqI)
  qed
  with assms(1, 2) show ?thesis by (simp add: trims_def)
qed

text \<open>
  C24: \<open>Trim\<close> never evicts what is in use: an entry that is pinned, or that was touched within the
  safety window, stays in the index as it was and its body file is untouched; every metadata file is
  untouched, and every entry, evicted or not, keeps its place in the index and its cached metadata.
\<close>

theorem trim_safe:
  assumes "dc_ok dc" and "distinct order" and "set order = dom (dc_entries dc)"
    and "trim order dc s = Some (dc', t)" and "dc_entries dc k = Some e"
  shows "(\<exists>e'. dc_entries dc' k = Some e' \<and> e_meta e' = e_meta e \<and> e_size e' = e_size e)
    \<and> (\<forall>a mp. metadata_path (dc_dir dc) a = Some mp \<longrightarrow> sys_files t mp = sys_files s mp)
    \<and> (k \<in> dc_pinned dc \<or> time_sub (sys_clock s (sys_calls s)) (e_access e) < dc_safety dc \<longrightarrow>
         dc_entries dc' k = Some e
         \<and> (\<forall>bp. body_path (dc_dir dc) k = Some bp \<longrightarrow> sys_files t bp = sys_files s bp))"
proof -
  from trim_trims [OF assms(1-4)] obtain es where
    tr: "trims es (sys_clock s (sys_calls s)) dc dc'"
    and files: "touches {bp. \<exists>e \<in> set es. body_path (dc_dir dc) (e_key e) = Some bp} s t" by blast
  note entry = trims_entry [OF tr assms(5, 1)]
  have meta: "sys_files t mp = sys_files s mp" if "metadata_path (dc_dir dc) a = Some mp" for a mp
    by (rule touches_file [OF files]) (use body_metadata_differ that in blast)
  have safe: "e \<notin> set es" if "k \<in> dc_pinned dc \<or> time_sub (sys_clock s (sys_calls s)) (e_access e) < dc_safety dc"
    using that tr dc_ok_entry [OF assms(1, 5)] by (auto simp: trims_def evictable_def)
  have body: "sys_files t bp = sys_files s bp" if "e \<notin> set es" "body_path (dc_dir dc) k = Some bp" for bp
  proof (rule touches_file [OF files])
    have "e_key x \<noteq> k" if "x \<in> set es" for x
      using tr that \<open>e \<notin> set es\<close> assms(5) by (auto simp: trims_def)
    then show "bp \<notin> {bp. \<exists>e \<in> set es. body_path (dc_dir dc) (e_key e) = Some bp}"
      using body_path_inject \<open>body_path (dc_dir dc) k = Some bp\<close> by blast
  qed
  have "\<exists>e'. dc_entries dc' k = Some e' \<and> e_meta e' = e_meta e \<and> e_size e' = e_size e"
    using entry by (cases "e \<in> set es") simp_all
  moreover have "dc_entries dc' k = Some e" if "e \<notin> set es"
    using entry that by simp
  ultimately show ?thesis using meta safe body by blast
qed

text \<open>An entry that lost its body.\<close>

definition lost_body :: "disk_cache \<Rightarrow> disk_cache \<Rightarrow> string \<Rightarrow> bool" where
  "lost_body dc dc' k \<longleftrightarrow> (\<exists>e e'. dc_entries dc k = Some e \<and> e_hasBody e \<and> dc_entries dc' k = Some e' \<and> \<not> e_hasBody e')"

lemma lost_body_iff:
  assumes "trims es t dc dc'" and "dc_entries dc k = Some e" and "dc_ok dc"
  shows "lost_body dc dc' k \<longleftrightarrow> e \<in> set es"
  using trims_entry [OF assms] assms(1, 2) by (auto simp: lost_body_def trims_def evictable_def)

text \<open>
  C25: \<open>Trim\<close> evicts in least-recently-used order and as much as needed: no evicted entry was used
  after an evictable entry that stayed, and afterwards the total is at most the target (80% of the
  size limit) or every evictable entry is gone; an entry that is not evictable is never evicted.
\<close>

theorem trim_lru:
  assumes "dc_ok dc" and "distinct order" and "set order = dom (dc_entries dc)"
    and "trim order dc s = Some (dc', t)"
  shows "(\<forall>k j ek ej. dc_entries dc k = Some ek \<longrightarrow> dc_entries dc j = Some ej \<longrightarrow> lost_body dc dc' k \<longrightarrow>
      evictable (sys_clock s (sys_calls s)) dc ej \<longrightarrow> \<not> lost_body dc dc' j \<longrightarrow> e_access ek \<le> e_access ej)
    \<and> (dc_total dc' \<le> trim_target (dc_maxSize dc) \<or> (\<forall>j ej. dc_entries dc j = Some ej \<longrightarrow>
         evictable (sys_clock s (sys_calls s)) dc ej \<longrightarrow> lost_body dc dc' j))
    \<and> (\<forall>k e. dc_entries dc k = Some e \<longrightarrow> lost_body dc dc' k \<longrightarrow> evictable (sys_clock s (sys_calls s)) dc e)"
proof -
  from trim_trims [OF assms(1-4)] obtain es where
    tr: "trims es (sys_clock s (sys_calls s)) dc dc'" by blast
  let ?now = "sys_clock s (sys_calls s)"
  note lost = lost_body_iff [OF tr _ assms(1)]
  have order: "e_access ek \<le> e_access ej"
    if "dc_entries dc k = Some ek" "dc_entries dc j = Some ej" "lost_body dc dc' k"
      "evictable ?now dc ej" "\<not> lost_body dc dc' j" for k j ek ej
  proof -
    have "ek \<in> set es" "ej \<notin> set es" using that(3, 5) lost [OF that(1)] lost [OF that(2)] by simp_all
    then show ?thesis using trims_order [OF tr _ that(2, 4)] by simp
  qed
  have enough: "dc_total dc' \<le> trim_target (dc_maxSize dc) \<or> (\<forall>j ej. dc_entries dc j = Some ej \<longrightarrow>
      evictable ?now dc ej \<longrightarrow> lost_body dc dc' j)"
  proof (cases "dc_total dc' \<le> trim_target (dc_maxSize dc)")
    case False
    with trims_enough [OF tr] have all:
      "dc_entries dc k = Some j \<Longrightarrow> evictable ?now dc j \<Longrightarrow> j \<in> set es" for k j by blast
    show ?thesis
    proof (intro disjI2 allI impI)
      fix j ej
      assume "dc_entries dc j = Some ej" "evictable ?now dc ej"
      with all lost [OF this(1)] show "lost_body dc dc' j" by simp
    qed
  qed simp
  have "evictable ?now dc e" if "dc_entries dc k = Some e" "lost_body dc dc' k" for k e
  proof -
    have "e \<in> set es" using that(2) lost [OF that(1)] by simp
    with trims_mem [OF tr] dc_ok_entry [OF assms(1) that(1)] show ?thesis by simp
  qed
  note only = this
  show ?thesis
  proof (intro conjI allI impI)
    fix k j ek ej
    assume "dc_entries dc k = Some ek" "dc_entries dc j = Some ej" "lost_body dc dc' k"
      "evictable ?now dc ej" "\<not> lost_body dc dc' j"
    then show "e_access ek \<le> e_access ej" by (rule order)
  next
    fix k e
    assume "dc_entries dc k = Some e" "lost_body dc dc' k"
    then show "evictable ?now dc e" by (rule only)
  qed (rule enough)
qed

text \<open>
  \<open>Trim\<close> stops as soon as it can: had the entries with access times up to any evicted entry's
  been evicted one fewer at a time, the total would still have been above the target. The evicted
  entries, oldest first, form a list every proper prefix of which leaves the total over the target,
  and the new total is the old one less their sizes.
\<close>

theorem trim_minimal:
  assumes "dc_ok dc" and "distinct order" and "set order = dom (dc_entries dc)"
    and "trim order dc s = Some (dc', t)"
  shows "\<exists>es. {k. lost_body dc dc' k} = e_key ` set es \<and> distinct (map e_key es)
    \<and> dc_total dc' = total_after (dc_total dc) es
    \<and> (\<forall>i < length es. trim_target (dc_maxSize dc) < total_after (dc_total dc) (take i es))"
proof -
  from trim_trims [OF assms(1-4)] obtain es where
    tr: "trims es (sys_clock s (sys_calls s)) dc dc'" by blast
  have "lost_body dc dc' k \<longleftrightarrow> k \<in> e_key ` set es" for k
  proof (cases "dc_entries dc k")
    case None
    then have "k \<notin> e_key ` set es" using trims_mem [OF tr] by auto
    with None show ?thesis by (simp add: lost_body_def)
  next
    case (Some e)
    have "e \<in> set es \<longleftrightarrow> k \<in> e_key ` set es"
    proof
      assume "e \<in> set es"
      then show "k \<in> e_key ` set es" using dc_ok_entry [OF assms(1) Some] by (metis image_eqI)
    next
      assume "k \<in> e_key ` set es"
      then obtain x where x: "x \<in> set es" "e_key x = k" by auto
      with trims_mem [OF tr x(1)] Some show "e \<in> set es" by simp
    qed
    with lost_body_iff [OF tr Some assms(1)] show ?thesis by simp
  qed
  with trims_total [OF tr] show ?thesis by (intro exI [of _ es]) simp
qed


lemma valid_example_order: "distinct [''ab12'', ''ab34'']" "set [''ab12'', ''ab34''] = dom (dc_entries example_index)"
  by auto

lemma trim_example: "\<exists>dc' t. trim [''ab12'', ''ab34''] example_index example_sys = Some (dc', t)"
proof -
  have "set (trim_evictions [''ab12'', ''ab34''] (sys_clock example_sys (sys_calls example_sys)) example_index)
      \<subseteq> {''ab12'', ''ab34''}"
    using trim_evictions_keys [OF example_index_ok(1)] valid_example_order by (metis list.simps(15) empty_set)
  then have "\<not> (\<exists>a \<in> set (trim_evictions [''ab12'', ''ab34'']
      (sys_clock example_sys (sys_calls example_sys)) example_index). length a < 2)"
    by auto
  then have "trim [''ab12'', ''ab34''] example_index example_sys \<noteq> None"
    unfolding trim_None_iff by blast
  then show ?thesis by auto
qed

theorem trim_safe_witness:
  "\<exists>dc' t. trim [''ab12'', ''ab34''] example_index example_sys = Some (dc', t)
    \<and> dc_entries dc' ''ab12'' = Some (example_entry ''ab12'' 40 5)"
proof -
  obtain dc' t where tr: "trim [''ab12'', ''ab34''] example_index example_sys = Some (dc', t)"
    using trim_example by blast
  have e: "dc_entries example_index ''ab12'' = Some (example_entry ''ab12'' 40 5)" by simp
  have "dc_entries dc' ''ab12'' = Some (example_entry ''ab12'' 40 5)"
    using conjunct2 [OF conjunct2 [OF trim_safe [OF example_index_ok(1) valid_example_order tr e]]] by simp
  with tr show ?thesis by blast
qed

lemma target_example [simp]: "trim_target (dc_maxSize example_index) = 80"
  by (simp add: example_index_def empty_cache_def trim_target_value)

theorem trim_lru_witness:
  "\<exists>dc' t. trim [''ab12'', ''ab34''] example_index example_sys = Some (dc', t)
    \<and> (dc_total dc' \<le> 80 \<or> lost_body example_index dc' ''ab34'') \<and> \<not> lost_body example_index dc' ''ab12''"
proof -
  obtain dc' t where tr: "trim [''ab12'', ''ab34''] example_index example_sys = Some (dc', t)"
    using trim_example by blast
  let ?now = "sys_clock example_sys (sys_calls example_sys)"
  have pinned: "\<not> evictable ?now example_index (example_entry ''ab12'' 40 5)"
    by (simp add: evictable_def example_entry_def)
  have cold: "evictable ?now example_index (example_entry ''ab34'' 50 3)"
    by (simp add: evictable_def example_entry_def example_sys_def example_index_def empty_cache_def
        time_sub_def second_def millisecond_def hour_def)
  note lru = trim_lru [OF example_index_ok(1) valid_example_order tr]
  have "dc_total dc' \<le> 80 \<or> lost_body example_index dc' ''ab34''"
    using conjunct1 [OF conjunct2 [OF lru]] cold by (auto simp del: example_index_entries(3))
  moreover have "\<not> lost_body example_index dc' ''ab12''"
    using conjunct2 [OF conjunct2 [OF lru], rule_format, of "''ab12''" "example_entry ''ab12'' 40 5"] pinned
    by auto
  ultimately show ?thesis using tr by blast
qed

theorem trim_minimal_witness:
  "\<exists>dc' t es. trim [''ab12'', ''ab34''] example_index example_sys = Some (dc', t)
    \<and> {k. lost_body example_index dc' k} = e_key ` set es \<and> dc_total dc' = total_after 90 es"
proof -
  obtain dc' t where tr: "trim [''ab12'', ''ab34''] example_index example_sys = Some (dc', t)"
    using trim_example by blast
  have "dc_total example_index = 90" by (simp add: example_index_def)
  with trim_minimal [OF example_index_ok(1) valid_example_order tr] tr show ?thesis by metis
qed

end
