(* ===== verification/Handler.thy ===== *)
theory Handler
  imports Node Trim
begin

text \<open>
  \<open>internal/handler/handler.go\<close>: the routing of requests, and what a client of the process may rely
  on. A run of a node is any sequence of gets, puts and uploads that finish in the background.
\<close>

text \<open>
  \<open>handleClose\<close>: wait for the uploads that are still running, unpin, trim (\<open>order\<close> is the order in
  which the entries are ranged over), close the connection.
\<close>

definition wait_remote :: "'v handler \<Rightarrow> 'v node \<Rightarrow> 'v node" where
  "wait_remote h n = (run_task h 0 ^^ length (n_tasks n)) n"

definition handle_close :: "'v handler \<Rightarrow> string list \<Rightarrow> request \<Rightarrow> 'v node \<Rightarrow> (response \<times> 'v node) option" where
  "handle_close h order req n =
     (let n1 = wait_remote h n; n2 = n1\<lparr>n_cache := unpin_all (n_cache n1)\<rparr> in
      case update_cache (trim order) n2 of
        None \<Rightarrow> None
      | Some n3 \<Rightarrow>
          Some (zero_response\<lparr>rs_id := rq_id req\<rparr>, if h_client h = None then n3 else n3\<lparr>n_closed := True\<rparr>))"

definition handle ::
    "'v handler \<Rightarrow> ctx \<Rightarrow> response option \<Rightarrow> string list \<Rightarrow> request \<Rightarrow> 'v node \<Rightarrow> (response \<times> 'v node) option" where
  "handle h ctx shared order req n =
     (if rq_command req = ''get'' then handle_get h ctx shared req n
      else if rq_command req = ''put'' then handle_put h req n
      else if rq_command req = ''close'' then handle_close h order req n
      else Some (zero_response\<lparr>rs_id := rq_id req, rs_err := ''unknown command: '' @ rq_command req\<rparr>, n))"

subsection \<open>Gets\<close>

lemma key_ok_action: "rq_actionID req \<noteq> [] \<Longrightarrow> key_ok (hex_encode (rq_actionID req))"
  using hex_encode_no_slash [of "rq_actionID req"] by (cases "rq_actionID req") (simp_all add: key_ok_def)

text \<open>The response is what the cache holds under the key.\<close>

definition serves :: "'v node \<Rightarrow> string \<Rightarrow> response \<Rightarrow> bool" where
  "serves n a resp \<longleftrightarrow> (\<exists>m. peek (n_disk n) a = Some (m, rs_diskPath resp)
     \<and> hex_decode (m_outputIDHex m) = Inr (rs_outputID resp) \<and> rs_size resp = m_size m \<and> rs_time resp = m_time m)"

lemma serves_hit:
  "peek (n_disk n) a = Some (m, p) \<Longrightarrow> hex_decode (m_outputIDHex m) = Inr outputID \<Longrightarrow>
   serves n a (hit_response req outputID (m_size m) p (m_time m))"
  by (simp add: serves_def hit_response_def)

text \<open>What a get leaves alone: other entries and their bodies.\<close>

definition others :: "path \<Rightarrow> string \<Rightarrow> 'v node \<Rightarrow> 'v node \<Rightarrow> bool" where
  "others dir a n n' \<longleftrightarrow> (\<forall>k. key_ok k \<longrightarrow> k \<noteq> a \<longrightarrow> peek (n_disk n') k = peek (n_disk n) k
     \<and> (\<forall>q. body_path dir k = Some q \<longrightarrow> sys_files (n_sys n') q = sys_files (n_sys n) q))"

lemma others_refl [simp]: "others dir a n n"
  by (simp add: others_def)

lemma others_trans [trans]: "others dir a n n' \<Longrightarrow> others dir a n' n'' \<Longrightarrow> others dir a n n''"
  by (simp add: others_def)

lemma others_frame [simp]:
  "others dir a n (n'\<lparr>n_synthetic := x\<rparr>) = others dir a n n'" "others dir a n (n'\<lparr>n_tasks := y\<rparr>) = others dir a n n'"
  "others dir a (n\<lparr>n_synthetic := x\<rparr>) n' = others dir a n n'" "others dir a (n\<lparr>n_tasks := y\<rparr>) n' = others dir a n n'"
  by (simp_all add: others_def)

lemma quiet_others: "quiet n n' \<Longrightarrow> node_ok dir n \<Longrightarrow> others dir a n n'"
proof -
  assume q: "quiet n n'" and ok: "node_ok dir n"
  then have qs: "quiet_sys (dc_dir (n_cache n)) (n_sys n) (n_sys n')" "dc_ok (n_cache n)" "n_cache n' = n_cache n"
    "dc_dir (n_cache n) = dir"
    by (simp_all add: quiet_def node_ok_def disk_inv_def)
  with quiet_peek [OF qs(1, 2)] quiet_sys_files(1) [OF qs(1)] body_not_temp(1) show ?thesis
    by (simp add: others_def)
qed

lemma download_node:
  assumes "node_ok dir n" and "key_ok a" and "m_casHash m = d_hash d" and "m_casSize m = d_size d"
    and "download_and_install c a d m n = Some (r, n')"
  shows "node_ok dir n' \<and> others dir a n n' \<and> (\<forall>p. r = Inr p \<longrightarrow> peek (n_disk n') a = Some (m, p))"
  using assms(5)
proof (cases rule: download_and_install_cases)
  case (failed e)
  with assms(1) show ?thesis by (auto intro: quiet_node_ok quiet_others)
next
  case (installed tmp n1 f)
  have ok: "node_ok dir n1" using quiet_node_ok installed(1) assms(1) .
  have dir: "dc_dir (n_cache n) = dir" using assms(1) by (simp add: node_ok_def disk_inv_def)
  note i = install_node [OF ok assms(2) installed(2) [unfolded dir] installed(3) _ _ installed(6)]
  have "others dir a n1 n'" using i(4, 5) installed(4, 5) assms(3, 4) by (simp add: others_def)
  with i(1, 3) installed assms quiet_others [OF installed(1) assms(1)] show ?thesis
    by (auto intro: others_trans)
qed

lemma remove_node:
  assumes "node_ok dir n" and "key_ok a"
    and "update_cache (remove_entry a) n = Some n'"
  shows "node_ok dir n' \<and> others dir a n n'"
proof -
  obtain dc s where r: "remove_entry a (n_cache n) (n_sys n) = Some (dc, s)"
    and n': "n' = n\<lparr>n_cache := dc, n_world := (n_world n)\<lparr>w_sys := s\<rparr>\<rparr>"
    using assms(3) by (auto simp: update_cache_def split: option.splits)
  have inv: "disk_inv dir (n_disk n)" "dc_ok (n_cache n)" and dir: "dc_dir (n_cache n) = dir"
    using assms(1) by (simp_all add: node_ok_def disk_inv_def)
  obtain bp mp where pp: "body_path dir a = Some bp" "metadata_path dir a = Some mp"
    using key_paths [OF assms(2)] by blast
  have s: "s = remove mp (remove bp (n_sys n))" and dc: "dc_entries dc = (dc_entries (n_cache n))(a := None)"
    "dc_dir dc = dir"
    using r pp dir by (auto simp: remove_entry_def Let_def split: option.splits)
  have t: "touches {bp, mp} (n_sys n) s"
    unfolding s by (rule touches_trans [OF calls_touch(8) calls_touch(8)]) simp_all
  have dirs: "sys_dirs s = sys_dirs (n_sys n)" by (simp add: s calls_dirs)
  have nf: "no_faults s" using touches_no_faults [OF t] inv by (simp add: disk_inv_def)
  have ok: "dc_ok dc" using inv(2) dc dir by (auto simp: dc_ok_def)
  have mp: "sys_files s mp = None"
    using inv by (simp add: s remove_def disk_inv_def)
  have gone: "peek (dc, s) a = None"
    using pp dc mp by (simp add: peek_def cached_meta_def disk_meta_def)
  have other: "peek (dc, s) k = peek (n_disk n) k \<and> (\<forall>q. body_path dir k = Some q \<longrightarrow> sys_files s q = sys_files (n_sys n) q)"
    if k: "key_ok k" "k \<noteq> a" for k
  proof -
    obtain bk mk where pk: "body_path dir k = Some bk" "metadata_path dir k = Some mk" using key_paths [OF k(1)] by blast
    have "bk \<notin> {bp, mp}" "mk \<notin> {bp, mp}"
      using pp pk k(2) body_path_inject [of dir a bp k] metadata_path_inject [of dir a mp k]
        body_metadata_differ [OF pk(1) pp(2)] body_metadata_differ [OF pp(1) pk(2)] by auto
    then have same: "sys_files s bk = sys_files (n_sys n) bk" "sys_files s mk = sys_files (n_sys n) mk"
      using t by (simp_all add: touches_def)
    have "p = bk" if "cached_meta k (n_cache n) = Some (m, p)" "p \<noteq> []" for m p
      using that inv(2) dc_ok_entry pk(1) dir by (fastforce simp: cached_meta_def split: option.splits)
    with same pk dc dirs k(2) dir have "peek (dc, s) k = peek (n_disk n) k"
      by (intro peek_cong) (auto simp: cached_meta_def on_disk_def disk_meta_def)
    with same pk show ?thesis by simp
  qed
  have path: "body_path dir k = Some q" if "peek (n_disk n) k = Some (m, q)" for k m q
    using peek_path(1) [OF inv(2) that] dir by simp
  have "intact n'"
    unfolding intact_def n' using gone other path assms(1) by (fastforce simp: node_ok_def intact_def)
  with ok nf dc other n' show ?thesis by (simp add: node_ok_def disk_inv_def others_def)
qed


text \<open>The outcome of a get: the invariant, the other entries, and a response that the cache backs.\<close>

definition get_outcome :: "path \<Rightarrow> string \<Rightarrow> request \<Rightarrow> 'v node \<Rightarrow> response \<times> 'v node \<Rightarrow> bool" where
  "get_outcome dir a req n rn \<longleftrightarrow> node_ok dir (snd rn) \<and> others dir a n (snd rn) \<and> rs_err (fst rn) = []
     \<and> rs_id (fst rn) = rq_id req \<and> (rs_miss (fst rn) \<or> serves (snd rn) a (fst rn))"

lemma miss_simps [simp]:
  "rs_miss (miss_response req)" "rs_err (miss_response req) = []" "rs_id (miss_response req) = rq_id req"
  "\<not> rs_miss (hit_response req x y p t)" "rs_err (hit_response req x y p t) = []"
  "rs_id (hit_response req x y p t) = rq_id req" "rs_diskPath (hit_response req x y p t) = p"
  "rs_outputID (hit_response req x y p t) = x" "rs_size (hit_response req x y p t) = y"
  by (simp_all add: miss_response_def hit_response_def zero_response_def)

lemma outcome_miss: "node_ok dir n' \<Longrightarrow> others dir a n n' \<Longrightarrow> get_outcome dir a req n (miss_response req, n')"
  by (simp add: get_outcome_def)

lemma outcome_hit:
  "node_ok dir n' \<Longrightarrow> others dir a n n' \<Longrightarrow> peek (n_disk n') a = Some (m, p) \<Longrightarrow>
   hex_decode (m_outputIDHex m) = Inr outputID \<Longrightarrow>
   get_outcome dir a req n (hit_response req outputID (m_size m) p (m_time m), n')"
  by (simp add: get_outcome_def serves_hit)

lemma outcome_trans: "others dir a n n1 \<Longrightarrow> get_outcome dir a req n1 rn \<Longrightarrow> get_outcome dir a req n rn"
  by (auto simp: get_outcome_def intro: others_trans)

lemma remote_ac_lookup_node:
  assumes "node_ok dir n" and "key_ok a" and "remote_ac_lookup h c ctx req a n = Some rn"
  shows "get_outcome dir a req n rn"
proof -
  obtain x cache where comp: "compute_synthetic_digests (h_marshal h) (h_dir h) a (n_synthetic n) = (x, cache)"
    by fastforce
  let ?n = "n\<lparr>n_synthetic := cache\<rparr>"
  have ok0: "node_ok dir ?n" and oth0: "others dir a n ?n" using assms(1) by simp_all
  show ?thesis
  proof (cases x)
    case (Inl e)
    with assms(3) comp outcome_miss [OF ok0 oth0] show ?thesis by (auto simp: remote_ac_lookup_def)
  next
    case (Inr sd)
    obtain y n1 where get: "on_world (get_action_result c ctx (sd_actionDigest sd)) ?n = (y, n1)" by fastforce
    have q: "quiet ?n n1" by (rule on_world_node [OF get retried_quiet(3)])
    have ok1: "node_ok dir n1" and oth1: "others dir a n n1"
      using quiet_node_ok [OF q ok0] others_trans [OF oth0 quiet_others [OF q ok0]] by simp_all
    note miss1 = outcome_miss [OF ok1 oth1, of req]
    show ?thesis
    proof (cases "\<exists>ar out outs outputID. y = Inr (Some ar) \<and> ar_output_files ar = out # outs \<and> hex_decode (of_path out) = Inr outputID")
      case False
      with assms(3) comp Inr get miss1 show ?thesis
        by (auto simp: remote_ac_lookup_def Let_def split: sum.splits option.splits list.splits)
    next
      case True
      then obtain ar out outs outputID where ar: "y = Inr (Some ar)" "ar_output_files ar = out # outs"
        "hex_decode (of_path out) = Inr outputID" by blast
      obtain t n2 where t: "on_sys now n1 = (t, n2)" by (cases "on_sys now n1")
      have q2: "quiet n1 n2" by (rule on_sys_quiet [OF t]) (rule quiet_sys_calls)
      have ok2: "node_ok dir n2" and oth2: "others dir a n n2"
        using quiet_node_ok [OF q2 ok1] others_trans [OF oth1 quiet_others [OF q2 ok1]] by simp_all
      let ?d = "digest_from_proto (of_digest out)"
      let ?m = "\<lparr>m_outputIDHex = of_path out, m_size = d_size ?d, m_time = t, m_casHash = d_hash ?d, m_casSize = d_size ?d\<rparr>"
      obtain r n3 where dl: "download_and_install c a ?d ?m n2 = Some (r, n3)"
        using assms(3) comp Inr get ar t
        by (cases "download_and_install c a ?d ?m n2") (auto simp: remote_ac_lookup_def Let_def)
      have d: "node_ok dir n3" "others dir a n2 n3" "\<And>p. r = Inr p \<Longrightarrow> peek (n_disk n3) a = Some (?m, p)"
        using download_node [OF ok2 assms(2) _ _ dl] by simp_all
      note oth3 = others_trans [OF oth2 d(2)]
      show ?thesis
      proof (cases r)
        case (Inl e)
        with assms(3) comp Inr get ar t dl outcome_miss [OF d(1) oth3] show ?thesis
          by (auto simp: remote_ac_lookup_def Let_def)
      next
        case (Inr p)
        have "rn = (hit_response req outputID (m_size ?m) p (m_time ?m), n3)"
          using assms(3) comp \<open>x = Inr sd\<close> get ar t dl Inr by (simp add: remote_ac_lookup_def Let_def)
        with outcome_hit [OF d(1) oth3 d(3) [OF Inr]] ar(3) show ?thesis by simp
      qed
    qed
  qed
qed

lemma outcome_copy: "get_outcome dir a req n (orig, n') \<Longrightarrow> get_outcome dir a req n (copy_response req orig, n')"
  by (simp add: get_outcome_def copy_response_def serves_def)

lemma lookup_remote_node:
  assumes "node_ok dir n" and "key_ok a" and "lookup_remote h ctx None req a n = Some rn"
  shows "get_outcome dir a req n rn"
proof (cases "h_client h")
  case None
  with assms outcome_miss [OF assms(1) others_refl] show ?thesis by (auto simp: lookup_remote_def)
next
  case (Some c)
  with assms(3) obtain orig n1 where l: "remote_ac_lookup h c ctx req a n = Some (orig, n1)"
    "rn = (copy_response req orig, n1)"
    by (auto simp: lookup_remote_def split: option.splits)
  from outcome_copy [OF remote_ac_lookup_node [OF assms(1, 2) l(1)]] l(2) show ?thesis by simp
qed

lemma refill_node:
  assumes "node_ok dir n" and "key_ok a" and "refill_from_cas c req a m n = Some (x, n')"
  shows "node_ok dir n' \<and> others dir a n n' \<and> (\<forall>resp. x = Some resp \<longrightarrow> get_outcome dir a req n (resp, n'))"
proof -
  let ?d = "\<lparr>d_hash = m_casHash m, d_size = m_casSize m\<rparr>"
  obtain r n1 where dl: "download_and_install c a ?d m n = Some (r, n1)"
    using assms(3) by (cases "download_and_install c a ?d m n") (auto simp: refill_from_cas_def)
  have d: "node_ok dir n1" "others dir a n n1" "\<And>p. r = Inr p \<Longrightarrow> peek (n_disk n1) a = Some (m, p)"
    using download_node [OF assms(1, 2) _ _ dl] by simp_all
  have "n' = n1" and "x = Some resp \<Longrightarrow> \<exists>p outputID. r = Inr p \<and> hex_decode (m_outputIDHex m) = Inr outputID
      \<and> resp = hit_response req outputID (m_size m) p (m_time m)" for resp
    using assms(3) dl by (auto simp: refill_from_cas_def split: sum.splits)
  with d outcome_hit [OF d(1, 2) d(3)] show ?thesis by auto
qed

text \<open>A caller that shares another's lookup gets a copy of that response.\<close>

definition get_result :: "path \<Rightarrow> string \<Rightarrow> request \<Rightarrow> 'v node \<Rightarrow> response option \<Rightarrow> response \<times> 'v node \<Rightarrow> bool" where
  "get_result dir a req n shared rn \<longleftrightarrow> node_ok dir (snd rn) \<and> others dir a n (snd rn)
     \<and> rs_id (fst rn) = rq_id req \<and> (shared = None \<longrightarrow> get_outcome dir a req n rn)"

lemma outcome_result: "get_outcome dir a req n rn \<Longrightarrow> get_result dir a req n shared rn"
  by (simp add: get_result_def get_outcome_def)

lemma result_trans: "others dir a n n1 \<Longrightarrow> get_result dir a req n1 shared rn \<Longrightarrow> get_result dir a req n shared rn"
  by (auto simp: get_result_def intro: others_trans outcome_trans)

lemma lookup_remote_result:
  assumes "node_ok dir n" and "key_ok a" and "lookup_remote h ctx shared req a n = Some rn"
  shows "get_result dir a req n shared rn"
proof (cases shared)
  case None
  with lookup_remote_node [OF assms(1, 2), of h ctx req rn] assms(3) show ?thesis by (simp add: outcome_result)
next
  case (Some orig)
  with assms show ?thesis
    by (auto simp: lookup_remote_def get_result_def copy_response_def split: option.splits)
qed

lemma handle_get_node:
  assumes "node_ok dir n" and "rq_actionID req \<noteq> []" and "handle_get h ctx shared req n = Some rn"
  shows "get_result dir (hex_encode (rq_actionID req)) req n shared rn"
proof -
  let ?a = "hex_encode (rq_actionID req)"
  note key = key_ok_action [OF assms(2)]
  obtain meta bp hit n1 where l: "on_cache (lookup ?a) n = Some ((meta, bp, hit), n1)"
    using assms(3) by (cases "on_cache (lookup ?a) n") (auto simp: handle_get_def Let_def)
  note lk = lookup_node [OF assms(1) key l]
  have ok1: "node_ok dir n1" and oth1: "others dir ?a n n1" using lk(1-3) by (simp_all add: others_def)
  note after = outcome_result [OF outcome_trans [OF oth1]]
  show ?thesis
  proof (cases hit)
    case True
    obtain m q where pk: "peek (n_disk n) ?a = Some (m, q)" using lk(5) True by fastforce
    then have m: "meta = Some m" "bp = q" using lk(4) by blast+
    have pk1: "peek (n_disk n1) ?a = Some (m, q)" using lk(2) pk by simp
    show ?thesis
    proof (cases "hex_decode (m_outputIDHex m)")
      case (Inr outputID)
      with assms(3) l m True outcome_result [OF outcome_hit [OF ok1 oth1 pk1]] show ?thesis by (auto simp: handle_get_def Let_def)
    next
      case (Inl e)
      with assms(3) l m True obtain n2 where r: "update_cache (remove_entry ?a) n1 = Some n2"
        "rn = (miss_response req, n2)"
        by (auto simp: handle_get_def Let_def)
      with remove_node [OF ok1 key r(1)] outcome_miss after show ?thesis by blast
    qed
  next
    case False
    have last: "get_result dir ?a req n shared rn" if "lookup_remote h ctx shared req ?a n2 = Some rn" "node_ok dir n2"
      "others dir ?a n n2" for n2
      using lookup_remote_result [OF that(2) key that(1)] that(3) result_trans by blast
    show ?thesis
    proof (cases "meta = None \<or> h_client h = None")
      case True
      with assms(3) l False have "lookup_remote h ctx shared req ?a n1 = Some rn"
        by (cases meta) (auto simp: handle_get_def Let_def)
      from last [OF this ok1 oth1] show ?thesis .
    next
      case some: False
      then obtain m c where mc: "meta = Some m" "h_client h = Some c" by auto
      then obtain x n2 where rf: "refill_from_cas c req ?a m n1 = Some (x, n2)"
        using assms(3) l False
        by (cases "refill_from_cas c req ?a m n1") (auto simp: handle_get_def Let_def)
      note ref = refill_node [OF ok1 key rf]
      show ?thesis
      proof (cases x)
        case (Some resp)
        with assms(3) l False mc rf ref after show ?thesis by (auto simp: handle_get_def Let_def)
      next
        case None
        with assms(3) l False mc rf have "lookup_remote h ctx shared req ?a n2 = Some rn"
          by (simp add: handle_get_def Let_def)
        from last [OF this] ref oth1 others_trans show ?thesis by blast
      qed
    qed
  qed
qed


subsection \<open>Puts\<close>

lemma write_body_cases [consumes 2, case_names failed written]:
  assumes "write_body_to_temp body n = (x, n')" and "node_ok dir n"
  obtains e where "x = Inl e" and "quiet n n'"
  | tmp f where "x = Inr (\<lparr>d_hash = hex_encode (sha256 body), d_size = int (length body)\<rparr>, tmp)" and "quiet n n'"
      and "tmp \<in> temps dir" and "sys_files (n_sys n') tmp = Some f" and "f_data f = body"
proof -
  obtain y n1 where t: "on_sys (temp_file (n_cache n)) n = (y, n1)" by (cases "on_sys (temp_file (n_cache n)) n")
  note q1 = temp_file_quiet(1) [OF t]
  have dir: "dc_dir (n_cache n) = dir" "dc_dir (n_cache n1) = dir"
    using assms(2) q1 by (simp_all add: node_ok_def disk_inv_def quiet_def)
  show thesis
  proof (cases y)
    case (Inl e)
    with assms(1) t have "x = Inl e" "n' = n1" by (auto simp: write_body_to_temp_def)
    with q1 that(1) show thesis by simp
  next
    case (Inr tmp)
    have tmp: "tmp \<in> temps dir" "holds tmp ([], n_world n1)" using temp_file_quiet(2) [OF t Inr] dir by simp_all
    obtain z n2 where w: "on_sys (write_data tmp body) n1 = (z, n2)" by (cases "on_sys (write_data tmp body) n1")
    have q2: "quiet n n2"
      using q1 on_sys_quiet [OF w] quiet_sys_calls(9) [OF tmp(1)] dir(2) by (auto intro: quiet_trans)
    obtain v n3 where cl: "on_sys (close_file tmp) n2 = (v, n3)" by (cases "on_sys (close_file tmp) n2")
    have q3: "quiet n n3" using close_temp_quiet [of n2 tmp] cl q2 by (auto intro: quiet_trans)
    have rm: "quiet n (remove_temp tmp n3)"
      using q3 remove_temp_quiet [of tmp n3] tmp(1) dir(1) by (auto simp: quiet_def intro: quiet_sys_trans)
    show thesis
    proof (cases "isl z \<or> isl v")
      case True
      then have "\<exists>e. x = Inl e \<and> n' = remove_temp tmp n3"
        using assms(1) t Inr w cl by (cases z; cases v) (auto simp: write_body_to_temp_def)
      with rm that(1) show thesis by blast
    next
      case False
      then have x: "x = Inr (\<lparr>d_hash = hex_encode (sha256 body), d_size = int (length body)\<rparr>, tmp)" "n' = n3"
        using assms(1) t Inr w cl by (cases z; cases v; auto simp: write_body_to_temp_def)+
      have wd: "write_data tmp body (n_sys n1) = (z, n_sys n2)" using w unfolding on_sys_eq by blast
      then have "n_sys n2 = called (append_data tmp body (n_sys n1))"
        using False by (auto simp: write_data_def split: option.splits)
      with tmp(2) have "holds tmp (body, n_world n2)"
        by (auto simp: holds_def append_data_def)
      then have "holds tmp (body, n_world n3)" using on_sys_holds [OF cl] by simp
      with that(2) x q3 tmp(1) show thesis by (auto simp: holds_def)
    qed
  qed
qed

text \<open>After a put without error the cache holds the body under the key.\<close>

definition holds_body :: "'v node \<Rightarrow> string \<Rightarrow> request \<Rightarrow> path \<Rightarrow> bool" where
  "holds_body n a req p \<longleftrightarrow> (\<exists>m f. peek (n_disk n) a = Some (m, p) \<and> m_outputIDHex m = hex_encode (rq_outputID req)
     \<and> m_size m = rq_bodySize req \<and> sys_files (n_sys n) p = Some f \<and> f_data f = rq_body req)"

lemma put_error_simps [simp]: "rs_id (put_error req msg) = rq_id req" "rs_err (put_error req msg) = msg"
  by (simp_all add: put_error_def)

lemma handle_put_node:
  assumes "node_ok dir n" and "rq_actionID req \<noteq> []" and "handle_put h req n = Some (resp, n')"
  shows "node_ok dir n' \<and> others dir (hex_encode (rq_actionID req)) n n' \<and> rs_id resp = rq_id req
    \<and> (rs_err resp = [] \<longrightarrow> holds_body n' (hex_encode (rq_actionID req)) req (rs_diskPath resp))"
proof (cases "0 < h_maxArtifactSize h \<and> h_maxArtifactSize h < rq_bodySize req")
  case True
  with assms show ?thesis by (auto simp: handle_put_def)
next
  case False
  let ?a = "hex_encode (rq_actionID req)"
  note key = key_ok_action [OF assms(2)]
  obtain x n1 where w: "write_body_to_temp (rq_body req) n = (x, n1)" by (cases "write_body_to_temp (rq_body req) n")
  from w assms(1) show ?thesis
  proof (cases rule: write_body_cases)
    case (failed e)
    then show ?thesis
      using assms w False by (auto simp: handle_put_def Let_def intro: quiet_node_ok quiet_others)
  next
    case (written tmp f)
    let ?d = "\<lparr>d_hash = hex_encode (sha256 (rq_body req)), d_size = int (length (rq_body req))\<rparr>"
    obtain t n2 where t: "on_sys now n1 = (t, n2)" by (cases "on_sys now n1")
    have q: "quiet n n2" using written(2) on_sys_quiet [OF t quiet_sys_calls(1)] by (rule quiet_trans)
    have f: "sys_files (n_sys n2) tmp = Some f"
      using written(4) calls_file(1) t unfolding on_sys_eq by metis
    note ok = quiet_node_ok [OF q assms(1)] and oth = quiet_others [OF q assms(1)]
    let ?m = "\<lparr>m_outputIDHex = hex_encode (rq_outputID req), m_size = rq_bodySize req, m_time = t,
        m_casHash = d_hash ?d, m_casSize = d_size ?d\<rparr>"
    obtain r n3 where i: "on_cache (install ?a tmp ?m) n2 = Some (r, n3)"
      using assms(3) w written(1) t False
      by (cases "on_cache (install ?a tmp ?m) n2") (auto simp: handle_put_def Let_def)
    note inst = install_node [OF ok key written(3) f _ _ i]
    have inst1: "node_ok dir n3" "others dir ?a n2 n3"
      "\<And>p. r = Inr p \<Longrightarrow> peek (n_disk n3) ?a = Some (?m, p) \<and> sys_files (n_sys n3) p = Some f"
      using inst(1, 3, 4, 5) written(5) by (simp_all add: others_def)
    note oth3 = others_trans [OF oth inst1(2)]
    show ?thesis
    proof (cases r)
      case (Inl e)
      with assms(3) w written(1) t False i inst1(1) oth3 show ?thesis
        by (auto simp: handle_put_def Let_def)
    next
      case (Inr p)
      then have hb: "holds_body n3 ?a req p" using inst1(3) written(5) by (auto simp: holds_body_def)
      have resp: "resp = zero_response\<lparr>rs_id := rq_id req, rs_diskPath := p\<rparr>"
        and n': "n' = (if h_client h = None then n3 else n3\<lparr>n_tasks := n_tasks n3 @
            [\<lparr>pp_actionIDHex = ?a, pp_outputIDHex = hex_encode (rq_outputID req), pp_body = p, pp_digest = ?d\<rparr>]\<rparr>)"
        using assms(3) w written(1) t False i Inr by (simp_all add: handle_put_def Let_def split: if_splits)
      have "node_ok dir n'" "others dir ?a n n'" "holds_body n' ?a req p"
        using inst1(1) oth3 hb n' by (simp_all add: holds_body_def split: if_splits)
      with resp show ?thesis by simp
    qed
  qed
qed

end
