(* ===== verification/Fake.thy ===== *)
theory Fake
  imports Cas Text
begin

text \<open>
  The in-process REAPI server of \<open>testutil/fakereapi/server.go\<close>, which the repository's tests run the
  client against: content-addressed storage, action cache, byte streams and capabilities, with a
  hook per method for fault injection.
\<close>

record fake =
  fk_blobs :: "string \<rightharpoonup> bytes"
  fk_actionCache :: "string \<rightharpoonup> action_result"
  fk_updateEnabled :: bool
  fk_stream :: "write_request list"

text \<open>
  \<open>fk_stream\<close> holds what the client has sent on the write stream that is open; the \<open>Write\<close> method
  receives it when the client closes the stream.

  The hooks: \<open>None\<close> for the normal handling.
\<close>

record hooks =
  on_find_missing :: "(string \<Rightarrow> proto_digest list \<Rightarrow> fake \<Rightarrow> (err + proto_digest list) \<times> fake) option"
  on_get_action :: "(string \<Rightarrow> proto_digest \<Rightarrow> fake \<Rightarrow> (err + action_result) \<times> fake) option"
  on_update_action :: "(string \<Rightarrow> proto_digest \<Rightarrow> action_result \<Rightarrow> fake \<Rightarrow> (err + action_result) \<times> fake) option"
  on_batch_read :: "(string \<Rightarrow> proto_digest list \<Rightarrow> fake \<Rightarrow> (err + read_response list) \<times> fake) option"
  on_batch_update :: "(string \<Rightarrow> (proto_digest \<times> bytes) list \<Rightarrow> fake \<Rightarrow> (err + update_response list) \<times> fake) option"
  on_stream_read :: "(string \<Rightarrow> int \<Rightarrow> fake \<Rightarrow> (err + bytes list \<times> err option) \<times> fake) option"
  on_stream_write :: "(write_request list \<Rightarrow> fake \<Rightarrow> (err + int) \<times> fake) option"

definition no_hooks :: hooks where
  "no_hooks = \<lparr>on_find_missing = None, on_get_action = None, on_update_action = None, on_batch_read = None,
     on_batch_update = None, on_stream_read = None, on_stream_write = None\<rparr>"

definition new_fake :: fake where
  "new_fake = \<lparr>fk_blobs = Map.empty, fk_actionCache = Map.empty, fk_updateEnabled = True, fk_stream = []\<rparr>"

definition set_update_enabled :: "bool \<Rightarrow> fake \<Rightarrow> fake" where
  "set_update_enabled b v = v\<lparr>fk_updateEnabled := b\<rparr>"

definition put_blob :: "string \<Rightarrow> bytes \<Rightarrow> fake \<Rightarrow> fake" where
  "put_blob h data v = v\<lparr>fk_blobs := (fk_blobs v)(h \<mapsto> data)\<rparr>"

definition get_blob :: "string \<Rightarrow> fake \<Rightarrow> bytes option" where
  "get_blob h v = fk_blobs v h"

definition put_action_result :: "string \<Rightarrow> action_result \<Rightarrow> fake \<Rightarrow> fake" where
  "put_action_result h ar v = v\<lparr>fk_actionCache := (fk_actionCache v)(h \<mapsto> ar)\<rparr>"

subsection \<open>Capabilities and the action cache\<close>

definition fake_capabilities :: "string \<Rightarrow> fake \<Rightarrow> (err + cache_capabilities option) \<times> fake" where
  "fake_capabilities inst v =
     (Inr (Some \<lparr>cc_max_batch = 4 * 1024 * 1024, cc_update = Some (fk_updateEnabled v)\<rparr>), v)"

definition fake_get_action :: "string \<Rightarrow> proto_digest \<Rightarrow> fake \<Rightarrow> (err + action_result) \<times> fake" where
  "fake_get_action inst d v =
     (case fk_actionCache v (pd_hash d) of
        None \<Rightarrow> (Inl (Status NotFound ''action result not found''), v)
      | Some ar \<Rightarrow> (Inr ar, v))"

definition fake_update_action ::
    "string \<Rightarrow> proto_digest \<Rightarrow> action_result \<Rightarrow> fake \<Rightarrow> (err + action_result) \<times> fake" where
  "fake_update_action inst d ar v =
     (if \<not> fk_updateEnabled v then (Inl (Status PermissionDenied ''AC updates disabled''), v)
      else (Inr ar, v\<lparr>fk_actionCache := (fk_actionCache v)(pd_hash d \<mapsto> ar)\<rparr>))"

subsection \<open>Content-addressed storage\<close>

definition fake_find_missing :: "string \<Rightarrow> proto_digest list \<Rightarrow> fake \<Rightarrow> (err + proto_digest list) \<times> fake" where
  "fake_find_missing inst ds v = (Inr (filter (\<lambda>d. fk_blobs v (pd_hash d) = None) ds), v)"

fun update_blobs :: "(proto_digest \<times> bytes) list \<Rightarrow> fake \<Rightarrow> update_response list \<times> fake" where
  "update_blobs [] v = ([], v)"
| "update_blobs ((d, data) # reqs) v =
     (let h = hex_encode (sha256 data) in
      if h \<noteq> pd_hash d
      then (case update_blobs reqs v of (rs, v1) \<Rightarrow>
             (\<lparr>ur_digest = d, ur_code = InvalidArgument, ur_message = ''digest mismatch''\<rparr> # rs, v1))
      else (case update_blobs reqs (v\<lparr>fk_blobs := (fk_blobs v)(h \<mapsto> data)\<rparr>) of (rs, v1) \<Rightarrow>
             (\<lparr>ur_digest = d, ur_code = OK, ur_message = []\<rparr> # rs, v1)))"

definition fake_batch_update ::
    "string \<Rightarrow> (proto_digest \<times> bytes) list \<Rightarrow> fake \<Rightarrow> (err + update_response list) \<times> fake" where
  "fake_batch_update inst reqs v = (case update_blobs reqs v of (rs, v1) \<Rightarrow> (Inr rs, v1))"

definition read_blob :: "fake \<Rightarrow> proto_digest \<Rightarrow> read_response" where
  "read_blob v d =
     (case fk_blobs v (pd_hash d) of
        None \<Rightarrow> \<lparr>rr_digest = d, rr_code = NotFound, rr_message = ''blob not found'', rr_data = []\<rparr>
      | Some data \<Rightarrow> \<lparr>rr_digest = d, rr_code = OK, rr_message = [], rr_data = data\<rparr>)"

definition fake_batch_read :: "string \<Rightarrow> proto_digest list \<Rightarrow> fake \<Rightarrow> (err + read_response list) \<times> fake" where
  "fake_batch_read inst ds v = (Inr (map (read_blob v) ds), v)"

subsection \<open>Resource names\<close>

text \<open>A range over a string: its runes, each encoded again; an invalid byte is U+FFFD.\<close>

function runes :: "string \<Rightarrow> string list" where
  "runes s =
     (if s = [] then []
      else case decode_rune s of
             None \<Rightarrow> encode_rune 0xFFFD # runes (drop 1 s)
           | Some (r, n) \<Rightarrow> encode_rune r # runes (drop n s))"
  by pat_completeness auto

termination
  by (relation "measure length") (auto dest: decode_rune_width)

declare runes.simps [simp del]

fun split_parts :: "string list \<Rightarrow> string \<Rightarrow> string list" where
  "split_parts [] current = (if current \<noteq> [] then [current] else [])"
| "split_parts (c # cs) current =
     (if c = ''/'' then (if current \<noteq> [] then [current] else []) @ split_parts cs []
      else split_parts cs (current @ c))"

definition split_resource :: "string \<Rightarrow> string list" where
  "split_resource name = split_parts (runes name) []"

fun blob_segment :: "string list \<Rightarrow> string option" where
  "blob_segment [] = None"
| "blob_segment (p # rest) =
     (if p = ''blobs'' \<and> 2 \<le> length rest then Some (rest ! 0) else blob_segment rest)"

definition bad_name :: "string \<Rightarrow> err" where
  "bad_name name = Plain (''expected blobs/{hash}/{size} in resource name '' @ go_quote name)"

definition parse_blob_read_resource :: "string \<Rightarrow> err + string" where
  "parse_blob_read_resource name =
     (case blob_segment (split_resource name) of Some h \<Rightarrow> Inr h | None \<Rightarrow> Inl (bad_name name))"

definition parse_blob_write_resource :: "string \<Rightarrow> err + string" where
  "parse_blob_write_resource name =
     (case blob_segment (split_resource name) of Some h \<Rightarrow> Inr h | None \<Rightarrow> Inl (bad_name name))"

definition bad_resource :: "err \<Rightarrow> err" where
  "bad_resource e = Status InvalidArgument (''bad resource name: '' @ err_text e)"

subsection \<open>Byte streams\<close>

text \<open>Chunks of 1 MiB. (A negative offset, which would panic, is read as 0; the client sends 0.)\<close>

definition chunk_size :: nat where
  "chunk_size = 1024 * 1024"

function chunked :: "bytes \<Rightarrow> bytes list" where
  "chunked data = (if data = [] then [] else take chunk_size data # chunked (drop chunk_size data))"
  by pat_completeness auto

termination
  by (relation "measure length") (auto simp: chunk_size_def)

declare chunked.simps [simp del]

definition fake_stream_read ::
    "string \<Rightarrow> int \<Rightarrow> fake \<Rightarrow> (err + bytes list \<times> err option) \<times> fake" where
  "fake_stream_read name offset v =
     (case parse_blob_read_resource name of
        Inl e \<Rightarrow> (Inr ([], Some (bad_resource e)), v)
      | Inr h \<Rightarrow>
         (case fk_blobs v h of
            None \<Rightarrow> (Inr ([], Some (Status NotFound ''blob not found'')), v)
          | Some data \<Rightarrow> (Inr (chunked (drop (min (nat offset) (length data)) data), None), v)))"

text \<open>The receive loop of \<open>Write\<close>: the bytes so far and the hash, once a resource name was seen.\<close>

fun write_receive :: "write_request list \<Rightarrow> bytes \<Rightarrow> string option \<Rightarrow> err + bytes \<times> string option" where
  "write_receive [] buf hash_set = Inr (buf, hash_set)"
| "write_receive (r # rs) buf hash_set =
     (case (if hash_set = None \<and> wr_resource r \<noteq> []
            then case parse_blob_write_resource (wr_resource r) of
                   Inl e \<Rightarrow> Inl (bad_resource e)
                 | Inr h \<Rightarrow> Inr (Some h)
            else Inr hash_set) of
        Inl e \<Rightarrow> Inl e
      | Inr hs \<Rightarrow>
          if wr_finish r then Inr (buf @ wr_data r, hs)
          else write_receive rs (buf @ wr_data r) hs)"

definition fake_stream_write :: "write_request list \<Rightarrow> fake \<Rightarrow> (err + int) \<times> fake" where
  "fake_stream_write reqs v =
     (case write_receive reqs [] None of
        Inl e \<Rightarrow> (Inl e, v)
      | Inr (data, None) \<Rightarrow> (Inl (Status InvalidArgument ''no resource name provided''), v)
      | Inr (data, Some h) \<Rightarrow>
          (let computed = hex_encode (sha256 data) in
           if computed \<noteq> h
           then (Inl (Status InvalidArgument
                   (''digest mismatch: expected '' @ h @ '', got '' @ computed)), v)
           else (Inr (int (length data)), v\<lparr>fk_blobs := (fk_blobs v)(h \<mapsto> data)\<rparr>)))"

subsection \<open>The server\<close>

definition hooked :: "'f option \<Rightarrow> 'f \<Rightarrow> 'f" where
  "hooked hook normal = (case hook of None \<Rightarrow> normal | Some f \<Rightarrow> f)"

definition fake_write_close :: "hooks \<Rightarrow> fake \<Rightarrow> (err + int) \<times> fake" where
  "fake_write_close hk v =
     hooked (on_stream_write hk) fake_stream_write (fk_stream v) (v\<lparr>fk_stream := []\<rparr>)"

definition fake_server :: "hooks \<Rightarrow> fake server" where
  "fake_server hk =
     \<lparr>find_missing_blobs = hooked (on_find_missing hk) fake_find_missing,
      batch_update_blobs = hooked (on_batch_update hk) fake_batch_update,
      batch_read_blobs = hooked (on_batch_read hk) fake_batch_read,
      write_open = (\<lambda>v. (None, v\<lparr>fk_stream := []\<rparr>)),
      write_send = (\<lambda>r v. (None, v\<lparr>fk_stream := fk_stream v @ [r]\<rparr>)),
      write_close = fake_write_close hk,
      write_cancel = (\<lambda>v. v\<lparr>fk_stream := []\<rparr>),
      stream_read = hooked (on_stream_read hk) fake_stream_read,
      get_action = hooked (on_get_action hk) fake_get_action,
      update_action = hooked (on_update_action hk) fake_update_action,
      get_capabilities = fake_capabilities\<rparr>"

end
