(* ===== verification/Contract.thy ===== *)
theory Contract
  imports Fake Remote
begin

text \<open>
  The fake server of \<open>testutil/fakereapi\<close> keeps the contract of a remote cache, also when its hooks
  inject failures: the interpretation of the locale \<open>remote_cache\<close>.
\<close>

subsection \<open>Resource names\<close>

lemma runes_ascii: "list_all (\<lambda>c. code_of c < 0x80) s \<Longrightarrow> runes s = map (\<lambda>c. [c]) s"
proof (induction s)
  case (Cons c s)
  then have c: "code_of c < 0x80" by simp
  then have "encode_rune (code_of c) = [c]"
    by (simp add: encode_rune_def Let_def)
  with Cons decode_rune_ascii [OF c, of s] show ?case by (subst runes.simps) simp
qed (simp add: runes.simps)

lemma split_parts_slash:
  "split_parts (xs @ ''/'' # ys) cur = split_parts xs cur @ split_parts ys []"
  by (induction xs arbitrary: cur) auto

lemma split_parts_segment:
  "CHR ''/'' \<notin> set s \<Longrightarrow> split_parts (map (\<lambda>c. [c]) s) cur = (if cur @ s = [] then [] else [cur @ s])"
  by (induction s arbitrary: cur) auto

definition seg_ok :: "string \<Rightarrow> bool" where
  "seg_ok s \<longleftrightarrow> list_all (\<lambda>c. code_of c < 0x80) s \<and> CHR ''/'' \<notin> set s \<and> s \<noteq> [] \<and> s \<noteq> ''blobs''"

definition inst_ok :: "string \<Rightarrow> bool" where
  "inst_ok i \<longleftrightarrow> list_all (\<lambda>c. code_of c < 0x80) i \<and> ''blobs'' \<notin> set (split_resource i)"

lemma show_int_plain: "list_all (\<lambda>c. code_of c < 0x80) (show_int n)" "CHR ''/'' \<notin> set (show_int n)"
proof -
  have "list_all (\<lambda>c. is_digit c \<or> c = CHR ''-'') (show_int n)"
    using nat_digits_parse by (auto simp: show_int_def list_all_iff)
  then have "code_of c < 0x80 \<and> c \<noteq> CHR ''/''" if "c \<in> set (show_int n)" for c
    using that by (auto simp: list_all_iff is_digit_def)
  then show "list_all (\<lambda>c. code_of c < 0x80) (show_int n)" "CHR ''/'' \<notin> set (show_int n)"
    by (auto simp: list_all_iff)
qed

lemma split_resource_append:
  assumes "list_all (\<lambda>c. code_of c < 0x80) i" and "list_all (\<lambda>c. code_of c < 0x80) r"
  shows "split_resource (i @ CHR ''/'' # r) = split_resource i @ split_resource r"
  using assms by (simp add: split_resource_def runes_ascii split_parts_slash)

lemma split_resource_segment:
  "list_all (\<lambda>c. code_of c < 0x80) s \<Longrightarrow> CHR ''/'' \<notin> set s \<Longrightarrow> s \<noteq> [] \<Longrightarrow> split_resource s = [s]"
  by (simp add: split_resource_def runes_ascii split_parts_segment)

lemma blob_segment_found:
  "''blobs'' \<notin> set xs \<Longrightarrow> blob_segment (xs @ [''blobs'', h, n]) = Some h"
  by (induction xs) auto

lemma split_blob_suffix:
  assumes "seg_ok h"
  shows "split_resource (''blobs/'' @ h @ CHR ''/'' # show_int n) = [''blobs'', h, show_int n]"
proof -
  have "split_resource (h @ CHR ''/'' # show_int n) = [h, show_int n]"
    using assms show_int_plain [of n] by (simp add: split_resource_append split_resource_segment seg_ok_def)
  moreover have "split_resource ''blobs'' = [''blobs'']" by (simp add: split_resource_segment)
  ultimately show ?thesis
    using split_resource_append [of "''blobs''" "h @ CHR ''/'' # show_int n"] assms show_int_plain [of n]
    by (simp add: seg_ok_def)
qed

text \<open>Both resource names that the client writes are read back by the server as the blob's hash.\<close>

lemma parse_write_resource:
  assumes "inst_ok i" and "seg_ok u" and "seg_ok h"
  shows "parse_blob_write_resource (i @ ''/uploads/'' @ u @ ''/blobs/'' @ h @ ''/'' @ show_int n) = Inr h"
proof -
  define tail where "tail = ''blobs/'' @ h @ CHR ''/'' # show_int n"
  have tail: "split_resource tail = [''blobs'', h, show_int n]" "list_all (\<lambda>c. code_of c < 0x80) tail"
    using split_blob_suffix [OF assms(3)] assms(3) show_int_plain [of n] by (simp_all add: tail_def seg_ok_def)
  have "split_resource (u @ CHR ''/'' # tail) = u # split_resource tail"
    using assms(2) tail by (simp add: split_resource_append split_resource_segment seg_ok_def)
  moreover have "split_resource ''uploads'' = [''uploads'']" by (simp add: split_resource_segment)
  ultimately have "split_resource (''uploads'' @ CHR ''/'' # u @ CHR ''/'' # tail) = [''uploads'', u] @ split_resource tail"
    using split_resource_append [of "''uploads''" "u @ CHR ''/'' # tail"] assms(2) tail
    by (simp add: seg_ok_def)
  then have "split_resource (i @ CHR ''/'' # ''uploads'' @ CHR ''/'' # u @ CHR ''/'' # tail)
      = (split_resource i @ [''uploads'', u]) @ [''blobs'', h, show_int n]"
    using assms tail split_resource_append [of i "''uploads'' @ CHR ''/'' # u @ CHR ''/'' # tail"]
    by (simp add: seg_ok_def inst_ok_def)
  moreover have "''blobs'' \<notin> set (split_resource i @ [''uploads'', u])"
    using assms by (auto simp: seg_ok_def inst_ok_def)
  ultimately show ?thesis
    using blob_segment_found [of "split_resource i @ [''uploads'', u]" h "show_int n"]
    by (simp add: parse_blob_write_resource_def tail_def)
qed

lemma parse_read_resource:
  assumes "inst_ok i" and "seg_ok h"
  shows "parse_blob_read_resource (i @ ''/blobs/'' @ h @ ''/'' @ show_int n) = Inr h"
proof -
  define tail where "tail = ''blobs/'' @ h @ CHR ''/'' # show_int n"
  have tail: "split_resource tail = [''blobs'', h, show_int n]" "list_all (\<lambda>c. code_of c < 0x80) tail"
    using split_blob_suffix [OF assms(2)] assms(2) show_int_plain [of n] by (simp_all add: tail_def seg_ok_def)
  then have "split_resource (i @ CHR ''/'' # tail) = split_resource i @ [''blobs'', h, show_int n]"
    using assms(1) split_resource_append [of i tail] by (simp add: inst_ok_def)
  moreover have "''blobs'' \<notin> set (split_resource i)" using assms by (simp add: inst_ok_def)
  ultimately show ?thesis
    using blob_segment_found by (simp add: parse_blob_read_resource_def tail_def)
qed

subsection \<open>The server keeps the contract\<close>

text \<open>Content-addressed: every blob is stored under the SHA-256 of its bytes.\<close>

definition fk_inv :: "fake \<Rightarrow> bool" where
  "fk_inv v \<longleftrightarrow> (\<forall>h data. fk_blobs v h = Some data \<longrightarrow> hex_encode (sha256 data) = h)"

text \<open>Hooks that only inject failures: each call is handled normally or fails without effect.\<close>

definition fails_or :: "('a \<Rightarrow> fake \<Rightarrow> (err + 'b) \<times> fake) option \<Rightarrow> ('a \<Rightarrow> fake \<Rightarrow> (err + 'b) \<times> fake) \<Rightarrow> bool" where
  "fails_or hook normal \<longleftrightarrow>
     (\<forall>f x v. hook = Some f \<longrightarrow> f x v = normal x v \<or> (\<exists>e. f x v = (Inl e, v)))"

definition flaky :: "hooks \<Rightarrow> bool" where
  "flaky hk \<longleftrightarrow>
     (\<forall>i. fails_or (map_option (\<lambda>f. f i) (on_find_missing hk)) (fake_find_missing i))
     \<and> (\<forall>i. fails_or (map_option (\<lambda>f. f i) (on_get_action hk)) (fake_get_action i))
     \<and> (\<forall>i d. fails_or (map_option (\<lambda>f. f i d) (on_update_action hk)) (fake_update_action i d))
     \<and> (\<forall>i. fails_or (map_option (\<lambda>f. f i) (on_batch_read hk)) (fake_batch_read i))
     \<and> (\<forall>i. fails_or (map_option (\<lambda>f. f i) (on_batch_update hk)) (fake_batch_update i))
     \<and> (\<forall>name. fails_or (map_option (\<lambda>f. f name) (on_stream_read hk)) (fake_stream_read name))
     \<and> fails_or (on_stream_write hk) fake_stream_write"

lemma flaky_no_hooks [simp]: "flaky no_hooks"
  by (simp add: flaky_def fails_or_def no_hooks_def)

lemma hooked_cases:
  assumes "fails_or hook normal" and "hooked hook normal x v = (r, v')"
  shows "normal x v = (r, v') \<or> (\<exists>e. r = Inl e) \<and> v' = v"
proof (cases hook)
  case (Some f)
  then have "f x v = (r, v')" using assms(2) by (simp add: hooked_def)
  moreover have "f x v = normal x v \<or> (\<exists>e. f x v = (Inl e, v))"
    using assms(1) Some unfolding fails_or_def by blast
  ultimately show ?thesis by (metis prod.inject)
qed (use assms(2) in \<open>simp add: hooked_def\<close>)

lemma hooked_map1: "hooked hook normal i = hooked (map_option (\<lambda>f. f i) hook) (normal i)"
  by (cases hook) (simp_all add: hooked_def)

lemma flaky_cases:
  assumes "flaky hk"
  shows "find_missing_blobs (fake_server hk) i ds v = (r1, v') \<Longrightarrow> fake_find_missing i ds v = (r1, v') \<or> (\<exists>e. r1 = Inl e) \<and> v' = v"
    and "get_action (fake_server hk) i d v = (r2, v') \<Longrightarrow> fake_get_action i d v = (r2, v') \<or> (\<exists>e. r2 = Inl e) \<and> v' = v"
    and "update_action (fake_server hk) i d ar v = (r3, v') \<Longrightarrow> fake_update_action i d ar v = (r3, v') \<or> (\<exists>e. r3 = Inl e) \<and> v' = v"
    and "batch_read_blobs (fake_server hk) i ds v = (r4, v') \<Longrightarrow> fake_batch_read i ds v = (r4, v') \<or> (\<exists>e. r4 = Inl e) \<and> v' = v"
    and "batch_update_blobs (fake_server hk) i reqs v = (r5, v') \<Longrightarrow> fake_batch_update i reqs v = (r5, v') \<or> (\<exists>e. r5 = Inl e) \<and> v' = v"
    and "stream_read (fake_server hk) name off v = (r6, v') \<Longrightarrow> fake_stream_read name off v = (r6, v') \<or> (\<exists>e. r6 = Inl e) \<and> v' = v"
    and "write_close (fake_server hk) v = (r7, v') \<Longrightarrow> fake_stream_write (fk_stream v) (v\<lparr>fk_stream := []\<rparr>) = (r7, v')
      \<or> (\<exists>e. r7 = Inl e) \<and> v' = v\<lparr>fk_stream := []\<rparr>"
  using assms hooked_cases [of "map_option (\<lambda>f. f i) (on_find_missing hk)" "fake_find_missing i" ds v r1 v']
    hooked_cases [of "map_option (\<lambda>f. f i) (on_get_action hk)" "fake_get_action i" d v r2 v']
    hooked_cases [of "map_option (\<lambda>f. f i d) (on_update_action hk)" "fake_update_action i d" ar v r3 v']
    hooked_cases [of "map_option (\<lambda>f. f i) (on_batch_read hk)" "fake_batch_read i" ds v r4 v']
    hooked_cases [of "map_option (\<lambda>f. f i) (on_batch_update hk)" "fake_batch_update i" reqs v r5 v']
    hooked_cases [of "map_option (\<lambda>f. f name) (on_stream_read hk)" "fake_stream_read name" off v r6 v']
    hooked_cases [of "on_stream_write hk" fake_stream_write "fk_stream v" "v\<lparr>fk_stream := []\<rparr>" r7 v']
  by (simp_all add: flaky_def fake_server_def fake_write_close_def hooked_map1 [of _ _ i] hooked_map1 [of _ _ name]
      hooked_map1 [of _ _ d] option.map_comp comp_def)

lemma update_blobs_keeps:
  "update_blobs reqs v = (rs, v') \<Longrightarrow> fk_inv v \<Longrightarrow> fk_inv v' \<and> (\<forall>h. fk_blobs v h \<noteq> None \<longrightarrow> fk_blobs v' h \<noteq> None)
     \<and> fk_actionCache v' = fk_actionCache v"
proof (induction reqs v arbitrary: rs v' rule: update_blobs.induct)
  case (2 d data reqs v)
  let ?h = "hex_encode (sha256 data)"
  let ?v = "v\<lparr>fk_blobs := (fk_blobs v)(?h \<mapsto> data)\<rparr>"
  show ?case
  proof (cases "?h = pd_hash d")
    case True
    obtain rs1 v1 where one: "update_blobs reqs ?v = (rs1, v1)" by (cases "update_blobs reqs ?v")
    have "fk_inv ?v" using 2(4) by (simp add: fk_inv_def)
    from 2(2) [OF refl _ one this] True one 2(3) show ?thesis by (auto simp: Let_def)
  next
    case False
    obtain rs1 v1 where one: "update_blobs reqs v = (rs1, v1)" by (cases "update_blobs reqs v")
    from 2(1) [OF refl _ one 2(4)] False one 2(3) show ?thesis by (auto simp: Let_def)
  qed
qed simp

lemma stream_write_keeps:
  "fake_stream_write reqs v = (r, v') \<Longrightarrow> fk_inv v \<Longrightarrow> fk_inv v' \<and> (\<forall>h. fk_blobs v h \<noteq> None \<longrightarrow> fk_blobs v' h \<noteq> None)
     \<and> fk_actionCache v' = fk_actionCache v"
  by (auto simp: fake_stream_write_def fk_inv_def Let_def split: sum.splits prod.splits option.splits if_splits)

text \<open>What every call keeps of the server's state.\<close>

lemma fake_step_keeps:
  assumes "flaky hk" and "srv_step (fake_server hk) upd v v'" and "fk_inv v"
  shows "fk_inv v' \<and> (\<forall>h. fk_blobs v h \<noteq> None \<longrightarrow> fk_blobs v' h \<noteq> None)
    \<and> (\<not> upd \<longrightarrow> fk_actionCache v' = fk_actionCache v)"
  using assms(2)
proof cases
  case (find i ds)
  obtain r where "find_missing_blobs (fake_server hk) i ds v = (r, v')" using find by (metis prod.collapse)
  from flaky_cases(1) [OF assms(1) this] assms(3) show ?thesis by (auto simp: fake_find_missing_def)
next
  case (batch i reqs)
  obtain r where "batch_update_blobs (fake_server hk) i reqs v = (r, v')" using batch by (metis prod.collapse)
  from flaky_cases(5) [OF assms(1) this] assms(3) show ?thesis
    by (auto simp: fake_batch_update_def split: prod.splits dest!: update_blobs_keeps)
next
  case (batch_read i ds)
  obtain r where "batch_read_blobs (fake_server hk) i ds v = (r, v')" using batch_read by (metis prod.collapse)
  from flaky_cases(4) [OF assms(1) this] assms(3) show ?thesis by (auto simp: fake_batch_read_def)
next
  case wclose
  obtain r where "write_close (fake_server hk) v = (r, v')" using wclose by (metis prod.collapse)
  from flaky_cases(7) [OF assms(1) this] assms(3)
    stream_write_keeps [of "fk_stream v" "v\<lparr>fk_stream := []\<rparr>" r v'] show ?thesis
    by (auto simp: fk_inv_def)
next
  case (sread name off)
  obtain r where "stream_read (fake_server hk) name off v = (r, v')" using sread by (metis prod.collapse)
  from flaky_cases(6) [OF assms(1) this] assms(3) show ?thesis
    by (auto simp: fake_stream_read_def split: sum.splits option.splits)
next
  case (get i d)
  obtain r where "get_action (fake_server hk) i d v = (r, v')" using get by (metis prod.collapse)
  from flaky_cases(2) [OF assms(1) this] assms(3) show ?thesis
    by (auto simp: fake_get_action_def split: option.splits)
next
  case (update i d ar)
  obtain r where "update_action (fake_server hk) i d ar v = (r, v')" using update by (metis prod.collapse)
  from flaky_cases(3) [OF assms(1) this] assms(3) update(1) show ?thesis
    by (auto simp: fake_update_action_def fk_inv_def split: if_splits)
qed (use assms(3) in \<open>auto simp: fake_server_def fake_capabilities_def fk_inv_def\<close>)

lemma fake_streams [simp]:
  "write_send (fake_server hk) r v = (None, v\<lparr>fk_stream := fk_stream v @ [r]\<rparr>)"
  "write_open (fake_server hk) v = (None, v\<lparr>fk_stream := []\<rparr>)"
  by (simp_all add: fake_server_def)

lemma fake_send_all:
  "send_all (fake_server hk) reqs v = Some v' \<Longrightarrow> v' = v\<lparr>fk_stream := fk_stream v @ reqs\<rparr>"
proof (induction reqs arbitrary: v)
  case (Cons r reqs)
  from Cons.IH [of "v\<lparr>fk_stream := fk_stream v @ [r]\<rparr>"] Cons.prems show ?case by simp
qed simp

lemma write_receive_named:
  "write_receive rs buf (Some h) = Inr (data, hs) \<Longrightarrow> hs = Some h"
  by (induction rs arbitrary: buf) (auto split: if_splits)

lemma fake_write_law:
  assumes "flaky hk" and "inst_ok i" and "seg_ok u" and "seg_ok h"
    and "write_open (fake_server hk) v = (None, v1)" and "send_all (fake_server hk) reqs v1 = Some v2"
    and "reqs \<noteq> [] \<Longrightarrow> wr_resource (hd reqs) = i @ ''/uploads/'' @ u @ ''/blobs/'' @ h @ ''/'' @ show_int n"
    and "write_close (fake_server hk) v2 = (Inr k, v3)"
  shows "fk_blobs v3 h \<noteq> None"
proof -
  have v2: "v2 = v\<lparr>fk_stream := reqs\<rparr>"
    using fake_send_all [OF assms(6)] assms(5) by (auto simp: fake_server_def)
  have w: "fake_stream_write reqs (v\<lparr>fk_stream := []\<rparr>) = (Inr k, v3)"
    using flaky_cases(7) [OF assms(1, 8)] v2 by auto
  then obtain data h' where r: "write_receive reqs [] None = Inr (data, Some h')"
    and b: "fk_blobs v3 h' = Some data"
    by (auto simp: fake_stream_write_def Let_def split: sum.splits prod.splits option.splits if_splits)
  from r obtain q rs where q: "reqs = q # rs" by (cases reqs) auto
  then have "parse_blob_write_resource (wr_resource q) = Inr h" and "wr_resource q \<noteq> []"
    using assms(7) parse_write_resource [OF assms(2-4), of n] by auto
  with r q have "h' = h"
    by (auto split: if_splits dest: write_receive_named)
  with b show ?thesis by simp
qed

lemma flaky_contract:
  assumes "flaky hk"
  shows "remote_cache (fake_server hk) fk_inv fk_blobs fk_actionCache inst_ok seg_ok"
proof
  fix v v' :: fake and upd h
  assume "fk_inv v" "srv_step (fake_server hk) upd v v'"
  note keep = fake_step_keeps [OF assms this(2, 1)]
  show "fk_inv v'" using keep by simp
  show "fk_blobs v' h \<noteq> None" if "fk_blobs v h \<noteq> None" using keep that by blast
next
  fix v v' :: fake
  assume "fk_inv v" "srv_step (fake_server hk) False v v'"
  from fake_step_keeps [OF assms this(2, 1)] show "fk_actionCache v' = fk_actionCache v" by simp
next
  fix v :: fake and h data
  assume "fk_inv v" "fk_blobs v h = Some data"
  then show "hex_encode (sha256 data) = h" by (simp add: fk_inv_def)
next
  fix v v' :: fake and i d
  assume "find_missing_blobs (fake_server hk) i [d] v = (Inr [], v')"
  from flaky_cases(1) [OF assms this] show "fk_blobs v' (pd_hash d) \<noteq> None"
    by (auto simp: fake_find_missing_def split: if_splits)
next
  fix v v' :: fake and i d data rs
  assume "batch_update_blobs (fake_server hk) i [(d, data)] v = (Inr rs, v')" "update_failure rs = None"
  with flaky_cases(5) [OF assms this(1)] show "fk_blobs v' (pd_hash d) \<noteq> None"
    by (auto simp: fake_batch_update_def Let_def split: if_splits prod.splits)
next
  fix v v1 v2 v3 :: fake and i u h reqs n k
  assume "inst_ok i" "seg_ok u" "seg_ok h" "write_open (fake_server hk) v = (None, v1)"
    "send_all (fake_server hk) reqs v1 = Some v2"
    "reqs \<noteq> [] \<Longrightarrow> wr_resource (hd reqs) = i @ ''/uploads/'' @ u @ ''/blobs/'' @ h @ ''/'' @ show_int n"
    "write_close (fake_server hk) v2 = (Inr k, v3)"
  then show "fk_blobs v3 h \<noteq> None" by (rule fake_write_law [OF assms])
next
  fix v v' :: fake and i d ar x
  assume "update_action (fake_server hk) i d ar v = (Inr x, v')"
  from flaky_cases(3) [OF assms this] show "fk_actionCache v' = (fk_actionCache v)(pd_hash d \<mapsto> ar)"
    by (auto simp: fake_update_action_def split: if_splits)
next
  fix v v' :: fake and i d ar x
  assume "update_action (fake_server hk) i d ar v = (x, v')"
  from flaky_cases(3) [OF assms this]
  show "fk_actionCache v' = fk_actionCache v \<or> fk_actionCache v' = (fk_actionCache v)(pd_hash d \<mapsto> ar)"
    by (auto simp: fake_update_action_def split: if_splits)
next
  fix v v' :: fake and i d ar
  assume "get_action (fake_server hk) i d v = (Inr ar, v')"
  from flaky_cases(2) [OF assms this] show "fk_actionCache v (pd_hash d) = Some ar"
    by (auto simp: fake_get_action_def split: option.splits)
qed

text \<open>The server without hooks; \<open>flaky_contract\<close> is the same for any hooks that inject failures.\<close>

interpretation fake_remote: remote_cache "fake_server no_hooks" fk_inv fk_blobs fk_actionCache inst_ok seg_ok
  by (rule flaky_contract) simp

end
