(* ===== verification/Serving.thy ===== *)
theory Serving
  imports Handler Contract
begin

text \<open>
  What \<open>cmd/go\<close> may rely on of one process: every request is answered, a body that was put is served,
  and nothing damaged is ever served.
\<close>

subsection \<open>Requests are answered\<close>

lemma key_total:
  assumes "key_ok a"
  shows "on_cache (install a tmp m) n \<noteq> None" and "update_cache (remove_entry a) n \<noteq> None"
proof -
  have "install a tmp m (n_cache n) (n_sys n) \<noteq> None" "remove_entry a (n_cache n) (n_sys n) \<noteq> None"
    using assms by (auto simp: install_def remove_entry_def Let_def key_ok_def body_path_def metadata_path_def)
  then show "on_cache (install a tmp m) n \<noteq> None" "update_cache (remove_entry a) n \<noteq> None"
    by (auto simp: on_cache_def update_cache_def)
qed

lemma download_total: "key_ok a \<Longrightarrow> download_and_install c a d m n \<noteq> None"
  by (simp add: download_and_install_def Let_def key_total(1) del: not_None_eq split: sum.splits prod.splits option.splits)

lemma remote_ac_lookup_total: "key_ok a \<Longrightarrow> remote_ac_lookup h c ctx req a n \<noteq> None"
  by (auto simp: remote_ac_lookup_def Let_def download_total simp del: not_None_eq split: sum.splits prod.splits option.splits list.splits)

lemma lookup_remote_total: "key_ok a \<Longrightarrow> lookup_remote h ctx shared req a n \<noteq> None"
  by (auto simp: lookup_remote_def remote_ac_lookup_total simp del: not_None_eq split: option.splits)

lemma refill_total: "key_ok a \<Longrightarrow> refill_from_cas c req a m n \<noteq> None"
  by (auto simp: refill_from_cas_def download_total simp del: not_None_eq split: sum.splits prod.splits option.splits)

lemma handle_get_total:
  assumes "node_ok dir n" and "rq_actionID req \<noteq> []"
  shows "handle_get h ctx shared req n \<noteq> None"
proof -
  let ?a = "hex_encode (rq_actionID req)"
  note key = key_ok_action [OF assms(2)]
  have inv: "no_faults (n_sys n)" "dc_ok (n_cache n)" using assms(1) by (simp_all add: node_ok_def disk_inv_def)
  obtain meta p hit n1 where l: "on_cache (lookup ?a) n = Some ((meta, p, hit), n1)"
    using lookup_view [OF inv key] by (fastforce simp: on_cache_def)
  note lk = lookup_node [OF assms(1) key l]
  have some: "hit \<Longrightarrow> meta \<noteq> None" using lk(4, 5) by fastforce
  show ?thesis
  proof (cases hit)
    case True
    with l some show ?thesis
      by (auto simp: handle_get_def Let_def key_total(2) [OF key] simp del: not_None_eq split: option.splits sum.splits)
  next
    case False
    with l show ?thesis
      by (auto simp: handle_get_def Let_def lookup_remote_total [OF key] refill_total [OF key]
          simp del: not_None_eq split: option.splits)
  qed
qed

lemma handle_put_total: "rq_actionID req \<noteq> [] \<Longrightarrow> handle_put h req n \<noteq> None"
  by (auto simp: handle_put_def Let_def key_total(1) [OF key_ok_action] simp del: not_None_eq split: sum.splits prod.splits option.splits)

lemma handle_answers:
  assumes "node_ok dir n" and "rq_command req \<noteq> ''close''"
    and "rq_command req \<in> {''get'', ''put''} \<Longrightarrow> rq_actionID req \<noteq> []"
  shows "\<exists>resp n'. handle h ctx shared order req n = Some (resp, n') \<and> rs_id resp = rq_id req \<and> node_ok dir n'
    \<and> (rq_command req = ''get'' \<longrightarrow> shared = None \<longrightarrow> rs_err resp = [])"
proof (cases "rq_command req \<in> {''get'', ''put''}")
  case True
  note nonempty = assms(3) [OF this]
  from True consider "rq_command req = ''get''" | "rq_command req = ''put''" by auto
  then show ?thesis
  proof cases
    case 1
    obtain resp n' where g: "handle_get h ctx shared req n = Some (resp, n')"
      using handle_get_total [OF assms(1) nonempty] by fastforce
    with handle_get_node [OF assms(1) nonempty g] 1 show ?thesis
      by (auto simp: handle_def get_result_def get_outcome_def)
  next
    case 2
    obtain resp n' where p: "handle_put h req n = Some (resp, n')"
      using handle_put_total [OF nonempty] by fastforce
    with handle_put_node [OF assms(1) nonempty p] 2 show ?thesis by (auto simp: handle_def)
  qed
next
  case False
  with assms(1, 2) show ?thesis by (simp add: handle_def)
qed

text \<open>
  C11: with a file system that does not fail, a node answers every request other than \<open>close\<close> whose
  action id is not empty, under the request's id, whatever the remote cache does; the response of a
  get is never an error, and the invariant of the node is kept.
\<close>

theorem handle_responds:
  assumes "node_ok dir n" and "rq_command req \<noteq> ''close''"
    and "rq_command req \<in> {''get'', ''put''} \<Longrightarrow> rq_actionID req \<noteq> []"
  shows "\<exists>resp n'. handle h ctx shared order req n = Some (resp, n') \<and> rs_id resp = rq_id req \<and> node_ok dir n'
    \<and> (rq_command req = ''get'' \<longrightarrow> shared = None \<longrightarrow> rs_err resp = [])"
  using assms by (rule handle_answers)

text \<open>
  C36: an empty action id crashes the process: unless an entry was filed under the empty key, a get
  without an action id panics, and so does a put once it has written its body.
\<close>

theorem empty_action_panics:
  assumes "rq_actionID req = []" and "dc_entries (n_cache n) [] = None"
  shows "handle_get h ctx shared req n = None
    \<and> (\<not> (0 < h_maxArtifactSize h \<and> h_maxArtifactSize h < rq_bodySize req) \<longrightarrow>
         write_body_to_temp (rq_body req) n = (Inr (d, tmp), n1) \<longrightarrow> handle_put h req n = None)"
  using assms
  by (simp_all add: handle_get_def handle_put_def hex_encode_def on_cache_def lookup_def cached_meta_def install_def
      metadata_path_def body_path_def split: prod.splits)

subsection \<open>Runs\<close>

text \<open>A get (perhaps sharing another's lookup), a put, or the end of an upload.\<close>

datatype event = Get_req ctx "response option" request | Put_req request | Finish nat

fun node_step :: "'v handler \<Rightarrow> event \<Rightarrow> 'v node \<Rightarrow> 'v node" where
  "node_step h (Get_req ctx shared req) n = (case handle_get h ctx shared req n of None \<Rightarrow> n | Some rn \<Rightarrow> snd rn)"
| "node_step h (Put_req req) n = (case handle_put h req n of None \<Rightarrow> n | Some rn \<Rightarrow> snd rn)"
| "node_step h (Finish i) n = run_task h i n"

fun event_ok :: "event \<Rightarrow> bool" where
  "event_ok (Get_req ctx shared req) = (rq_actionID req \<noteq> [])"
| "event_ok (Put_req req) = (rq_actionID req \<noteq> [])"
| "event_ok (Finish i) = True"

lemma node_step_ok: "node_ok dir n \<Longrightarrow> event_ok ev \<Longrightarrow> node_ok dir (node_step h ev n)"
proof (cases ev)
  case (Get_req ctx shared req)
  assume a: "node_ok dir n" "event_ok ev"
  show ?thesis
    using handle_get_node [OF a(1), of req h ctx shared] a Get_req
    by (auto simp: get_result_def split: option.splits)
next
  case (Put_req req)
  assume a: "node_ok dir n" "event_ok ev"
  show ?thesis
    using handle_put_node [OF a(1), of req h] a Put_req by (auto split: option.splits)
qed (simp add: run_task_node)

lemma node_run_ok: "node_ok dir n \<Longrightarrow> list_all event_ok evs \<Longrightarrow> node_ok dir (fold (node_step h) evs n)"
  by (induction evs arbitrary: n) (auto simp: node_step_ok)

text \<open>
  C10: nothing damaged is served. After any sequence of gets, puts and uploads, against any remote
  cache, however it misbehaves: when a get hits, the file it names exists, and its SHA-256 and length
  are those that the entry's metadata names, next to the output id, size and time of the response.
\<close>

theorem get_serves_intact:
  assumes "node_ok dir n" and "list_all event_ok evs" and "rq_actionID req \<noteq> []"
    and "handle_get h ctx None req (fold (node_step h) evs n) = Some (resp, n')" and "\<not> rs_miss resp"
  shows "\<exists>m f. peek (n_disk n') (hex_encode (rq_actionID req)) = Some (m, rs_diskPath resp)
    \<and> sys_files (n_sys n') (rs_diskPath resp) = Some f \<and> hex_encode (sha256 (f_data f)) = m_casHash m
    \<and> int (length (f_data f)) = m_casSize m \<and> hex_decode (m_outputIDHex m) = Inr (rs_outputID resp)
    \<and> rs_size resp = m_size m \<and> rs_time resp = m_time m"
proof -
  have "get_outcome dir (hex_encode (rq_actionID req)) req (fold (node_step h) evs n) (resp, n')"
    using handle_get_node [OF node_run_ok [OF assms(1, 2)] assms(3, 4)] by (simp add: get_result_def)
  then obtain m where "node_ok dir n'" "peek (n_disk n') (hex_encode (rq_actionID req)) = Some (m, rs_diskPath resp)"
    "hex_decode (m_outputIDHex m) = Inr (rs_outputID resp)" "rs_size resp = m_size m" "rs_time resp = m_time m"
    using assms(5) by (auto simp: get_outcome_def serves_def)
  with key_ok_action [OF assms(3)] show ?thesis by (fastforce simp: node_ok_def intact_def)
qed


subsection \<open>What was put is served\<close>

text \<open>Events that leave the entry of \<open>a\<close> to its present body: no put under the same action id.\<close>

fun keeps_key :: "string \<Rightarrow> event \<Rightarrow> bool" where
  "keeps_key a (Put_req req) \<longleftrightarrow> rq_actionID req \<noteq> [] \<and> hex_encode (rq_actionID req) \<noteq> a"
| "keeps_key a ev \<longleftrightarrow> event_ok ev"

lemma handle_get_hit:
  assumes "node_ok dir n" and "rq_actionID g \<noteq> []" and "peek (n_disk n) (hex_encode (rq_actionID g)) = Some (m, p)"
    and "hex_decode (m_outputIDHex m) = Inr outputID"
  shows "\<exists>n'. handle_get h ctx shared g n = Some (hit_response g outputID (m_size m) p (m_time m), n')
    \<and> node_ok dir n' \<and> (\<forall>k. peek (n_disk n') k = peek (n_disk n) k) \<and> sys_files (n_sys n') = sys_files (n_sys n)"
proof -
  let ?a = "hex_encode (rq_actionID g)"
  note key = key_ok_action [OF assms(2)]
  have inv: "no_faults (n_sys n)" "dc_ok (n_cache n)" using assms(1) by (simp_all add: node_ok_def disk_inv_def)
  obtain meta q hit n1 where l: "on_cache (lookup ?a) n = Some ((meta, q, hit), n1)"
    using lookup_view [OF inv key] by (fastforce simp: on_cache_def)
  note lk = lookup_node [OF assms(1) key l]
  have "meta = Some m" "q = p" hit using lk(4) [OF assms(3)] by auto
  with l assms(4) lk(1-3) show ?thesis by (simp add: handle_get_def Let_def)
qed

lemma holds_body_quiet:
  assumes "quiet n n'" and "node_ok dir n" and "holds_body n a req p"
  shows "holds_body n' a req p"
proof -
  have qs: "quiet_sys (dc_dir (n_cache n)) (n_sys n) (n_sys n')" "n_cache n' = n_cache n" and dc: "dc_ok (n_cache n)"
    using assms(1, 2) by (simp_all add: quiet_def node_ok_def disk_inv_def)
  have "sys_files (n_sys n') p = sys_files (n_sys n) p" if "peek (n_disk n) a = Some (m, p)" for m
    using peek_path(1) [OF dc that] quiet_sys_files(1) [OF qs(1)] body_not_temp by blast
  with assms(3) quiet_peek [OF qs(1) dc] qs(2) show ?thesis by (auto simp: holds_body_def)
qed

lemma holds_body_others:
  assumes "others dir k n n'" and "node_ok dir n" and "key_ok a" and "a \<noteq> k" and "holds_body n a req p"
  shows "holds_body n' a req p"
proof -
  have dc: "dc_ok (n_cache n)" "dc_dir (n_cache n) = dir"
    using assms(2) by (simp_all add: node_ok_def disk_inv_def)
  from assms(5) obtain m f where m: "peek (n_disk n) a = Some (m, p)" "m_outputIDHex m = hex_encode (rq_outputID req)"
    "m_size m = rq_bodySize req" "sys_files (n_sys n) p = Some f" "f_data f = rq_body req"
    by (auto simp: holds_body_def)
  moreover have "body_path dir a = Some p" using peek_path(1) [OF dc(1) m(1)] dc(2) by simp
  ultimately show ?thesis using assms(1, 3, 4) by (simp add: others_def holds_body_def)
qed

lemma holds_body_frame [simp]:
  "holds_body (n\<lparr>n_tasks := x\<rparr>) a req p = holds_body n a req p"
  "holds_body (n\<lparr>n_synthetic := y\<rparr>) a req p = holds_body n a req p"
  by (simp_all add: holds_body_def)

lemma run_task_holds:
  assumes "node_ok dir n" and "holds_body n a req p"
  shows "holds_body (run_task h i n) a req p"
proof (cases "h_client h = None \<or> length (n_tasks n) \<le> i")
  case True
  with assms show ?thesis by (auto simp: run_task_def split: option.splits)
next
  case False
  then obtain c where c: "h_client h = Some c" "i < length (n_tasks n)" by auto
  let ?n = "n\<lparr>n_tasks := take i (n_tasks n) @ drop (Suc i) (n_tasks n)\<rparr>" and ?t = "n_tasks n ! i"
  obtain x cache where comp: "compute_synthetic_digests (h_marshal h) (h_dir h) (pp_actionIDHex ?t) (n_synthetic n)
      = (x, cache)" by fastforce
  show ?thesis
  proof (cases x)
    case (Inr sd)
    obtain r n' where pop: "on_world (populate_world c (pp_outputIDHex ?t) (pp_body ?t) (pp_digest ?t) sd)
        (?n\<lparr>n_synthetic := cache\<rparr>) = (r, n')" by fastforce
    have "holds_body n' a req p"
      by (rule holds_body_quiet [OF on_world_node [OF pop populate_world_quiet]]) (use assms in simp_all)
    with c comp Inr pop show ?thesis by (simp add: run_task_def remote_populate_def)
  qed (use assms c comp in \<open>simp add: run_task_def remote_populate_def\<close>)
qed

lemma node_step_holds:
  assumes "node_ok dir n" and "key_ok a" and "keeps_key a ev" and "holds_body n a req p"
  shows "holds_body (node_step h ev n) a req p"
proof (cases ev)
  case (Get_req ctx shared g)
  then have g: "rq_actionID g \<noteq> []" using assms(3) by simp
  show ?thesis
  proof (cases "hex_encode (rq_actionID g) = a")
    case False
    obtain rn where rn: "handle_get h ctx shared g n = Some rn" using handle_get_total [OF assms(1) g] by blast
    from handle_get_node [OF assms(1) g rn] have "others dir (hex_encode (rq_actionID g)) n (snd rn)"
      by (simp add: get_result_def)
    from holds_body_others [OF this assms(1, 2) _ assms(4)] False rn Get_req show ?thesis by simp
  next
    case True
    from assms(4) obtain m f where m: "peek (n_disk n) a = Some (m, p)" "m_outputIDHex m = hex_encode (rq_outputID req)"
      "m_size m = rq_bodySize req" "sys_files (n_sys n) p = Some f" "f_data f = rq_body req"
      by (auto simp: holds_body_def)
    then have "hex_decode (m_outputIDHex m) = Inr (rq_outputID req)" by simp
    from handle_get_hit [OF assms(1) g m(1) [folded True] this, of h ctx shared] True m Get_req show ?thesis
      by (auto simp: holds_body_def)
  qed
next
  case (Put_req q)
  with assms handle_put_node [OF assms(1), of q h] holds_body_others [OF _ assms(1, 2) _ assms(4)] show ?thesis
    by (auto split: option.splits)
next
  case (Finish i)
  with run_task_holds [OF assms(1, 4)] show ?thesis by simp
qed

lemma keeps_key_ok: "keeps_key a ev \<Longrightarrow> event_ok ev"
  by (cases ev) auto

lemma node_run_holds:
  "node_ok dir n \<Longrightarrow> key_ok a \<Longrightarrow> list_all (keeps_key a) evs \<Longrightarrow> holds_body n a req p \<Longrightarrow>
   node_ok dir (fold (node_step h) evs n) \<and> holds_body (fold (node_step h) evs n) a req p"
  by (induction evs arbitrary: n) (auto simp: node_step_ok node_step_holds keeps_key_ok)

lemma holds_body_served:
  assumes "node_ok dir n" and "rq_actionID req \<noteq> []" and "holds_body n (hex_encode (rq_actionID req)) req p"
    and "rq_actionID g = rq_actionID req"
  shows "\<exists>resp n'. handle_get h ctx shared g n = Some (resp, n')
    \<and> \<not> rs_miss resp \<and> rs_id resp = rq_id g \<and> rs_outputID resp = rq_outputID req \<and> rs_size resp = rq_bodySize req
    \<and> rs_diskPath resp = p \<and> (\<exists>f. sys_files (n_sys n') (rs_diskPath resp) = Some f \<and> f_data f = rq_body req)"
proof -
  obtain m f where m: "peek (n_disk n) (hex_encode (rq_actionID req)) = Some (m, p)"
    "m_outputIDHex m = hex_encode (rq_outputID req)" "m_size m = rq_bodySize req" "sys_files (n_sys n) p = Some f"
    "f_data f = rq_body req"
    using assms(3) by (auto simp: holds_body_def)
  then have "hex_decode (m_outputIDHex m) = Inr (rq_outputID req)" by simp
  from handle_get_hit [OF assms(1) _ m(1) [folded assms(4)] this, of h ctx shared] assms(2, 4) m show ?thesis by auto
qed

lemma put_get_served:
  assumes "node_ok dir n" and "rq_actionID req \<noteq> []" and "handle_put h req n = Some (r, n1)" and "rs_err r = []"
    and "list_all (keeps_key (hex_encode (rq_actionID req))) evs" and "rq_actionID g = rq_actionID req"
  shows "\<exists>resp n3. handle_get h ctx shared g (fold (node_step h) evs n1) = Some (resp, n3)
    \<and> \<not> rs_miss resp \<and> rs_id resp = rq_id g \<and> rs_outputID resp = rq_outputID req \<and> rs_size resp = rq_bodySize req
    \<and> rs_diskPath resp = rs_diskPath r
    \<and> (\<exists>f. sys_files (n_sys n3) (rs_diskPath resp) = Some f \<and> f_data f = rq_body req)"
proof -
  have "node_ok dir (fold (node_step h) evs n1)"
    "holds_body (fold (node_step h) evs n1) (hex_encode (rq_actionID req)) req (rs_diskPath r)"
    using node_run_holds [OF _ key_ok_action [OF assms(2)] assms(5)] handle_put_node [OF assms(1-3)] assms(4) by blast+
  from holds_body_served [OF this(1) assms(2) this(2) assms(6)] show ?thesis .
qed

text \<open>
  C12: what was put is served. After a put without error and any sequence of gets, puts of other
  action ids and uploads, a get of the same action id hits, under its own request id: output id and
  size are those of the put, and the file it names holds the very body of the put.
\<close>

theorem put_then_get:
  assumes "node_ok dir n" and "rq_actionID req \<noteq> []" and "handle_put h req n = Some (r, n1)" and "rs_err r = []"
    and "list_all (keeps_key (hex_encode (rq_actionID req))) evs" and "rq_actionID g = rq_actionID req"
  shows "\<exists>resp n3. handle_get h ctx shared g (fold (node_step h) evs n1) = Some (resp, n3)
    \<and> \<not> rs_miss resp \<and> rs_id resp = rq_id g \<and> rs_outputID resp = rq_outputID req \<and> rs_size resp = rq_bodySize req
    \<and> rs_diskPath resp = rs_diskPath r
    \<and> (\<exists>f. sys_files (n_sys n3) (rs_diskPath resp) = Some f \<and> f_data f = rq_body req)"
  using assms by (rule put_get_served)

subsection \<open>An example\<close>

text \<open>A node without a remote cache, and requests to it.\<close>

definition local_handler :: "fake handler" where
  "local_handler = \<lparr>h_client = None, h_maxArtifactSize = 0, h_marshal = (\<lambda>m. Inl (Plain [])),
     h_dir = ([], digest_bytes [])\<rparr>"

definition local_node :: "fake node" where
  "local_node = \<lparr>n_cache = empty_cache ''/c'' 1000,
     n_world = \<lparr>w_sys = example_sys, w_srv = new_fake, w_cb = None, w_slept = []\<rparr>,
     n_synthetic = Map.empty, n_tasks = [], n_closed = False\<rparr>"

definition put_ab12 :: request where
  "put_ab12 = \<lparr>rq_id = 1, rq_command = ''put'', rq_actionID = [0xab, 0x12], rq_outputID = [0x0c],
     rq_body = [1, 2, 3, 4, 5], rq_bodySize = 5\<rparr>"

definition get_ab12 :: request where
  "get_ab12 = \<lparr>rq_id = 2, rq_command = ''get'', rq_actionID = [0xab, 0x12], rq_outputID = [],
     rq_body = [], rq_bodySize = 0\<rparr>"

lemma local_node_ok: "node_ok ''/c'' local_node"
  by (auto simp: node_ok_def disk_inv_def intact_def local_node_def empty_cache_def dc_ok_def peek_def
      cached_meta_def disk_meta_def example_sys_def no_faults_def split: option.splits)

lemma hex_ab12: "hex_encode [0xab, 0x12] = ''ab12''"
  by code_simp

text \<open>With room for its files and a clock in range, a put succeeds.\<close>

lemma put_succeeds:
  assumes "node_ok dir n" and "rq_actionID req \<noteq> []" and "\<not> (0 < h_maxArtifactSize h \<and> h_maxArtifactSize h < rq_bodySize req)"
    and "dir \<in> sys_dirs (n_sys n)" and "\<forall>t \<in> temps dir. sys_files (n_sys n) t = None \<and> t \<notin> sys_dirs (n_sys n)"
    and "shard_dir dir (hex_encode (rq_actionID req)) \<in> sys_dirs (n_sys n)"
    and "\<forall>i. format_time (sys_clock (n_sys n) i) \<noteq> None"
    and "body_path dir (hex_encode (rq_actionID req)) = Some bp" and "metadata_path dir (hex_encode (rq_actionID req)) = Some mp"
    and "{bp, mp, mp @ ''.tmp''} \<inter> sys_dirs (n_sys n) = {}"
  shows "\<exists>r n'. handle_put h req n = Some (r, n') \<and> rs_err r = [] \<and> rs_diskPath r = bp"
proof -
  let ?a = "hex_encode (rq_actionID req)"
  have nf: "no_faults (n_sys n)" and dir: "dc_dir (n_cache n) = dir"
    using assms(1) by (simp_all add: node_ok_def disk_inv_def)
  obtain x n1 where w: "write_body_to_temp (rq_body req) n = (x, n1)" by (cases "write_body_to_temp (rq_body req) n")
  let ?k = "sys_rand (n_sys n) (sys_calls (n_sys n))"
  have nof: "sys_fault (n_sys n) i = None" if "sys_calls (n_sys n) \<le> i" for i
    using nf that by (simp add: no_faults_def)
  have "\<exists>d. x = Inr (d, temp_name dir ?k)"
    using w nf assms(4, 5) dir nof
    by (auto simp: write_body_to_temp_def on_sys_def on_world_def call_sys_def temp_file_def create_temp_def Let_def
        write_data_def close_file_def faulty_def append_data_def split: option.splits)
  from w assms(1) this show ?thesis
  proof (cases rule: write_body_cases)
    case (written tmp f)
    obtain t n2 where t: "on_sys now n1 = (t, n2)" by (cases "on_sys now n1")
    have q: "quiet n n2" using written(2) on_sys_quiet [OF t quiet_sys_calls(1)] by (rule quiet_trans)
    then have qs: "touches (temps dir) (n_sys n) (n_sys n2)" "sys_dirs (n_sys n2) = sys_dirs (n_sys n)" "n_cache n2 = n_cache n"
      using dir by (simp_all add: quiet_def quiet_sys_def)
    have "t = sys_clock (n_sys n1) (sys_calls (n_sys n1))"
      using t unfolding on_sys_eq by (simp add: now_def)
    moreover have "sys_clock (n_sys n1) = sys_clock (n_sys n)"
      using written(2) by (simp add: quiet_def quiet_sys_def touches_def same_oracles_def)
    ultimately have time: "format_time t \<noteq> None" using assms(7) by simp
    have f: "sys_files (n_sys n2) tmp = Some f" using written(4) calls_file(1) t unfolding on_sys_eq by metis
    obtain tn where tn: "tmp = temp_name (dc_dir (n_cache n2)) tn" using written(3) qs(3) dir by auto
    let ?m = "\<lparr>m_outputIDHex = hex_encode (rq_outputID req), m_size = rq_bodySize req, m_time = t,
      m_casHash = hex_encode (sha256 (rq_body req)), m_casSize = int (length (rq_body req))\<rparr>"
    obtain dc s where "install ?a tmp ?m (n_cache n2) (n_sys n2) = Some (Inr bp, dc, s)"
      using install_succeeds [OF touches_no_faults [OF qs(1) nf] key_ok_action [OF assms(2)] tn f, of ?m bp mp]
        assms(6, 8-10) time qs(2, 3) dir by auto
    with w written(1) t assms(3) show ?thesis
      by (auto simp: handle_put_def Let_def on_cache_def zero_response_def)
  qed simp
qed

lemma example_time: "format_time (1700000000 * second) \<noteq> None"
  using wf_example_metadata by code_simp

lemma put_example: "\<exists>r n. handle_put local_handler put_ab12 local_node = Some (r, n) \<and> rs_err r = [] \<and> rs_diskPath r = ''/c/ab/ab12-d''"
proof (rule put_succeeds [OF local_node_ok, where mp = "''/c/ab/ab12-m''"])
  have "temp_name ''/c'' k \<notin> {''/c'', ''/c/ab''}" for k by (simp add: temp_name_def)
  then show "\<forall>t\<in>temps ''/c''. sys_files (n_sys local_node) t = None \<and> t \<notin> sys_dirs (n_sys local_node)"
    by (auto simp: local_node_def example_sys_def)
  show "\<forall>i. format_time (sys_clock (n_sys local_node) i) \<noteq> None"
    using example_time by (simp add: local_node_def example_sys_def)
qed (simp_all add: local_node_def example_sys_def local_handler_def put_ab12_def hex_ab12 shard_dir_def
    body_path_def metadata_path_def)

lemma put_get_example:
  "rq_actionID put_ab12 \<noteq> []" "rq_actionID get_ab12 = rq_actionID put_ab12" "rq_actionID get_ab12 \<noteq> []"
  "list_all event_ok [Put_req put_ab12]" "hex_encode (rq_actionID get_ab12) = ''ab12''"
  by (simp_all add: put_ab12_def get_ab12_def hex_ab12)

theorem put_then_get_witness:
  "\<exists>r n1 resp n3. handle_put local_handler put_ab12 local_node = Some (r, n1)
    \<and> handle_get local_handler None None get_ab12 n1 = Some (resp, n3)
    \<and> rs_outputID resp = [0x0c] \<and> rs_diskPath resp = ''/c/ab/ab12-d''
    \<and> (\<exists>f. sys_files (n_sys n3) ''/c/ab/ab12-d'' = Some f \<and> f_data f = [1, 2, 3, 4, 5])"
proof -
  obtain r n1 where p: "handle_put local_handler put_ab12 local_node = Some (r, n1)" "rs_err r = []"
    "rs_diskPath r = ''/c/ab/ab12-d''" using put_example by blast
  from put_then_get [OF local_node_ok put_get_example(1) p(1, 2) _ put_get_example(2), of "[]" None None] p
  show ?thesis by (auto simp: put_ab12_def)
qed

theorem get_serves_intact_witness:
  "\<exists>r n1 resp n3 m f. handle_put local_handler put_ab12 local_node = Some (r, n1)
    \<and> handle_get local_handler None None get_ab12 n1 = Some (resp, n3)
    \<and> peek (n_disk n3) ''ab12'' = Some (m, rs_diskPath resp) \<and> sys_files (n_sys n3) (rs_diskPath resp) = Some f
    \<and> hex_encode (sha256 (f_data f)) = m_casHash m"
proof -
  obtain r n1 where p: "handle_put local_handler put_ab12 local_node = Some (r, n1)" "rs_err r = []"
    using put_example by blast
  from put_get_served [OF local_node_ok put_get_example(1) p _ put_get_example(2), of "[]" None None]
  obtain resp n3 where g: "handle_get local_handler None None get_ab12 n1 = Some (resp, n3)" "\<not> rs_miss resp"
    by auto
  have "fold (node_step local_handler) [Put_req put_ab12] local_node = n1" using p by simp
  with get_serves_intact [OF local_node_ok put_get_example(4, 3), of local_handler None resp n3] p g
    put_get_example(5) show ?thesis by fastforce
qed

theorem handle_responds_witness:
  "\<exists>resp n'. handle local_handler None None [] get_ab12 local_node = Some (resp, n') \<and> rs_id resp = 2 \<and> rs_err resp = []"
  using handle_responds [OF local_node_ok, of get_ab12 local_handler None None "[]"]
  by (auto simp: get_ab12_def)

theorem empty_action_panics_witness:
  "handle_get local_handler None None (get_ab12\<lparr>rq_actionID := []\<rparr>) local_node = None
   \<and> handle_put local_handler (put_ab12\<lparr>rq_actionID := []\<rparr>) local_node = None"
proof -
  have index: "dc_entries (n_cache local_node) [] = None" by (simp add: local_node_def empty_cache_def)
  obtain d tmp n1 where w: "write_body_to_temp (rq_body put_ab12) local_node = (Inr (d, tmp), n1)"
    using put_example
    by (cases "write_body_to_temp (rq_body put_ab12) local_node"; cases "fst (write_body_to_temp (rq_body put_ab12) local_node)")
      (auto simp: handle_put_def put_error_def local_handler_def zero_response_def)
  show ?thesis
    using empty_action_panics [of "get_ab12\<lparr>rq_actionID := []\<rparr>" local_node local_handler None None]
      empty_action_panics [of "put_ab12\<lparr>rq_actionID := []\<rparr>" local_node local_handler None None d tmp n1] index w
    by (simp add: local_handler_def)
qed

end
