(* ===== verification/Publish.thy ===== *)
theory Publish
  imports Handler Contract
begin

text \<open>
  What the uploads of a \<open>put\<close> achieve at a remote cache that keeps the contract \<open>remote_cache\<close>: the
  results are published completely or not at all, and the action cache never names a missing body.
\<close>

subsection \<open>At any cache that keeps the contract\<close>

context remote_cache
begin

text \<open>Every result of the action cache has the bodies it names.\<close>

definition complete :: "'v \<Rightarrow> bool" where
  "complete v \<longleftrightarrow> (\<forall>h ar out. actions v h = Some ar \<longrightarrow> out \<in> set (ar_output_files ar) \<longrightarrow>
     blobs v (d_hash (digest_from_proto (of_digest out))) \<noteq> None)"

lemma run_complete: "reads_or_uploads srv v v' \<Longrightarrow> ok v \<Longrightarrow> complete v \<Longrightarrow> complete v'"
  using run_grows run_actions unfolding complete_def by metis

text \<open>One update of the action cache, of unknown outcome.\<close>

definition updates :: "digest \<Rightarrow> action_result \<Rightarrow> 'v \<Rightarrow> 'v \<Rightarrow> bool" where
  "updates d ar v v' \<longleftrightarrow> (\<exists>i x. update_action srv i (to_proto d) ar v = (x, v'))"

lemma updates_run:
  assumes "(updates d ar)\<^sup>*\<^sup>* v v'" and "ok v"
  shows "ok v' \<and> (\<forall>h. blobs v h \<noteq> None \<longrightarrow> blobs v' h \<noteq> None)
    \<and> (actions v' = actions v \<or> actions v' = (actions v)(d_hash d \<mapsto> ar))"
  using assms
proof (induction rule: rtranclp_induct)
  case (step y z)
  then obtain i x where u: "update_action srv i (to_proto d) ar y = (x, z)" by (auto simp: updates_def)
  have s: "srv_step srv True y z" using update [of srv y i "to_proto d" ar] u by simp
  have ok: "ok y" using step by simp
  note one = step_ok [OF ok s] step_grows [OF ok s] update_only [OF ok u]
  have "(m(d_hash d \<mapsto> ar))(d_hash d \<mapsto> ar) = m(d_hash d \<mapsto> ar)" for m :: "string \<Rightarrow> action_result option"
    by simp
  with one step show ?case by (auto simp: to_proto_def)
qed simp

lemma update_call_updates:
  assumes "cl_server c = srv"
  shows "(updates d ar)\<^sup>*\<^sup>* (w_srv w) (w_srv (snd (update_action_result_call c d ar w)))"
proof -
  have "updates d ar (w_srv w) (w_srv (snd (update_action_result_call c d ar w)))"
    using assms by (cases "update_action srv (cl_instance c) (to_proto d) ar (w_srv w)")
      (auto simp: updates_def update_action_result_call_def call_srv_def split: sum.splits)
  then show ?thesis by blast
qed

lemma update_action_result_run:
  assumes "cl_server c = srv"
  shows "(updates d ar)\<^sup>*\<^sup>* (w_srv w) (w_srv (snd (update_action_result c ctx d ar w)))"
  unfolding update_action_result_def
  by (rule retry_no_result_srv) (rule update_call_updates [OF assms])

lemma update_action_result_published:
  assumes "cl_server c = srv" and "ok (w_srv w)" and "update_action_result c ctx d ar w = (None, w')"
  shows "actions (w_srv w') (d_hash d) = Some ar"
proof -
  obtain w1 w2 where w: "(updates d ar)\<^sup>*\<^sup>* (w_srv w) (w_srv w1)" "update_action_result_call c d ar w1 = (None, w2)"
    "w_srv w' = w_srv w2"
    using retry_no_result_None [OF update_call_updates [OF assms(1)]] assms(3) unfolding update_action_result_def
    by metis
  have "ok (w_srv w1)" using updates_run [OF w(1) assms(2)] by simp
  from update_action_result_done [OF assms(1) this w(2)] w(3) show ?thesis by simp
qed

text \<open>What the uploads need of the client: its name and its digests make well-formed resource names.\<close>

definition sane :: "'v client \<Rightarrow> digest \<Rightarrow> synthetic_digests \<Rightarrow> bool" where
  "sane c d sd \<longleftrightarrow> cl_server c = srv \<and> inst_ok (cl_instance c) \<and> (\<forall>n. seg_ok (cl_uuid c n)) \<and> seg_ok (d_hash d)
     \<and> (\<forall>(data, e) \<in> set (proto_blobs sd). seg_ok (d_hash e))"

lemma upload_protos_steps: "reads_or_uploads (cl_server c) (w_srv w) (w_srv (snd (upload_protos c bs w)))"
proof (induction bs arbitrary: w)
  case (Cons b bs)
  obtain data d where b: "b = (data, d)" by (cases b)
  obtain x w1 where u: "upload_blob c None d data w = (x, w1)" by (cases "upload_blob c None d data w")
  then have "reads_or_uploads (cl_server c) (w_srv w) (w_srv w1)" using upload_blob_steps [of c w None d data] by simp
  with Cons.IH [of w1] u b show ?case by (cases x) (auto intro: rtranclp_trans)
qed simp

lemma upload_all_steps: "reads_or_uploads (cl_server c) (w_srv w) (w_srv (snd (upload_all c bm pm p d sd w)))"
proof -
  obtain x w1 where u: "upload_file c None p d w = (x, w1)" by (cases "upload_file c None p d w")
  then have "reads_or_uploads (cl_server c) (w_srv w) (w_srv w1)" using upload_file_steps [of c w None p d] by simp
  with u upload_protos_steps [of c w1 "proto_blobs sd"] show ?thesis
    by (auto simp: upload_all_def split: option.splits prod.splits intro: rtranclp_trans)
qed

lemma upload_protos_done:
  assumes "cl_server c = srv" and "inst_ok (cl_instance c)" and "\<forall>n. seg_ok (cl_uuid c n)"
    and "\<forall>(data, e) \<in> set bs. seg_ok (d_hash e)" and "ok (w_srv w)" and "upload_protos c bs w = (None, w')"
  shows "\<forall>(data, e) \<in> set bs. blobs (w_srv w') (d_hash e) \<noteq> None"
  using assms(4-6)
proof (induction bs arbitrary: w)
  case (Cons b bs)
  obtain data d where b: "b = (data, d)" by (cases b)
  obtain x w1 where u: "upload_blob c None d data w = (x, w1)" by (cases "upload_blob c None d data w")
  then have x: "x = None" and rest: "upload_protos c bs w1 = (None, w')"
    using Cons.prems(3) b by (cases x; simp)+
  have ok1: "ok (w_srv w1)" using run_ok [OF _ Cons.prems(2)] upload_blob_steps [of c w None d data] u assms(1) by simp
  have "blobs (w_srv w1) (d_hash d) \<noteq> None"
    using upload_blob_done [OF assms(1) Cons.prems(2) assms(2)] assms(3) Cons.prems(1) b u x by auto
  then have "blobs (w_srv w') (d_hash d) \<noteq> None"
    using run_grows [OF _ ok1] upload_protos_steps [of c w1 bs] rest assms(1) by simp
  with Cons.IH [OF _ ok1 rest] Cons.prems(1) b show ?case by auto
qed simp

lemma upload_all_done:
  assumes "sane c d sd" and "ok (w_srv w)" and "upload_all c bm pm p d sd w = (None, w')"
  shows "blobs (w_srv w') (d_hash d) \<noteq> None \<and> (\<forall>(data, e) \<in> set (proto_blobs sd). blobs (w_srv w') (d_hash e) \<noteq> None)"
proof -
  have c: "cl_server c = srv" "inst_ok (cl_instance c)" "\<forall>n. seg_ok (cl_uuid c n)" "seg_ok (d_hash d)"
    "\<forall>(data, e) \<in> set (proto_blobs sd). seg_ok (d_hash e)" using assms(1) by (simp_all add: sane_def)
  obtain x w1 where u: "upload_file c None p d w = (x, w1)" by (cases "upload_file c None p d w")
  then have x: "x = None" and rest: "upload_protos c (proto_blobs sd) w1 = (None, w')"
    using assms(3) by (auto simp: upload_all_def split: option.splits prod.splits)
  have ok1: "ok (w_srv w1)" using run_ok [OF _ assms(2)] upload_file_steps [of c w None p d] u c(1) by simp
  have "blobs (w_srv w1) (d_hash d) \<noteq> None"
    using upload_file_done [OF c(1) assms(2) c(2)] c(3, 4) u x by auto
  then have "blobs (w_srv w') (d_hash d) \<noteq> None"
    using run_grows [OF _ ok1] upload_protos_steps [of c w1 "proto_blobs sd"] rest c(1) by simp
  with upload_protos_done [OF c(1-3, 5) ok1 rest] show ?thesis by simp
qed

text \<open>An update after the body was uploaded keeps the action cache complete, however it ends.\<close>

lemma updates_complete:
  assumes "(updates e (synthetic_action_result out d))\<^sup>*\<^sup>* v v'" and "ok v" and "complete v" and "blobs v (d_hash d) \<noteq> None"
  shows "complete v'"
proof -
  have "d_hash (digest_from_proto (of_digest f)) = d_hash d"
    if "f \<in> set (ar_output_files (synthetic_action_result out d))" for f
    using that by (simp add: synthetic_action_result_def)
  with updates_run [OF assms(1, 2)] assms(3, 4) show ?thesis
    unfolding complete_def by (metis fun_upd_apply option.inject)
qed

lemma publish_keeps:
  assumes "sane c d sd" and "ok (w_srv w)" and "blobs (w_srv w) (d_hash d) \<noteq> None"
    and "publish c out p d sd w = (r, w')"
  shows "ok (w_srv w') \<and> (\<forall>h. blobs (w_srv w) h \<noteq> None \<longrightarrow> blobs (w_srv w') h \<noteq> None)
    \<and> (complete (w_srv w) \<longrightarrow> complete (w_srv w'))
    \<and> (r = None \<longrightarrow> actions (w_srv w') (d_hash (sd_actionDigest sd)) = Some (synthetic_action_result out d))"
proof -
  let ?ar = "synthetic_action_result out d" and ?e = "sd_actionDigest sd"
  let ?bm = "''re-upload body after FAILED_PRECONDITION''" and ?pm = "''re-upload proto blob after FAILED_PRECONDITION''"
  have c: "cl_server c = srv" using assms(1) by (simp add: sane_def)
  obtain y w2 where u1: "update_action_result c None ?e ?ar w = (y, w2)"
    by (cases "update_action_result c None ?e ?ar w")
  have r2: "(updates ?e ?ar)\<^sup>*\<^sup>* (w_srv w) (w_srv w2)" using update_action_result_run [OF c, of ?e ?ar w None] u1 by simp
  have st2: "ok (w_srv w2)" "\<And>h. blobs (w_srv w) h \<noteq> None \<Longrightarrow> blobs (w_srv w2) h \<noteq> None"
    using updates_run [OF r2 assms(2)] by simp_all
  have comp2: "complete (w_srv w) \<Longrightarrow> complete (w_srv w2)" by (rule updates_complete [OF r2 assms(2) _ assms(3)])
  show ?thesis
  proof (cases "\<exists>e. y = Some e \<and> status_code e = FailedPrecondition")
    case False
    then have "w' = w2" "r = None \<longleftrightarrow> y = None"
      using assms(4) u1 by (auto simp: publish_def Let_def split: option.splits if_splits)
    with st2 comp2 update_action_result_published [OF c assms(2), of None ?e ?ar w2] u1 show ?thesis by auto
  next
    case True
    obtain z w3 where a2: "upload_all c ?bm ?pm p d sd w2 = (z, w3)" by (cases "upload_all c ?bm ?pm p d sd w2")
    have s3: "reads_or_uploads srv (w_srv w2) (w_srv w3)" using upload_all_steps [of c w2 ?bm ?pm p d sd] a2 c by simp
    note ok3 = run_ok [OF s3 st2(1)] and grow3 = run_grows [OF s3 st2(1)] and comp3 = run_complete [OF s3 st2(1)]
    have here: "blobs (w_srv w3) (d_hash d) \<noteq> None" using grow3 st2(2) assms(3) by blast
    obtain v w4 where u2: "update_action_result c None ?e ?ar w3 = (v, w4)"
      by (cases "update_action_result c None ?e ?ar w3")
    have r4: "(updates ?e ?ar)\<^sup>*\<^sup>* (w_srv w3) (w_srv w4)" using update_action_result_run [OF c, of ?e ?ar w3 None] u2 by simp
    have st4: "ok (w_srv w4)" "\<And>h. blobs (w_srv w3) h \<noteq> None \<Longrightarrow> blobs (w_srv w4) h \<noteq> None"
      using updates_run [OF r4 ok3] by simp_all
    have "w' = w3 \<and> r \<noteq> None \<or> w' = w4 \<and> (r = None \<longleftrightarrow> v = None)"
      using assms(4) u1 True a2 u2 by (auto simp: publish_def Let_def split: option.splits)
    with st2 st4 grow3 comp2 comp3 ok3 updates_complete [OF r4 ok3 _ here]
      update_action_result_published [OF c ok3, of None ?e ?ar w4] u2 show ?thesis
      by (cases v) blast+
  qed
qed

lemma populate_world_keeps:
  assumes "sane c d sd" and "ok (w_srv w)" and "populate_world c out p d sd w = (r, w')"
  shows "ok (w_srv w') \<and> (\<forall>h. blobs (w_srv w) h \<noteq> None \<longrightarrow> blobs (w_srv w') h \<noteq> None)
    \<and> (complete (w_srv w) \<longrightarrow> complete (w_srv w'))
    \<and> (r = None \<longrightarrow> blobs (w_srv w') (d_hash d) \<noteq> None
      \<and> (\<forall>(data, e) \<in> set (proto_blobs sd). blobs (w_srv w') (d_hash e) \<noteq> None)
      \<and> (cl_updateEnabled c \<longrightarrow> actions (w_srv w') (d_hash (sd_actionDigest sd)) = Some (synthetic_action_result out d)))"
proof -
  have c: "cl_server c = srv" using assms(1) by (simp add: sane_def)
  obtain x w1 where a1: "upload_all c ''upload body'' ''upload proto blob'' p d sd w = (x, w1)"
    by (cases "upload_all c ''upload body'' ''upload proto blob'' p d sd w")
  have s1: "reads_or_uploads srv (w_srv w) (w_srv w1)"
    using upload_all_steps [of c w "''upload body''" "''upload proto blob''" p d sd] a1 c by simp
  note ok1 = run_ok [OF s1 assms(2)] and grow1 = run_grows [OF s1 assms(2)] and comp1 = run_complete [OF s1 assms(2)]
  show ?thesis
  proof (cases "x = None \<and> cl_updateEnabled c")
    case False
    then have "w' = w1" "r = None \<longleftrightarrow> x = None"
      using assms(3) a1 by (auto simp: populate_world_def split: option.splits if_splits)
    with False ok1 grow1 comp1 upload_all_done [OF assms(1, 2), of "''upload body''" "''upload proto blob''" p w1] a1
    show ?thesis by auto
  next
    case True
    have all: "blobs (w_srv w1) (d_hash d) \<noteq> None"
      "\<forall>(data, e) \<in> set (proto_blobs sd). blobs (w_srv w1) (d_hash e) \<noteq> None"
      using upload_all_done [OF assms(1, 2), of "''upload body''" "''upload proto blob''" p w1] a1 True by simp_all
    have "publish c out p d sd w1 = (r, w')" using assms(3) a1 True by (simp add: populate_world_def)
    from publish_keeps [OF assms(1) ok1 all(1) this] all grow1 comp1 show ?thesis by fastforce
  qed
qed

end

end
