(* ===== verification/Frame.thy ===== *)
theory Frame
  imports Handler
begin

text \<open>
  What requests leave alone. A relation between the node before and after is kept by a whole get or
  put when it is kept by the few primitives they are made of; the locale states those, and the facts
  on the server, on the synthetic digests, on the pending uploads and on the index are instances.
\<close>

subsection \<open>Relations kept by the primitives\<close>

locale node_frame =
  fixes R :: "'v node \<Rightarrow> 'v node \<Rightarrow> bool" and h :: "'v handler" and a :: string
  assumes refl: "R n n"
    and trans: "R n1 n2 \<Longrightarrow> R n2 n3 \<Longrightarrow> R n1 n3"
    and sys: "R n (n\<lparr>n_world := (n_world n)\<lparr>w_sys := s\<rparr>\<rparr>)"
    and download: "h_client h = Some c \<Longrightarrow> R n (n\<lparr>n_world := snd (download_to c d p (n_world n))\<rparr>)"
    and action: "h_client h = Some c \<Longrightarrow> R n (n\<lparr>n_world := snd (get_action_result c ctx d (n_world n))\<rparr>)"
    and synthetic:
      "R n (n\<lparr>n_synthetic := snd (compute_synthetic_digests (h_marshal h) (h_dir h) a (n_synthetic n))\<rparr>)"
    and looked_up: "lookup a (n_cache n) s = Some (r, dc, t) \<Longrightarrow> R n (n\<lparr>n_cache := dc\<rparr>)"
    and installed: "install a tmp m (n_cache n) s = Some (x, dc, t) \<Longrightarrow> R n (n\<lparr>n_cache := dc\<rparr>)"
    and removed: "remove_entry a (n_cache n) s = Some (dc, t) \<Longrightarrow> R n (n\<lparr>n_cache := dc\<rparr>)"
begin

lemma system: "on_sys f n = (x, n') \<Longrightarrow> R n n'"
  using sys [of n "w_sys (n_world n')"] unfolding on_sys_eq by metis

lemma temporary: "R n n' \<Longrightarrow> R n (remove_temp p n')"
  using trans [OF _ sys [of n' "w_sys (n_world (remove_temp p n'))"]]
  by (simp add: remove_temp_def on_sys_def on_world_def call_sys_def)

lemma cache_then_sys: "R n (n\<lparr>n_cache := dc\<rparr>) \<Longrightarrow> R n (n\<lparr>n_cache := dc, n_world := (n_world n)\<lparr>w_sys := s\<rparr>\<rparr>)"
  using trans [OF _ sys [of "n\<lparr>n_cache := dc\<rparr>" s]] by simp

lemma lookup_step: "on_cache (lookup a) n = Some (r, n') \<Longrightarrow> R n n'"
  using looked_up cache_then_sys by (fastforce simp: on_cache_eq)

lemma install_step: "on_cache (install a tmp m) n = Some (x, n') \<Longrightarrow> R n n'"
  using installed cache_then_sys by (fastforce simp: on_cache_eq)

lemma remove_step: "update_cache (remove_entry a) n = Some n' \<Longrightarrow> R n n'"
  using removed cache_then_sys by (fastforce simp: update_cache_def split: option.splits)

lemma download_step:
  assumes "h_client h = Some c" and "download_and_install c a d m n = Some (r, n')"
  shows "R n n'"
proof -
  obtain x n1 where t: "on_sys (temp_file (n_cache n)) n = (x, n1)" by (cases "on_sys (temp_file (n_cache n)) n")
  obtain de hashed n2 where dl: "on_world (download_to c d (projr x)) n1 = ((de, hashed), n2)" by (metis prod.collapse)
  obtain y n3 where cl: "on_sys (close_file (projr x)) n2 = (y, n3)" by (cases "on_sys (close_file (projr x)) n2")
  obtain z n4 where st: "on_sys (stat (projr x)) n3 = (z, n4)" by (cases "on_sys (stat (projr x)) n3")
  have r1: "R n n1" using system [OF t] .
  have "n2 = n1\<lparr>n_world := snd (download_to c d (projr x) (n_world n1))\<rparr>"
    using dl by (auto simp: on_world_def split: prod.splits)
  then have r2: "R n n2" using trans [OF r1] download [OF assms(1)] by simp
  have r3: "R n n3" using trans [OF r2 system [OF cl]] .
  have r4: "R n n4" using trans [OF r3 system [OF st]] .
  have "n' = n1 \<or> n' = remove_temp (projr x) n3 \<or> n' = remove_temp (projr x) n4
      \<or> on_cache (install a (projr x) m) n4 = Some (r, n')"
    using assms(2) t dl cl st
    by (cases x; cases de; cases y; cases z) (auto simp: download_and_install_def Let_def split: if_splits)
  then show ?thesis
    using r1 temporary [OF r3] temporary [OF r4] trans [OF r4 install_step] by metis
qed

lemma action_lookup_step:
  assumes "h_client h = Some c" and "remote_ac_lookup h c ctx req a n = Some (resp, n')"
  shows "R n n'"
proof -
  obtain x cache where comp: "compute_synthetic_digests (h_marshal h) (h_dir h) a (n_synthetic n) = (x, cache)"
    by fastforce
  let ?n = "n\<lparr>n_synthetic := cache\<rparr>"
  obtain y n1 where get: "on_world (get_action_result c ctx (sd_actionDigest (projr x))) ?n = (y, n1)" by fastforce
  obtain t n2 where t: "on_sys now n1 = (t, n2)" by (cases "on_sys now n1")
  have r0: "R n ?n" using synthetic [of n] comp by simp
  have "n1 = ?n\<lparr>n_world := snd (get_action_result c ctx (sd_actionDigest (projr x)) (n_world ?n))\<rparr>"
    using get by (auto simp: on_world_def split: prod.splits)
  then have r1: "R n n1" using trans [OF r0] action [OF assms(1)] by metis
  have r2: "R n n2" using trans [OF r1 system [OF t]] .
  show ?thesis
    using assms(2) comp get t r0 r1 trans [OF r2 download_step [OF assms(1)]]
    by (cases x) (auto simp: remote_ac_lookup_def Let_def split: sum.splits option.splits list.splits)
qed

lemma remote_step: "lookup_remote h ctx shared req a n = Some (resp, n') \<Longrightarrow> R n n'"
  using action_lookup_step refl by (fastforce simp: lookup_remote_def split: option.splits)

lemma get_step:
  assumes "handle_get h ctx shared req n = Some (resp, n')" and "a = hex_encode (rq_actionID req)"
  shows "R n n'"
proof -
  obtain meta bp hit n1 where l: "on_cache (lookup a) n = Some ((meta, bp, hit), n1)"
    using assms by (cases "on_cache (lookup a) n") (auto simp: handle_get_def Let_def)
  note r1 = lookup_step [OF l]
  note get = assms(1) [unfolded handle_get_def Let_def assms(2) [symmetric] l option.case prod.case]
  consider (hit) m where "hit" "meta = Some m"
    | (remote) "\<not> hit" "meta = None \<or> h_client h = None"
    | (refill) m c where "\<not> hit" "meta = Some m" "h_client h = Some c"
    using get by (cases hit; cases meta) auto
  then show ?thesis
  proof cases
    case hit
    then have "n' = n1 \<or> update_cache (remove_entry a) n1 = Some n'" using get by (auto split: sum.splits)
    with r1 trans [OF r1 remove_step] show ?thesis by auto
  next
    case remote
    then have "lookup_remote h ctx shared req a n1 = Some (resp, n')" using get by (cases meta) auto
    from trans [OF r1 remote_step [OF this]] show ?thesis .
  next
    case refill
    then obtain x n2 where rf: "refill_from_cas c req a m n1 = Some (x, n2)"
      using get by (cases "refill_from_cas c req a m n1") auto
    then have r2: "R n n2"
      using trans [OF r1 download_step [OF refill(3)]]
      by (fastforce simp: refill_from_cas_def split: option.splits sum.splits)
    have "n' = n2 \<or> lookup_remote h ctx shared req a n2 = Some (resp, n')" using get refill rf by (cases x) auto
    with r2 trans [OF r2 remote_step] show ?thesis by blast
  qed
qed

lemma body_step:
  assumes "write_body_to_temp body n = (x, n')"
  shows "R n n'" and "x = Inr (d, tmp) \<Longrightarrow> d_hash d = hex_encode (sha256 body)"
proof -
  obtain y n1 where t: "on_sys (temp_file (n_cache n)) n = (y, n1)" by (cases "on_sys (temp_file (n_cache n)) n")
  obtain z n2 where w: "on_sys (write_data (projr y) body) n1 = (z, n2)" by (cases "on_sys (write_data (projr y) body) n1")
  obtain v n3 where cl: "on_sys (close_file (projr y)) n2 = (v, n3)" by (cases "on_sys (close_file (projr y)) n2")
  have r: "R n n1" "R n n2" "R n n3" using system [OF t] system [OF w] system [OF cl] trans by blast+
  show "R n n'" "x = Inr (d, tmp) \<Longrightarrow> d_hash d = hex_encode (sha256 body)"
    using assms t w cl r temporary
    by (cases y; cases z; cases v; auto simp: write_body_to_temp_def)+
qed

text \<open>A put may also start an upload.\<close>

lemma put_step:
  assumes "handle_put h req n = Some (resp, n')" and "a = hex_encode (rq_actionID req)"
  shows "\<exists>n1. R n n1 \<and> (n' = n1 \<or> h_client h \<noteq> None \<and> (\<exists>task. n' = n1\<lparr>n_tasks := n_tasks n1 @ [task]\<rparr>
    \<and> d_hash (pp_digest task) = hex_encode (sha256 (rq_body req))))"
proof -
  obtain x n1 where w: "write_body_to_temp (rq_body req) n = (x, n1)" by (cases "write_body_to_temp (rq_body req) n")
  note r1 = body_step(1) [OF w]
  obtain t n2 where t: "on_sys now n1 = (t, n2)" by (cases "on_sys now n1")
  have r2: "R n n2" using trans [OF r1 system [OF t]] .
  have r3: "R n n3" if "on_cache (install a tmp m) n2 = Some (x, n3)" for tmp m x n3
    using trans [OF r2 install_step [OF that]] .
  show ?thesis
    using assms w t r1 r3 refl body_step(2) [OF w]
    by (fastforce simp: handle_put_def Let_def split: sum.splits prod.splits option.splits if_splits)
qed

end

subsection \<open>The index and the pending uploads\<close>

abbreviation keys :: "'v node \<Rightarrow> string set" where
  "keys n \<equiv> dom (dc_entries (n_cache n))"

text \<open>Only the entry of the request's own action id may be added.\<close>

definition index_frame :: "string \<Rightarrow> 'v node \<Rightarrow> 'v node \<Rightarrow> bool" where
  "index_frame a n n' \<longleftrightarrow> keys n' \<subseteq> insert a (keys n) \<and> n_tasks n' = n_tasks n"

lemma lookup_keys: "lookup a dc s = Some (r, dc', t) \<Longrightarrow> dom (dc_entries dc') \<subseteq> insert a (dom (dc_entries dc))"
  using touch_entry_index
  by (fastforce simp: lookup_def lookup_cached_def lookup_on_disk_def mark_evicted_def
      split: option.splits sum.splits prod.splits if_splits)

lemma install_keys: "install a tmp m dc s = Some (r, dc', t) \<Longrightarrow> dom (dc_entries dc') \<subseteq> insert a (dom (dc_entries dc))"
  using install_index(2) by fastforce

lemma remove_keys: "remove_entry a dc s = Some (dc', t) \<Longrightarrow> dom (dc_entries dc') \<subseteq> insert a (dom (dc_entries dc))"
  by (auto simp: remove_entry_def Let_def split: option.splits)

lemma index_frame_trans: "index_frame a n1 n2 \<Longrightarrow> index_frame a n2 n3 \<Longrightarrow> index_frame a n1 n3"
  unfolding index_frame_def by (metis insert_absorb2 insert_mono subset_trans)

interpretation index: node_frame "index_frame a" h a for h :: "'v handler" and a
proof
  show "index_frame a n1 n2 \<Longrightarrow> index_frame a n2 n3 \<Longrightarrow> index_frame a n1 n3" for n1 n2 n3 :: "'v node"
    by (rule index_frame_trans)
qed (simp_all add: index_frame_def lookup_keys install_keys remove_keys subset_insertI)

end
