(* ===== verification/Fleet.thy ===== *)
theory Fleet
  imports Serving Publish Frame
begin

text \<open>
  Nodes and the remote cache together: what a sequence of requests to nodes does to the server, and
  what one node may rely on of what another has published.
\<close>

subsection \<open>Gets only read\<close>

lemma multi_write_srv [simp]: "w_srv (snd (snd (multi_write p data hw))) = w_srv (snd hw)"
  by (simp add: multi_write_def call_sys_def split: prod.splits sum.splits)

lemma write_responses_srv [simp]: "w_srv (snd (snd (write_responses p rs hw))) = w_srv (snd hw)"
proof (induction rs arbitrary: hw)
  case (Cons r rs)
  obtain x hw1 where m: "multi_write p (rr_data r) hw = (x, hw1)" by (cases "multi_write p (rr_data r) hw")
  then have "w_srv (snd hw1) = w_srv (snd hw)" using multi_write_srv [of p "rr_data r" hw] by simp
  with Cons.IH [of hw1] m show ?case by (cases x) simp_all
qed simp

lemma receive_chunks_srv [simp]: "w_srv (snd (snd (receive_chunks p chunks e hw))) = w_srv (snd hw)"
proof (induction p chunks e hw rule: receive_chunks.induct)
  case (3 p data rest e hw)
  obtain x hw1 where m: "multi_write p data hw = (x, hw1)" by (cases "multi_write p data hw")
  then have "w_srv (snd hw1) = w_srv (snd hw)" using multi_write_srv [of p data hw] by simp
  with 3 m show ?case by (cases x) simp_all
qed simp_all

lemma download_to_steps: "reads_or_uploads (cl_server c) (w_srv w) (w_srv (snd (download_to c d p w)))"
proof -
  have "w_srv (snd (download_to c d p w)) = snd (batch_read_blobs (cl_server c) (cl_instance c) [to_proto d] (w_srv w))
      \<or> w_srv (snd (download_to c d p w)) = snd (stream_read (cl_server c) (read_resource c d) 0 (w_srv w))"
    by (auto simp: download_to_def download_blob_def batch_download_def byte_stream_download_def call_srv_def
        split: prod.splits sum.splits)
      (metis snd_conv write_responses_srv receive_chunks_srv world.select_convs(2) world.surjective world.update_convs(2))+
  then show ?thesis by (metis r_into_rtranclp batch_read sread)
qed


abbreviation n_srv :: "'v node \<Rightarrow> 'v" where
  "n_srv n \<equiv> w_srv (n_world n)"

definition srv_frame :: "'v handler \<Rightarrow> 'v node \<Rightarrow> 'v node \<Rightarrow> bool" where
  "srv_frame h n n' \<longleftrightarrow>
     (case h_client h of None \<Rightarrow> n_srv n' = n_srv n | Some c \<Rightarrow> reads_or_uploads (cl_server c) (n_srv n) (n_srv n'))"

interpretation server: node_frame "srv_frame h" h a for h :: "'v handler" and a
  by unfold_locales (auto simp: srv_frame_def download_to_steps get_action_result_steps split: option.splits)

subsection \<open>Publishing at the fake server\<close>

lemma seg_ok_hex: "length b = 32 \<Longrightarrow> seg_ok (hex_encode b)"
proof -
  assume b: "length b = 32"
  have "code_of x < 0x80" if "x \<in> set (hex_encode b)" for x
  proof -
    have "x \<in> set hex_digits" using that set_hex_encode by auto
    moreover have "list_all (\<lambda>c. code_of c < 0x80) hex_digits" by code_simp
    ultimately show ?thesis by (simp add: list_all_iff)
  qed
  moreover have len: "length (hex_encode b) = 64" using b by simp
  then have "hex_encode b \<noteq> ''blobs''" by (auto dest: arg_cong [where f = length] simp del: length_hex_encode)
  moreover have "hex_encode b \<noteq> []" using len by (metis list.size(3) zero_neq_numeral)
  ultimately show ?thesis using hex_encode_no_slash by (simp add: seg_ok_def list_all_iff)
qed

lemma seg_ok_digest: "seg_ok (hex_encode (sha256 data))" "seg_ok (d_hash (digest_bytes data))"
proof -
  have "length (hex_encode (sha256 data)) = 64"
    using length_digest_hash [of data] by (simp add: digest_bytes_def hex_encode_def)
  then have "length (sha256 data) = 32" by simp
  then show "seg_ok (hex_encode (sha256 data))" by (rule seg_ok_hex)
  then show "seg_ok (d_hash (digest_bytes data))" by (simp add: digest_bytes_def hex_encode_def)
qed

text \<open>A client of the fake server, with well-formed names.\<close>

definition fake_client :: "hooks \<Rightarrow> fake client \<Rightarrow> bool" where
  "fake_client hk c \<longleftrightarrow> cl_server c = fake_server hk \<and> inst_ok (cl_instance c) \<and> (\<forall>n. seg_ok (cl_uuid c n))"

text \<open>Every body that a result of the action cache names is stored.\<close>

definition ac_complete :: "fake \<Rightarrow> bool" where
  "ac_complete v \<longleftrightarrow> (\<forall>h ar out. fk_actionCache v h = Some ar \<longrightarrow> out \<in> set (ar_output_files ar) \<longrightarrow>
     fk_blobs v (d_hash (digest_from_proto (of_digest out))) \<noteq> None)"

lemma complete_fake: "flaky hk \<Longrightarrow> remote_cache.complete fk_blobs fk_actionCache v = ac_complete v"
  by (simp add: remote_cache.complete_def [OF flaky_contract] ac_complete_def)

lemma computed_digests:
  assumes "cache_ok marshal dir cache" and "init_dir marshal = Some dir"
    and "compute_synthetic_digests marshal dir a cache = (Inr sd, cache')"
  shows "uncached marshal dir a = Inr sd" and "\<forall>(data, e) \<in> set (proto_blobs sd). e = digest_bytes data"
proof -
  show u: "uncached marshal dir a = Inr sd" using compute_uncached(1) [OF assms(1), of a] assms(3) by simp
  show "\<forall>(data, e) \<in> set (proto_blobs sd). e = digest_bytes data"
    using uncached_chain(4-6) [OF u assms(2)] by (simp add: proto_blobs_def)
qed

lemma remote_populate_fake:
  assumes "flaky hk" and "fake_client hk c" and "init_dir (h_marshal h) = Some (h_dir h)"
    and "cache_ok (h_marshal h) (h_dir h) (n_synthetic n)" and "seg_ok (d_hash (pp_digest task))" and "fk_inv (n_srv n)"
    and "remote_populate h c task n = (r, n')"
  shows "fk_inv (n_srv n') \<and> (ac_complete (n_srv n) \<longrightarrow> ac_complete (n_srv n'))
    \<and> cache_ok (h_marshal h) (h_dir h) (n_synthetic n') \<and> n_tasks n' = n_tasks n
    \<and> (r = None \<longrightarrow> (\<exists>sd. uncached (h_marshal h) (h_dir h) (pp_actionIDHex task) = Inr sd
        \<and> fk_blobs (n_srv n') (d_hash (pp_digest task)) \<noteq> None
        \<and> (\<forall>(data, e) \<in> set (proto_blobs sd). fk_blobs (n_srv n') (d_hash e) \<noteq> None)
        \<and> (cl_updateEnabled c \<longrightarrow> fk_actionCache (n_srv n') (d_hash (sd_actionDigest sd))
             = Some (synthetic_action_result (pp_outputIDHex task) (pp_digest task)))))"
proof -
  obtain x cache where comp: "compute_synthetic_digests (h_marshal h) (h_dir h) (pp_actionIDHex task) (n_synthetic n)
      = (x, cache)" by fastforce
  have cache: "cache_ok (h_marshal h) (h_dir h) cache" using compute_uncached(2) [OF assms(4)] comp by (metis snd_conv)
  show ?thesis
  proof (cases x)
    case (Inl e)
    with assms(6, 7) comp cache show ?thesis by (auto simp: remote_populate_def)
  next
    case (Inr sd)
    note dig = computed_digests [OF assms(4, 3) comp [unfolded Inr]]
    have sane: "remote_cache.sane (fake_server hk) inst_ok seg_ok c (pp_digest task) sd"
      using assms(2, 5) dig(2) seg_ok_digest(2)
      by (auto simp: remote_cache.sane_def [OF flaky_contract [OF assms(1)]] fake_client_def)
    have pop: "populate_world c (pp_outputIDHex task) (pp_body task) (pp_digest task) sd (n_world n) = (r, n_world n')"
      and n': "n' = n\<lparr>n_synthetic := cache, n_world := n_world n'\<rparr>"
      using assms(7) comp Inr by (auto simp: remote_populate_def on_world_def split: prod.splits)
    have frame: "n_synthetic n' = cache" "n_tasks n' = n_tasks n"
      by (subst n', simp)+
    from remote_cache.populate_world_keeps [OF flaky_contract [OF assms(1)] sane assms(6) pop] dig(1) cache frame
    show ?thesis by (simp add: complete_fake [OF assms(1)])
  qed
qed

text \<open>
  C13: a successful upload publishes the result. When \<open>remotePopulate\<close> reports no error, against the
  fake server with any hooks that inject failures, the body, the command, the directory and the
  action are stored there, and, if the server takes updates, the action cache maps the action of the
  action id to a result that names the output id and the body's digest.
\<close>

theorem populate_publishes:
  assumes "flaky hk" and "fake_client hk c" and "init_dir (h_marshal h) = Some (h_dir h)"
    and "cache_ok (h_marshal h) (h_dir h) (n_synthetic n)" and "seg_ok (d_hash (pp_digest task))" and "fk_inv (n_srv n)"
    and "remote_populate h c task n = (None, n')"
  shows "\<exists>sd. uncached (h_marshal h) (h_dir h) (pp_actionIDHex task) = Inr sd
    \<and> fk_blobs (n_srv n') (d_hash (pp_digest task)) \<noteq> None
    \<and> (\<forall>(data, e) \<in> set (proto_blobs sd). fk_blobs (n_srv n') (d_hash e) \<noteq> None)
    \<and> (cl_updateEnabled c \<longrightarrow> fk_actionCache (n_srv n') (d_hash (sd_actionDigest sd))
         = Some (synthetic_action_result (pp_outputIDHex task) (pp_digest task)))"
  using remote_populate_fake [OF assms] by simp

subsection \<open>Nodes that share a server\<close>

text \<open>A fleet: the nodes, and the server they all talk to; an event happens at one node.\<close>

type_synonym 'v fleet = "(nat \<Rightarrow> 'v node) \<times> 'v"

definition with_srv :: "'v \<Rightarrow> 'v node \<Rightarrow> 'v node" where
  "with_srv v n = n\<lparr>n_world := (n_world n)\<lparr>w_srv := v\<rparr>\<rparr>"

definition fleet_step :: "(nat \<Rightarrow> 'v handler) \<Rightarrow> nat \<times> event \<Rightarrow> 'v fleet \<Rightarrow> 'v fleet" where
  "fleet_step hs ev fl =
     (let n = node_step (hs (fst ev)) (snd ev) (with_srv (snd fl) (fst fl (fst ev)))
      in ((fst fl)(fst ev := n), n_srv n))"

text \<open>The nodes' part of the invariant: true digests in the cache and in the uploads under way.\<close>

definition uploads_ok :: "'v handler \<Rightarrow> 'v node \<Rightarrow> bool" where
  "uploads_ok h n \<longleftrightarrow> cache_ok (h_marshal h) (h_dir h) (n_synthetic n)
     \<and> (\<forall>t \<in> set (n_tasks n). seg_ok (d_hash (pp_digest t)))"

definition handler_ok :: "hooks \<Rightarrow> fake handler \<Rightarrow> bool" where
  "handler_ok hk h \<longleftrightarrow> init_dir (h_marshal h) = Some (h_dir h) \<and> (\<forall>c. h_client h = Some c \<longrightarrow> fake_client hk c)"

lemma with_srv_simps [simp]:
  "n_srv (with_srv v n) = v" "n_synthetic (with_srv v n) = n_synthetic n" "n_tasks (with_srv v n) = n_tasks n"
  by (simp_all add: with_srv_def)

definition uploads_frame :: "'v handler \<Rightarrow> 'v node \<Rightarrow> 'v node \<Rightarrow> bool" where
  "uploads_frame h n n' \<longleftrightarrow> (uploads_ok h n \<longrightarrow> uploads_ok h n')"

lemma uploads_ok_frames [simp]:
  "uploads_ok h (n\<lparr>n_world := w\<rparr>) = uploads_ok h n" "uploads_ok h (n\<lparr>n_cache := dc\<rparr>) = uploads_ok h n"
  by (simp_all add: uploads_ok_def)

interpretation uploads: node_frame "uploads_frame h" h a for h :: "'v handler" and a
proof
  show "uploads_frame h n (n\<lparr>n_synthetic := snd (compute_synthetic_digests (h_marshal h) (h_dir h) a (n_synthetic n))\<rparr>)"
    for n :: "'v node"
    using compute_uncached(2) by (simp add: uploads_frame_def uploads_ok_def)
qed (simp_all add: uploads_frame_def)

lemma put_uploads:
  assumes "handle_put h req n = Some (resp, n')" and "uploads_ok h n"
  shows "uploads_ok h n'"
  using uploads.put_step [OF assms(1) refl] assms(2) seg_ok_digest(1)
  by (auto simp: uploads_frame_def uploads_ok_def)

subsection \<open>The action cache is never ahead of the storage\<close>

definition server_ok :: "fake \<Rightarrow> bool" where
  "server_ok v \<longleftrightarrow> fk_inv v \<and> ac_complete v"

lemma server_run_ok:
  assumes "flaky hk" and "reads_or_uploads (fake_server hk) v v'" and "server_ok v"
  shows "server_ok v'"
  using remote_cache.run_ok [OF flaky_contract [OF assms(1)] assms(2)]
    remote_cache.run_complete [OF flaky_contract [OF assms(1)] assms(2)] assms(3)
  by (simp add: server_ok_def complete_fake [OF assms(1)])

lemma srv_frame_ok:
  assumes "flaky hk" and "handler_ok hk h" and "srv_frame h n n'" and "server_ok (n_srv n)"
  shows "server_ok (n_srv n')"
  using assms(2-4) server_run_ok [OF assms(1)]
  by (auto simp: srv_frame_def handler_ok_def fake_client_def split: option.splits)

lemma node_step_fake:
  assumes "flaky hk" and "handler_ok hk h" and "uploads_ok h n" and "server_ok (n_srv n)"
  shows "uploads_ok h (node_step h ev n) \<and> server_ok (n_srv (node_step h ev n))"
proof (cases ev)
  case (Get_req ctx shared req)
  have "uploads_ok h n' \<and> server_ok (n_srv n')" if g: "handle_get h ctx shared req n = Some (resp, n')" for resp n'
    using server.get_step [OF g refl] uploads.get_step [OF g refl] srv_frame_ok [OF assms(1, 2) _ assms(4)] assms(3)
    by (simp add: uploads_frame_def)
  with Get_req assms(3, 4) show ?thesis by (cases "handle_get h ctx shared req n") auto
next
  case (Put_req req)
  have "uploads_ok h n' \<and> server_ok (n_srv n')" if p: "handle_put h req n = Some (resp, n')" for resp n'
    using server.put_step [OF p refl] srv_frame_ok [OF assms(1, 2) _ assms(4)] put_uploads [OF p assms(3)] by auto
  with Put_req assms(3, 4) show ?thesis by (cases "handle_put h req n") auto
next
  case (Finish i)
  show ?thesis
  proof (cases "h_client h = None \<or> length (n_tasks n) \<le> i")
    case True
    with assms Finish show ?thesis by (auto simp: run_task_def split: option.splits)
  next
    case False
    then obtain c where c: "h_client h = Some c" "i < length (n_tasks n)" by auto
    let ?n = "n\<lparr>n_tasks := take i (n_tasks n) @ drop (Suc i) (n_tasks n)\<rparr>" and ?t = "n_tasks n ! i"
    obtain r n' where p: "remote_populate h c ?t ?n = (r, n')" by fastforce
    have "set (n_tasks ?n) \<subseteq> set (n_tasks n)" by (auto dest: in_set_takeD in_set_dropD)
    moreover have "seg_ok (d_hash (pp_digest ?t))" using assms(3) c(2) by (simp add: uploads_ok_def)
    moreover have "fake_client hk c" "init_dir (h_marshal h) = Some (h_dir h)"
      using assms(2) c(1) by (simp_all add: handler_ok_def)
    ultimately show ?thesis
      using remote_populate_fake [OF assms(1) _ _ _ _ _ p] assms(3, 4) c Finish p
      by (auto simp: run_task_def uploads_ok_def server_ok_def)
  qed
qed

definition fleet_ok :: "(nat \<Rightarrow> fake handler) \<Rightarrow> fake fleet \<Rightarrow> bool" where
  "fleet_ok hs fl \<longleftrightarrow> server_ok (snd fl) \<and> (\<forall>i. uploads_ok (hs i) (fst fl i))"

lemma fleet_step_ok:
  assumes "flaky hk" and "\<forall>i. handler_ok hk (hs i)" and "fleet_ok hs fl"
  shows "fleet_ok hs (fleet_step hs ev fl)"
proof -
  have "uploads_ok (hs (fst ev)) (with_srv (snd fl) (fst fl (fst ev)))"
    using assms(3) by (simp add: fleet_ok_def uploads_ok_def)
  from node_step_fake [OF assms(1) _ this, of "snd ev"] assms(2, 3) show ?thesis
    by (simp add: fleet_step_def Let_def fleet_ok_def)
qed

lemma fleet_machine: "flaky hk \<Longrightarrow> \<forall>i. handler_ok hk (hs i) \<Longrightarrow> machine (fleet_step hs) (fleet_ok hs)"
  by unfold_locales (rule fleet_step_ok)

text \<open>
  C8: the action cache never names a body that is not there. Any number of processes share the
  (fake) server, and gets, puts and uploads of all of them are interleaved in any order, with calls
  that fail at any point and lost answers: every result in the action cache has its body in the
  storage, and every stored blob is filed under the SHA-256 of its bytes.
\<close>

theorem action_cache_complete:
  assumes "flaky hk" and "\<forall>i. handler_ok hk (hs i)" and "fleet_ok hs fl"
    and "fold (fleet_step hs) evs fl = (ns, v)"
    and "fk_actionCache v h = Some ar" and "out \<in> set (ar_output_files ar)"
  shows "\<exists>data. fk_blobs v (d_hash (digest_from_proto (of_digest out))) = Some data
    \<and> hex_encode (sha256 data) = d_hash (digest_from_proto (of_digest out))"
proof -
  have "server_ok v"
    using machine.run_inv [OF fleet_machine [OF assms(1, 2)] assms(3), of evs] assms(4) by (simp add: fleet_ok_def)
  with assms(5, 6) show ?thesis by (fastforce simp: server_ok_def ac_complete_def fk_inv_def)
qed

end
