(* ===== verification/Sharing.thy ===== *)
theory Sharing
  imports Fleet
begin

text \<open>
  The point of a remote build cache: what one machine has built and put, another one gets.
\<close>

subsection \<open>A download that succeeds\<close>






lemma fake_reads [simp]:
  "batch_read_blobs (fake_server no_hooks) = fake_batch_read" "stream_read (fake_server no_hooks) = fake_stream_read"
  "get_action (fake_server no_hooks) = fake_get_action" "update_action (fake_server no_hooks) = fake_update_action"
  "find_missing_blobs (fake_server no_hooks) = fake_find_missing"
  by (simp_all add: fake_server_def hooked_def no_hooks_def)



subsection \<open>A get on a node that has never seen the entry\<close>






subsection \<open>From one node to another\<close>



subsection \<open>An example\<close>

text \<open>
  Two nodes and a server that holds the empty blob; the messages' wire form is empty, so that every
  digest is the digest of no bytes.
\<close>

abbreviation no_bytes :: string where
  "no_bytes \<equiv> hex_encode (sha256 [])"

definition shared_client :: "fake client" where
  "shared_client = \<lparr>cl_instance = [], cl_maxBatchSize = 4 * 1024 * 1024, cl_updateEnabled = True,
     cl_uuid = (\<lambda>_. ''u''), cl_server = fake_server no_hooks\<rparr>"

definition shared_handler :: "fake handler" where
  "shared_handler = \<lparr>h_client = Some shared_client, h_maxArtifactSize = 0, h_marshal = (\<lambda>m. Inr []),
     h_dir = ([], digest_bytes [])\<rparr>"

definition empty_task :: populate where
  "empty_task = \<lparr>pp_actionIDHex = ''ab12'', pp_outputIDHex = hex_encode [0x0c], pp_body = ''/c/ab/ab12-d'',
     pp_digest = digest_bytes []\<rparr>"

definition shared_node :: "fake node" where
  "shared_node = local_node\<lparr>n_world := (n_world local_node)\<lparr>w_srv := new_fake\<lparr>fk_blobs := [no_bytes \<mapsto> []]\<rparr>\<rparr>\<rparr>"

lemma shared_client_ok: "fake_client no_hooks shared_client" "inst_ok []"
proof -
  show "inst_ok []" by (simp add: inst_ok_def split_resource_def runes.simps)
  then show "fake_client no_hooks shared_client"
    by (simp add: fake_client_def shared_client_def seg_ok_def)
qed

lemma empty_digest [simp]: "d_hash (digest_bytes []) = no_bytes" "d_size (digest_bytes []) = 0"
  by (simp_all add: digest_bytes_def hex_encode_def)

lemma no_retry: "w_cb w = None \<Longrightarrow> fn w = (Inr x, w') \<Longrightarrow> w_cb w' = None \<Longrightarrow> retry_rpc None fn w = (Inr x, w')"
  by (simp add: retry_rpc_def cb_allow_def max_attempts_def eval_nat_numeral ctx_err_def cb_success_def)

lemma no_retry_result: "w_cb w = None \<Longrightarrow> fn w = (None, w') \<Longrightarrow> w_cb w' = None \<Longrightarrow> retry_no_result None fn w = (None, w')"
  by (simp add: retry_no_result_def cb_allow_def max_attempts_def eval_nat_numeral ctx_err_def cb_success_def)

lemma present_find_missing:
  assumes "w_cb w = None" and "cl_server c = fake_server no_hooks" and "fk_blobs (w_srv w) (d_hash d) \<noteq> None"
  shows "find_missing c None [d] w = (Inr [], w)"
  unfolding find_missing_def
  by (rule no_retry) (use assms in \<open>auto simp: find_missing_call_def call_srv_def fake_find_missing_def
    fill_proto_def to_proto_def\<close>)

lemma present_upload_all:
  assumes "w_cb w = None" and "cl_server c = fake_server no_hooks"
    and "\<forall>e \<in> {d} \<union> snd ` set (proto_blobs sd). fk_blobs (w_srv w) (d_hash e) \<noteq> None"
  shows "upload_all c bm pm p d sd w = (None, w)"
proof -
  have "upload_protos c bs w = (None, w)" if "\<forall>e \<in> snd ` set bs. fk_blobs (w_srv w) (d_hash e) \<noteq> None" for bs
    using that by (induction bs) (auto simp: upload_blob_def present_find_missing [OF assms(1, 2)])
  with assms show ?thesis by (simp add: upload_all_def upload_file_def present_find_missing)
qed


definition published_node :: "fake node" where
  "published_node = shared_node\<lparr>n_synthetic := snd (compute_synthetic_digests (h_marshal shared_handler)
       (h_dir shared_handler) ''ab12'' Map.empty),
     n_world := (n_world shared_node)\<lparr>w_srv := (n_srv shared_node)
       \<lparr>fk_actionCache := [no_bytes \<mapsto> synthetic_action_result (hex_encode [0x0c]) (digest_bytes [])]\<rparr>\<rparr>\<rparr>"

lemma example_digests:
  "\<exists>sd cache. compute_synthetic_digests (\<lambda>m. Inr []) ([], digest_bytes []) a Map.empty = (Inr sd, cache)
     \<and> sd_commandDigest sd = digest_bytes [] \<and> sd_dirDigest sd = digest_bytes [] \<and> sd_actionDigest sd = digest_bytes []"
  by (simp add: compute_synthetic_digests_def marshal_deterministic_def Let_def)

lemma populate_example: "remote_populate shared_handler shared_client empty_task shared_node = (None, published_node)"
proof -
  obtain sd cache where sd: "compute_synthetic_digests (\<lambda>m. Inr []) ([], digest_bytes []) ''ab12'' Map.empty = (Inr sd, cache)"
    "sd_commandDigest sd = digest_bytes []" "sd_dirDigest sd = digest_bytes []" "sd_actionDigest sd = digest_bytes []"
    using example_digests by blast
  let ?w = "n_world shared_node" and ?d = "digest_bytes []" and ?out = "hex_encode [0x0c]"
  have srv: "cl_server shared_client = fake_server no_hooks" by (simp add: shared_client_def)
  have w: "w_cb ?w = None" "fk_blobs (w_srv ?w) no_bytes \<noteq> None" by (simp_all add: shared_node_def local_node_def)
  have up: "upload_all shared_client bm pm p ?d sd ?w = (None, ?w)" for bm pm p
    by (rule present_upload_all) (use sd w srv in \<open>simp_all add: proto_blobs_def\<close>)
  have "update_action_result shared_client None ?d ar ?w
      = (None, ?w\<lparr>w_srv := (w_srv ?w)\<lparr>fk_actionCache := [no_bytes \<mapsto> ar]\<rparr>\<rparr>)" for ar
    unfolding update_action_result_def
    by (rule no_retry_result) (simp_all add: shared_client_def shared_node_def local_node_def new_fake_def
        update_action_result_call_def call_srv_def fake_update_action_def to_proto_def)
  with up sd show ?thesis
    by (simp add: remote_populate_def shared_handler_def empty_task_def on_world_def populate_world_def publish_def
        shared_client_def published_node_def shared_node_def local_node_def)
qed


lemma example_conditions:
  "init_dir (h_marshal shared_handler) = Some (h_dir shared_handler)" "h_client shared_handler = Some shared_client"
  "n_synthetic shared_node = Map.empty" "fk_inv (n_srv shared_node)" "seg_ok (d_hash (pp_digest empty_task))"
  "cl_updateEnabled shared_client" "pp_actionIDHex empty_task = ''ab12''" "pp_outputIDHex empty_task = hex_encode [0x0c]"
  "pp_digest empty_task = digest_bytes []"
  "fk_actionCache (n_srv published_node) = [no_bytes \<mapsto> synthetic_action_result (hex_encode [0x0c]) (digest_bytes [])]"
  "fk_blobs (n_srv published_node) = [no_bytes \<mapsto> []]"
  by (simp_all add: init_dir_def marshal_deterministic_def shared_handler_def shared_node_def local_node_def fk_inv_def
      empty_task_def seg_ok_digest(1) shared_client_def published_node_def new_fake_def)

theorem populate_publishes_witness:
  "\<exists>n'. remote_populate shared_handler shared_client empty_task shared_node = (None, n')
    \<and> (\<exists>sd. uncached (h_marshal shared_handler) (h_dir shared_handler) ''ab12'' = Inr sd
      \<and> fk_actionCache (n_srv n') (d_hash (sd_actionDigest sd))
          = Some (synthetic_action_result (hex_encode [0x0c]) (digest_bytes [])))"
proof -
  obtain sd where "uncached (h_marshal shared_handler) (h_dir shared_handler) ''ab12'' = Inr sd"
    "fk_actionCache (n_srv published_node) (d_hash (sd_actionDigest sd))
       = Some (synthetic_action_result (hex_encode [0x0c]) (digest_bytes []))"
    using populate_publishes [OF flaky_no_hooks shared_client_ok(1) example_conditions(1) _ example_conditions(5, 4)
        populate_example] example_conditions(3, 6-9) by auto
  with populate_example show ?thesis by blast
qed

theorem action_cache_complete_witness:
  "\<exists>data. fk_blobs (snd (fold (fleet_step (\<lambda>i. shared_handler)) [] (\<lambda>i. published_node\<lparr>n_synthetic := Map.empty\<rparr>, n_srv published_node)))
      no_bytes = Some data \<and> hex_encode (sha256 data) = no_bytes"
proof -
  let ?fl = "(\<lambda>i :: nat. published_node\<lparr>n_synthetic := Map.empty\<rparr>, n_srv published_node)"
  have "handler_ok no_hooks shared_handler"
    by (simp add: handler_ok_def example_conditions(1, 2) shared_client_ok)
  moreover have "fleet_ok (\<lambda>i. shared_handler) ?fl"
    by (auto simp: fleet_ok_def server_ok_def fk_inv_def ac_complete_def uploads_ok_def example_conditions
        synthetic_action_result_def digest_from_proto_def to_proto_def published_node_def shared_node_def local_node_def
        split: if_splits)
  ultimately show ?thesis
    using action_cache_complete [OF flaky_no_hooks, of "\<lambda>i. shared_handler" ?fl "[]" _ _ no_bytes] example_conditions(10)
    by (fastforce simp: synthetic_action_result_def digest_from_proto_def to_proto_def)
qed



end
