(* ===== verification/Accounting.thy ===== *)
theory Accounting
  imports Trim
begin

text \<open>
  Runs of the cache of \<open>internal/cache/disk.go\<close>: every exported operation that changes the index, as
  one step, in any order and with any pattern of failing system calls; and what stays true of the
  index and of the running total.
\<close>

datatype disk_op = OpInstall string path metadata | OpLookup string | OpRemove string
  | OpPin string | OpUnpinAll | OpTrim "string list"

text \<open>The order in which \<open>Trim\<close> ranges over the index must list its keys once each.\<close>

definition valid_order :: "disk_cache \<Rightarrow> string list \<Rightarrow> bool" where
  "valid_order dc order \<longleftrightarrow> distinct order \<and> set order = dom (dc_entries dc)"

text \<open>One operation; a panic leaves no next state, so the step stays where it is.\<close>

fun disk_step :: "disk_op \<Rightarrow> disk_cache \<times> sys \<Rightarrow> disk_cache \<times> sys" where
  "disk_step (OpInstall a tmp m) (dc, s) =
     (case install a tmp m dc s of None \<Rightarrow> (dc, s) | Some (r, ds) \<Rightarrow> ds)"
| "disk_step (OpLookup a) (dc, s) = (case lookup a dc s of None \<Rightarrow> (dc, s) | Some (r, ds) \<Rightarrow> ds)"
| "disk_step (OpRemove a) (dc, s) = (case remove_entry a dc s of None \<Rightarrow> (dc, s) | Some ds \<Rightarrow> ds)"
| "disk_step (OpPin a) (dc, s) = (pin a dc, s)"
| "disk_step OpUnpinAll (dc, s) = (unpin_all dc, s)"
| "disk_step (OpTrim order) (dc, s) =
     (if valid_order dc order then (case trim order dc s of None \<Rightarrow> (dc, s) | Some ds \<Rightarrow> ds) else (dc, s))"

text \<open>What a lookup drops from the bodies without taking it off the total.\<close>

fun drift :: "disk_op \<Rightarrow> disk_cache \<times> sys \<Rightarrow> int" where
  "drift (OpLookup a) (dc, s) =
     (case cached_meta a dc of
        Some (m, bp) \<Rightarrow> if bp \<noteq> [] \<and> isl (fst (stat bp s)) then weight (dc_entries dc a) else 0
      | None \<Rightarrow> 0)"
| "drift op ds = 0"

lemma lookup_cached_keeps:
  assumes "lookup_cached a m bp dc s = (r, dc', t)" and "dc_ok dc"
  shows "dc_ok dc' \<and> dc_total dc' = dc_total dc
    \<and> body_sum dc' = body_sum dc - (if bp \<noteq> [] \<and> isl (fst (stat bp s)) then weight (dc_entries dc a) else 0)"
proof (cases "bp = []")
  case True
  with assms show ?thesis by (simp add: lookup_cached_def)
next
  case False
  obtain x s1 where st: "stat bp s = (x, s1)" by (cases "stat bp s")
  show ?thesis
  proof (cases x)
    case (Inl e)
    with assms False st show ?thesis
      by (auto simp: lookup_cached_def mark_evicted_ok body_sum_mark_evicted)
  next
    case (Inr i)
    obtain dc1 s2 where te: "touch_entry a (\<lambda>e. e) dc s1 = (dc1, s2)"
      by (cases "touch_entry a (\<lambda>e. e) dc s1")
    with assms(1) False st Inr have "dc' = pin a dc1" by (simp add: lookup_cached_def)
    with touch_entry_ok [OF te assms(2)] touch_entry_frame [OF te] st Inr show ?thesis by simp
  qed
qed

lemma lookup_on_disk_keeps:
  assumes "lookup_on_disk a mp bp dc s = (r, dc', t)" and "dc_ok dc"
    and "body_path (dc_dir dc) a = Some bp"
  shows "dc_ok dc' \<and> dc_total dc' = dc_total dc \<and> body_sum dc' = body_sum dc"
proof -
  obtain x s1 where rm: "read_metadata mp s = (x, s1)" by (cases "read_metadata mp s")
  obtain y s2 where st: "stat bp s1 = (y, s2)" by (cases "stat bp s1")
  show ?thesis
  proof (cases "isl x \<or> isl y")
    case True
    with assms rm st show ?thesis by (auto simp: lookup_on_disk_def split: sum.splits)
  next
    case False
    then obtain m i where "x = Inr m" "y = Inr i" by (cases x; cases y) auto
    obtain dc1 s3 where te: "touch_entry a (\<lambda>e. e\<lparr>e_meta := Some m, e_bodyPath := bp\<rparr>) dc s2 = (dc1, s3)"
      by (cases "touch_entry a (\<lambda>e. e\<lparr>e_meta := Some m, e_bodyPath := bp\<rparr>) dc s2")
    with assms(1) rm st \<open>x = Inr m\<close> \<open>y = Inr i\<close> have "dc' = pin a dc1" by (simp add: lookup_on_disk_def)
    with touch_entry_ok [OF te assms(2)] touch_entry_frame [OF te] assms(3) show ?thesis by auto
  qed
qed

lemma lookup_keeps:
  assumes "lookup a dc s = Some (r, dc', t)" and "dc_ok dc"
  shows "dc_ok dc' \<and> dc_total dc' = dc_total dc \<and> body_sum dc' = body_sum dc - drift (OpLookup a) (dc, s)"
proof (cases "cached_meta a dc")
  case None
  with assms lookup_on_disk_keeps show ?thesis
    by (auto simp: lookup_def split: option.splits)
next
  case (Some mb)
  obtain m bp where "mb = (m, bp)" by (cases mb)
  with Some assms lookup_cached_keeps [of a m bp dc s r dc' t] show ?thesis by (simp add: lookup_def)
qed

lemma remove_entry_keeps:
  assumes "remove_entry a dc s = Some (dc', t)" and "dc_ok dc"
  shows "dc_ok dc' \<and> (\<exists>w. dc_total dc' = i64 (dc_total dc - w) \<and> body_sum dc' = body_sum dc - w
      \<or> dc_total dc' = dc_total dc \<and> body_sum dc' = body_sum dc)"
proof (cases "dc_entries dc a")
  case None
  with assms show ?thesis by (auto simp: remove_entry_def Let_def split: option.splits)
next
  case (Some e)
  let ?dc = "dc\<lparr>dc_entries := (dc_entries dc)(a := None)\<rparr>"
  have sum: "body_sum ?dc = body_sum dc - weight (Some e)"
    using body_sum_update [OF dc_ok_finite [OF assms(2)], of a None] Some by simp
  have ok: "dc_ok ?dc" by (rule dc_ok_delete [OF assms(2)])
  show ?thesis
  proof (cases "e_hasBody e")
    case True
    with assms Some have "dc' = ?dc\<lparr>dc_total := i64 (dc_total dc - e_size e), dc_pinned := dc_pinned dc - {a}\<rparr>"
      by (auto simp: remove_entry_def Let_def split: option.splits)
    with ok sum True show ?thesis by auto
  next
    case False
    with assms Some have "dc' = ?dc\<lparr>dc_pinned := dc_pinned dc - {a}\<rparr>"
      by (auto simp: remove_entry_def Let_def split: option.splits)
    with ok sum False show ?thesis by auto
  qed
qed

lemma evict_keeps:
  assumes "evict a dc s = Some (dc', t)" and "dc_ok dc"
  shows "dc_ok dc' \<and> (\<exists>w. dc_total dc' = i64 (dc_total dc - w) \<and> body_sum dc' = body_sum dc - w
      \<or> dc_total dc' = dc_total dc \<and> body_sum dc' = body_sum dc)"
proof (cases "dc_entries dc a")
  case None
  with assms show ?thesis by (auto simp: evict_def Let_def split: option.splits)
next
  case (Some e)
  show ?thesis
  proof (cases "e_hasBody e")
    case True
    with assms(1) Some have dc': "dc' = dc\<lparr>dc_total := i64 (dc_total dc - e_size e),
        dc_entries := (dc_entries dc)(a \<mapsto> evicted e)\<rparr>"
      using evict_spec by blast
    have "dc_ok (dc\<lparr>dc_entries := (dc_entries dc)(a \<mapsto> evicted e)\<rparr>)"
      by (rule dc_ok_update [OF assms(2)]) (use dc_ok_entry [OF assms(2) Some] in simp_all)
    moreover have "body_sum (dc\<lparr>dc_entries := (dc_entries dc)(a \<mapsto> evicted e)\<rparr>) = body_sum dc - e_size e"
      using body_sum_update [OF dc_ok_finite [OF assms(2)], of a "Some (evicted e)"] Some True by simp
    ultimately show ?thesis using dc' by auto
  next
    case False
    with assms Some show ?thesis by (auto simp: evict_def Let_def split: option.splits)
  qed
qed

text \<open>The invariant: a well-formed index whose total is the bodies and what the lookups dropped.\<close>

definition accounted_up_to :: "(disk_cache \<times> sys) \<times> int \<Rightarrow> bool" where
  "accounted_up_to x \<longleftrightarrow> dc_ok (fst (fst x)) \<and> dc_total (fst (fst x)) = i64 (body_sum (fst (fst x)) + snd x)"

lemma accounted_shift:
  "dc_total dc = i64 (body_sum dc + d) \<Longrightarrow>
   dc_total dc' = i64 (dc_total dc - w) \<and> body_sum dc' = body_sum dc - w
     \<or> dc_total dc' = dc_total dc \<and> body_sum dc' = body_sum dc
   \<Longrightarrow> dc_total dc' = i64 (body_sum dc' + d)"
proof (elim disjE conjE)
  assume "dc_total dc = i64 (body_sum dc + d)" "dc_total dc' = i64 (dc_total dc - w)"
    and b: "body_sum dc' = body_sum dc - w"
  then have "dc_total dc' = i64 (body_sum dc + d - w)" by simp
  also have "body_sum dc + d - w = body_sum dc' + d" by (simp add: b)
  finally show ?thesis .
qed simp

lemma index_entry_drift:
  assumes "dc_total dc = i64 (body_sum dc + d)" and "dc_ok dc"
  shows "dc_total (index_entry a bp m t dc) = i64 (body_sum (index_entry a bp m t dc) + d)"
proof -
  have "dc_total (index_entry a bp m t dc) = i64 (body_sum dc + d - weight (dc_entries dc a) + m_size m)"
    using assms(1) by (simp add: index_entry_total)
  also have "body_sum dc + d - weight (dc_entries dc a) + m_size m = body_sum (index_entry a bp m t dc) + d"
    using body_sum_index_entry [OF dc_ok_finite [OF assms(2)]] by simp
  finally show ?thesis .
qed

lemma evict_all_keeps:
  "evict_all as dc s = Some (dc', t) \<Longrightarrow> accounted_up_to ((dc, s), d) \<Longrightarrow> accounted_up_to ((dc', t), d)"
proof (induction as dc s rule: evict_all.induct)
  case (2 a as dc s)
  then obtain dc1 s1 where one: "evict a dc s = Some (dc1, s1)" "evict_all as dc1 s1 = Some (dc', t)"
    by (auto split: option.splits)
  with evict_keeps [OF one(1)] 2(3) have "accounted_up_to ((dc1, s1), d)"
    by (auto simp: accounted_up_to_def intro: accounted_shift)
  with 2(1) one show ?case by auto
qed simp

definition counted_step :: "disk_op \<Rightarrow> (disk_cache \<times> sys) \<times> int \<Rightarrow> (disk_cache \<times> sys) \<times> int" where
  "counted_step op x = (disk_step op (fst x), snd x + drift op (fst x))"

lemma counted_step_keeps:
  assumes "accounted_up_to x"
  shows "accounted_up_to (counted_step op x)"
proof -
  obtain dc s d where x: "x = ((dc, s), d)" by (metis prod.collapse)
  have inv: "dc_ok dc" "dc_total dc = i64 (body_sum dc + d)"
    using assms by (simp_all add: accounted_up_to_def x)
  show ?thesis
  proof (cases op)
    case (OpInstall a tmp m)
    show ?thesis
    proof (cases "install a tmp m dc s")
      case (Some r)
      then obtain y dc' t where i: "install a tmp m dc s = Some (y, dc', t)" by (cases r) auto
      obtain bp mp where "body_path (dc_dir dc) a = Some bp" "metadata_path (dc_dir dc) a = Some mp"
        using install_Some [OF i] by blast
      with i have "dc' = dc \<or> (\<exists>time. dc' = index_entry a bp m time dc)"
        by (cases rule: install_cases) auto
      with install_index(3) [OF i inv(1)] inv i OpInstall show ?thesis
        by (auto simp: counted_step_def accounted_up_to_def x index_entry_drift)
    qed (use assms OpInstall in \<open>simp add: counted_step_def x\<close>)
  next
    case (OpLookup a)
    show ?thesis
    proof (cases "lookup a dc s")
      case None
      then have "cached_meta a dc = None" by (auto simp: lookup_def split: option.splits)
      with None assms OpLookup show ?thesis by (simp add: counted_step_def x)
    next
      case (Some r)
      then obtain y dc' t where l: "lookup a dc s = Some (y, dc', t)" by (cases r) auto
      with lookup_keeps [OF l inv(1)] inv OpLookup show ?thesis
        by (simp add: counted_step_def accounted_up_to_def x)
    qed
  next
    case (OpRemove a)
    show ?thesis
    proof (cases "remove_entry a dc s")
      case (Some r)
      with remove_entry_keeps [of a dc s "fst r" "snd r"] inv OpRemove show ?thesis
        by (auto simp: counted_step_def accounted_up_to_def x intro: accounted_shift)
    qed (use assms OpRemove in \<open>simp add: counted_step_def x\<close>)
  next
    case (OpTrim order)
    show ?thesis
    proof (cases "valid_order dc order \<and> trim order dc s \<noteq> None")
      case True
      then obtain dc' t where t: "trim order dc s = Some (dc', t)" by auto
      then have "accounted_up_to ((dc', t), d)"
        using inv evict_all_keeps
        by (auto simp: trim_def accounted_up_to_def x split: if_splits prod.splits)
      with t True OpTrim show ?thesis by (simp add: counted_step_def x)
    next
      case False
      with assms OpTrim show ?thesis
        by (cases "trim order dc s") (auto simp: counted_step_def x)
    qed
  qed (use inv in \<open>simp_all add: counted_step_def accounted_up_to_def x pin_def unpin_all_def body_sum_def dc_ok_def\<close>)
qed

interpretation disk_machine: machine counted_step accounted_up_to
  by unfold_locales (rule counted_step_keeps)

text \<open>
  C26: the running total is exact but for what lookups drop. From a well-formed, exactly counted
  index, after any sequence of installs, lookups, removals, pins, unpins and trims, under any
  pattern of failing system calls, the index is well-formed and \<open>dc.total\<close> is, in 64-bit
  arithmetic, the sum of the sizes of the entries with a body plus the sizes of the entries whose
  body a lookup found missing.
\<close>

theorem total_accounting:
  assumes "dc_ok dc" and "accounted dc"
    and "fold counted_step ops ((dc, s), 0) = ((dc', s'), d)"
  shows "dc_ok dc' \<and> dc_total dc' = i64 (body_sum dc' + d)"
  using disk_machine.run_inv [of "((dc, s), 0)" ops] assms
  by (simp add: accounted_up_to_def accounted_def)

theorem total_accounting_witness:
  "\<exists>dc' s' d. fold counted_step [OpLookup ''ab12'', OpPin ''ab34'', OpUnpinAll, OpTrim [''ab12'', ''ab34'']]
      ((example_index, example_sys), 0) = ((dc', s'), d)
    \<and> dc_ok dc' \<and> dc_total dc' = i64 (body_sum dc' + d)"
  using total_accounting [OF example_index_ok] by (metis prod.collapse)

end
