(* ===== verification/Refinement.thy ===== *)
theory Refinement
  imports Serving
begin

text \<open>
  What a process promises its client, as an abstract cache: a partial map from action ids to outputs,
  each an output id, a size and a body. The process refines it: gets, puts and uploads, in any order
  and whatever the remote cache does, act on that map as the abstract cache allows.
\<close>

subsection \<open>Simulation\<close>

text \<open>
  The answers and the last state of a run, \<open>None\<close> where a step has no result; and the runs of a
  specification that are the same answers.
\<close>

fun trace :: "('e \<Rightarrow> 's \<Rightarrow> ('r \<times> 's) option) \<Rightarrow> 'e list \<Rightarrow> 's \<Rightarrow> ('r list \<times> 's) option" where
  "trace f [] s = Some ([], s)"
| "trace f (e # es) s =
     (case f e s of None \<Rightarrow> None | Some (r, t) \<Rightarrow> map_option (\<lambda>(rs, u). (r # rs, u)) (trace f es t))"

inductive allows ::
  "('e \<Rightarrow> 'r \<Rightarrow> 'a \<Rightarrow> 'a \<Rightarrow> bool) \<Rightarrow> 'e list \<Rightarrow> 'r list \<Rightarrow> 'a \<Rightarrow> 'a \<Rightarrow> bool" for spec
where
  none: "allows spec [] [] m m"
| more: "spec e r m m' \<Longrightarrow> allows spec es rs m' m'' \<Longrightarrow> allows spec (e # es) (r # rs) m m''"

inductive_simps allows_simps [simp]: "allows spec [] rs m m'" "allows spec (e # es) rs m m'"

locale simulation =
  fixes inv :: "'s \<Rightarrow> bool"
    and legal :: "'e \<Rightarrow> bool"
    and abs :: "'s \<Rightarrow> 'a"
    and act :: "'e \<Rightarrow> 's \<Rightarrow> ('r \<times> 's) option"
    and spec :: "'e \<Rightarrow> 'r \<Rightarrow> 'a \<Rightarrow> 'a \<Rightarrow> bool"
  assumes total: "inv s \<Longrightarrow> legal e \<Longrightarrow> act e s \<noteq> None"
    and inv_step: "inv s \<Longrightarrow> legal e \<Longrightarrow> act e s = Some (r, t) \<Longrightarrow> inv t"
    and spec_step: "inv s \<Longrightarrow> legal e \<Longrightarrow> act e s = Some (r, t) \<Longrightarrow> spec e r (abs s) (abs t)"
begin

lemma refines:
  "inv s \<Longrightarrow> list_all legal es \<Longrightarrow>
     \<exists>rs t. trace act es s = Some (rs, t) \<and> inv t \<and> allows spec es rs (abs s) (abs t)"
proof (induction es arbitrary: s)
  case (Cons e es)
  then obtain r t where act: "act e s = Some (r, t)" using total by fastforce
  then obtain rs u where "trace act es t = Some (rs, u)" "inv u" "allows spec es rs (abs t) (abs u)"
    using Cons inv_step by fastforce
  with act spec_step Cons.prems show ?case by fastforce
qed simp

end

subsection \<open>The abstract cache\<close>

type_synonym outputs = "string \<Rightarrow> (bytes \<times> int \<times> bytes) option"

datatype answer = Served bytes int bytes | Missed | Stored | Refused | Uploaded

text \<open>
  A get serves what is there. Where nothing is, it may fetch an output from elsewhere, which is then
  there; pass on the answer of another get of the same action id; or miss. A put that is stored
  replaces the output; one that is refused leaves it or loses it. Nothing else changes, and uploads
  change nothing.
\<close>

inductive cache_step :: "event \<Rightarrow> answer \<Rightarrow> outputs \<Rightarrow> outputs \<Rightarrow> bool" where
  hit: "m (hex_encode (rq_actionID q)) = Some (out, len, body) \<Longrightarrow>
    cache_step (Get_req ctx shared q) (Served out len body) m m"
| fetched: "m a = None \<Longrightarrow> a = hex_encode (rq_actionID q) \<Longrightarrow>
    cache_step (Get_req ctx shared q) (Served out len body) m (m(a \<mapsto> (out, len, body)))"
| missed: "m (hex_encode (rq_actionID q)) = None \<Longrightarrow> cache_step (Get_req ctx shared q) Missed m m"
| passed_on: "m (hex_encode (rq_actionID q)) = None \<Longrightarrow>
    cache_step (Get_req ctx (Some orig) q) (Served out len body) m m"
| stored: "cache_step (Put_req q) Stored m (m(hex_encode (rq_actionID q) \<mapsto> (rq_outputID q, rq_bodySize q, rq_body q)))"
| refused: "a = hex_encode (rq_actionID q) \<Longrightarrow> v = None \<or> v = m a \<Longrightarrow> cache_step (Put_req q) Refused m (m(a := v))"
| uploaded: "cache_step (Finish i) Uploaded m m"

inductive_cases cache_step_get: "cache_step (Get_req ctx shared q) r m m'"
inductive_cases cache_step_put: "cache_step (Put_req q) r m m'"

subsection \<open>The process as a cache\<close>

definition outputs_of :: "disk_cache \<times> sys \<Rightarrow> outputs" where
  "outputs_of ds a =
     (if \<not> key_ok a then None
      else case peek ds a of
        None \<Rightarrow> None
      | Some (m, p) \<Rightarrow>
         (case (hex_decode (m_outputIDHex m), sys_files (snd ds) p) of
            (Inr out, Some f) \<Rightarrow> Some (out, m_size m, f_data f)
          | _ \<Rightarrow> None))"

text \<open>The answer as the client sees it, who reads the file that the response names.\<close>

definition get_answer :: "response \<Rightarrow> 'v node \<Rightarrow> answer" where
  "get_answer r n =
     (if rs_miss r then Missed
      else Served (rs_outputID r) (rs_size r)
        (case sys_files (n_sys n) (rs_diskPath r) of None \<Rightarrow> [] | Some f \<Rightarrow> f_data f))"

fun node_act :: "'v handler \<Rightarrow> event \<Rightarrow> 'v node \<Rightarrow> (answer \<times> 'v node) option" where
  "node_act h (Get_req ctx shared q) n =
     map_option (\<lambda>(r, n'). (get_answer r n', n')) (handle_get h ctx shared q n)"
| "node_act h (Put_req q) n =
     map_option (\<lambda>(r, n'). (if rs_err r = [] then Stored else Refused, n')) (handle_put h q n)"
| "node_act h (Finish i) n = Some (Uploaded, run_task h i n)"

subsection \<open>What the operations do to the outputs\<close>

lemma outputs_cong:
  assumes "peek ds' k = peek ds k" and "\<And>m p. peek ds k = Some (m, p) \<Longrightarrow> sys_files (snd ds') p = sys_files (snd ds) p"
  shows "outputs_of ds' k = outputs_of ds k"
  using assms by (auto simp: outputs_of_def split: option.split sum.split)

lemma outputs_others:
  assumes "others dir a n n'" and "node_ok dir n"
  shows "outputs_of (n_disk n') = (outputs_of (n_disk n))(a := outputs_of (n_disk n') a)"
proof (rule ext)
  fix k
  show "outputs_of (n_disk n') k = ((outputs_of (n_disk n))(a := outputs_of (n_disk n') a)) k"
  proof (cases "k = a \<or> \<not> key_ok k")
    case False
    have dc: "dc_ok (n_cache n)" "dc_dir (n_cache n) = dir"
      using assms(2) by (simp_all add: node_ok_def disk_inv_def)
    have "outputs_of (n_disk n') k = outputs_of (n_disk n) k"
      using False assms(1) peek_path(1) [OF dc(1)] dc(2) by (intro outputs_cong) (auto simp: others_def)
    with False show ?thesis by simp
  qed (auto simp: outputs_of_def)
qed

lemma outputs_quiet:
  assumes "quiet n n'" and "node_ok dir n"
  shows "outputs_of (n_disk n') = outputs_of (n_disk n)"
proof
  fix k
  have "outputs_of (n_disk n') k = ((outputs_of (n_disk n))(CHR ''x'' # k := outputs_of (n_disk n') (CHR ''x'' # k))) k"
    using outputs_others [OF quiet_others [OF assms] assms(2), of "CHR ''x'' # k"] by metis
  then show "outputs_of (n_disk n') k = outputs_of (n_disk n) k" by (simp add: fun_upd_def)
qed

lemma outputs_served:
  assumes "node_ok dir n" and "key_ok a" and "serves n a r" and "\<not> rs_miss r"
  shows "\<exists>body. outputs_of (n_disk n) a = Some (rs_outputID r, rs_size r, body)
    \<and> get_answer r n = Served (rs_outputID r) (rs_size r) body"
proof -
  obtain m where m: "peek (n_disk n) a = Some (m, rs_diskPath r)" "hex_decode (m_outputIDHex m) = Inr (rs_outputID r)"
    "rs_size r = m_size m" using assms(3) by (auto simp: serves_def)
  moreover obtain f where "sys_files (n_sys n) (rs_diskPath r) = Some f"
    using assms(1, 2) m(1) by (fastforce simp: node_ok_def intact_def)
  ultimately show ?thesis using assms(2, 4) by (simp add: outputs_of_def get_answer_def)
qed

lemma outputs_hit:
  assumes "node_ok dir n" and "rq_actionID q \<noteq> []" and "handle_get h ctx shared q n = Some (r, n')"
    and "outputs_of (n_disk n) (hex_encode (rq_actionID q)) = Some (out, len, body)"
  shows "get_answer r n' = Served out len body \<and> outputs_of (n_disk n') = outputs_of (n_disk n)"
proof -
  let ?a = "hex_encode (rq_actionID q)"
  obtain m p f where m: "peek (n_disk n) ?a = Some (m, p)" "hex_decode (m_outputIDHex m) = Inr out" "len = m_size m"
    "sys_files (n_sys n) p = Some f" "body = f_data f"
    using assms(4) by (auto simp: outputs_of_def split: if_splits option.splits sum.splits)
  have "r = hit_response q out (m_size m) p (m_time m)" "\<forall>k. peek (n_disk n') k = peek (n_disk n) k"
    "sys_files (n_sys n') = sys_files (n_sys n)"
    using handle_get_hit [OF assms(1, 2) m(1, 2), of h ctx shared] assms(3) by auto
  then show ?thesis using m by (auto simp: get_answer_def hit_response_def zero_response_def intro!: outputs_cong)
qed

text \<open>A put that is refused may have lost the output that was there, but has not put another one in its place.\<close>

lemma install_refused:
  assumes "on_cache (install a tmp m) n = Some (Inl e, n')" and "node_ok dir n" and "key_ok a"
  shows "outputs_of (n_disk n') a = None \<or> outputs_of (n_disk n') a = outputs_of (n_disk n) a"
proof -
  obtain dc s where i: "install a tmp m (n_cache n) (n_sys n) = Some (Inl e, dc, s)"
    and n': "n' = n\<lparr>n_cache := dc, n_world := (n_world n)\<lparr>w_sys := s\<rparr>\<rparr>"
    using assms(1) by (auto simp: on_cache_eq)
  have ok: "no_faults (n_sys n)" "dc_ok (n_cache n)" "dc_dir (n_cache n) = dir"
    using assms(2) by (simp_all add: node_ok_def disk_inv_def)
  obtain bp mp where p: "body_path (dc_dir (n_cache n)) a = Some bp" "metadata_path (dc_dir (n_cache n)) a = Some mp"
    using key_paths [OF assms(3)] by blast
  have dc: "dc = n_cache n" using install_index(6) [OF i] by simp
  have path: "q = bp" if "peek (n_cache n, t) a = Some (k, q)" for t k q
    using peek_path(1) [OF ok(2) that] p(1) by simp
  show ?thesis
    using install_failed_view [OF i ok(1) assms(3) p]
  proof
    assume "\<not> on_disk s bp"
    then have "peek (n_cache n, s) a = None"
      using path [of s] peek_path(2) [OF ok(2), of s a] by (cases "peek (n_cache n, s) a") auto
    then show ?thesis by (simp add: n' dc outputs_of_def)
  next
    assume same: "on_disk s bp = on_disk (n_sys n) bp \<and> sys_files s bp = sys_files (n_sys n) bp
      \<and> disk_meta s mp = disk_meta (n_sys n) mp"
    have "peek (n_cache n, s) a = peek (n_cache n, n_sys n) a"
    proof (rule peek_cong)
      fix k q assume "cached_meta a (n_cache n) = Some (k, q)" "q \<noteq> []"
      then have "q = bp" using dc_ok_entry [OF ok(2)] p(1) by (fastforce simp: cached_meta_def split: option.splits)
      then show "on_disk s q = on_disk (n_sys n) q" using same by simp
    qed (use same p in auto)
    then show ?thesis using same path by (simp add: n' dc) (metis outputs_cong snd_conv)
  qed
qed

lemma remove_peek:
  assumes "node_ok dir n" and "key_ok a" and "update_cache (remove_entry a) n = Some n'"
  shows "peek (n_disk n') a = None"
proof -
  obtain bp mp where p: "body_path (dc_dir (n_cache n)) a = Some bp" "metadata_path (dc_dir (n_cache n)) a = Some mp"
    using key_paths [OF assms(2)] by blast
  obtain dc s where r: "remove_entry a (n_cache n) (n_sys n) = Some (dc, s)"
    and n': "n' = n\<lparr>n_cache := dc, n_world := (n_world n)\<lparr>w_sys := s\<rparr>\<rparr>"
    using assms(3) by (auto simp: update_cache_def split: option.splits)
  have "dc_entries dc a = None" "dc_dir dc = dc_dir (n_cache n)" and s: "s = remove mp (remove bp (n_sys n))"
    using r p by (auto simp: remove_entry_def Let_def split: option.splits)
  moreover have "sys_files s mp = None"
    using assms(1) by (simp add: s remove_def node_ok_def disk_inv_def)
  ultimately show ?thesis using p by (simp add: n' peek_def cached_meta_def disk_meta_def)
qed

subsection \<open>A get that misses stores nothing\<close>

abbreviation blank :: "'v node \<Rightarrow> string \<Rightarrow> bool" where
  "blank n a \<equiv> outputs_of (n_disk n) a = None"

lemma blank_frame [simp]: "blank (n\<lparr>n_synthetic := cache\<rparr>) a \<longleftrightarrow> blank n a"
  by simp

lemma download_blank:
  assumes "download_and_install c a d m n = Some (Inl e, n')" and "node_ok dir n" and "key_ok a" and "blank n a"
  shows "blank n' a"
  using assms(1)
proof (cases rule: download_and_install_cases)
  case (failed e)
  with outputs_quiet [OF _ assms(2)] assms(4) show ?thesis by metis
next
  case (installed tmp n1 f)
  with install_refused [OF installed(6) quiet_node_ok [OF installed(1) assms(2)] assms(3)]
    outputs_quiet [OF installed(1) assms(2)] assms(4) show ?thesis by metis
qed

lemma refill_blank:
  assumes "refill_from_cas c req a m n = Some (None, n')" and "node_ok dir n" and "key_ok a" and "blank n a"
  shows "blank n' a"
proof -
  let ?d = "\<lparr>d_hash = m_casHash m, d_size = m_casSize m\<rparr>"
  obtain r where dl: "download_and_install c a ?d m n = Some (r, n')"
    and r: "\<And>p. r = Inr p \<Longrightarrow> \<exists>e. hex_decode (m_outputIDHex m) = Inl e"
    using assms(1) by (auto simp: refill_from_cas_def split: option.splits sum.splits)
  show ?thesis
  proof (cases r)
    case (Inl e)
    with download_blank dl assms(2-4) show ?thesis by metis
  next
    case (Inr p)
    then have "peek (n_disk n') a = Some (m, p)" using download_node [OF assms(2, 3) _ _ dl] by simp
    with r [OF Inr] show ?thesis by (auto simp: outputs_of_def)
  qed
qed

lemma remote_blank:
  assumes "remote_ac_lookup h c ctx req a n = Some (r, n')" and "node_ok dir n" and "key_ok a" and "blank n a"
    and "rs_miss r"
  shows "blank n' a"
proof -
  obtain x cache where comp: "compute_synthetic_digests (h_marshal h) (h_dir h) a (n_synthetic n) = (x, cache)"
    by fastforce
  let ?n = "n\<lparr>n_synthetic := cache\<rparr>"
  have ok0: "node_ok dir ?n" and b0: "blank ?n a" using assms(2, 4) by simp_all
  show ?thesis
  proof (cases x)
    case (Inl e)
    with assms(1) comp b0 show ?thesis by (auto simp: remote_ac_lookup_def)
  next
    case (Inr sd)
    obtain y n1 where get: "on_world (get_action_result c ctx (sd_actionDigest sd)) ?n = (y, n1)" by fastforce
    have q: "quiet ?n n1" by (rule on_world_node [OF get retried_quiet(3)])
    have ok1: "node_ok dir n1" and b1: "blank n1 a"
      using quiet_node_ok [OF q ok0] outputs_quiet [OF q ok0] b0 by simp_all
    obtain t n2 where t: "on_sys now n1 = (t, n2)" by (cases "on_sys now n1")
    have q2: "quiet n1 n2" by (rule on_sys_quiet [OF t]) (rule quiet_sys_calls)
    have ok2: "node_ok dir n2" and b2: "blank n2 a"
      using quiet_node_ok [OF q2 ok1] outputs_quiet [OF q2 ok1] b1 by simp_all
    show ?thesis
      using assms(1, 5) comp Inr get t b1 download_blank [OF _ ok2 assms(3) b2]
      by (auto simp: remote_ac_lookup_def Let_def hit_response_def zero_response_def
          split: sum.splits option.splits list.splits prod.splits)
  qed
qed

lemma lookup_remote_blank:
  assumes "lookup_remote h ctx shared req a n = Some (r, n')" and "node_ok dir n" and "key_ok a" and "blank n a"
  shows "(rs_miss r \<or> shared \<noteq> None) \<and> blank n' a \<or> \<not> rs_miss r \<and> serves n' a r"
proof (cases "h_client h")
  case None
  with assms show ?thesis by (auto simp: lookup_remote_def)
next
  case (Some c)
  show ?thesis
  proof (cases shared)
    case None
    with assms(1) Some obtain orig where l: "remote_ac_lookup h c ctx req a n = Some (orig, n')" "r = copy_response req orig"
      by (auto simp: lookup_remote_def split: option.splits)
    show ?thesis
    proof (cases "rs_miss r")
      case True
      with l remote_blank [OF l(1) assms(2-4)] show ?thesis by (simp add: copy_response_def)
    next
      case False
      with lookup_remote_node [OF assms(2, 3), of h ctx req "(r, n')"] assms(1) None show ?thesis
        by (simp add: get_outcome_def)
    qed
  next
    case some: (Some orig)
    with assms Some show ?thesis by (simp add: lookup_remote_def)
  qed
qed

lemma get_blank:
  assumes "handle_get h ctx shared q n = Some (r, n')" and "node_ok dir n" and "rq_actionID q \<noteq> []"
    and "a = hex_encode (rq_actionID q)" and "blank n a"
  shows "(rs_miss r \<or> shared \<noteq> None) \<and> blank n' a \<or> \<not> rs_miss r \<and> serves n' a r"
proof -
  have key: "key_ok a" using key_ok_action [OF assms(3)] assms(4) by simp
  obtain meta bp hit n1 where l: "on_cache (lookup a) n = Some ((meta, bp, hit), n1)"
    using assms(1, 4) by (cases "on_cache (lookup a) n") (auto simp: handle_get_def Let_def)
  note lk = lookup_node [OF assms(2) key l]
  have ok1: "node_ok dir n1" using lk(1) .
  have b1: "blank n1 a" using assms(5) outputs_cong [of "n_disk n1" a "n_disk n"] lk(2, 3) by simp
  note last = lookup_remote_blank [of h ctx shared q a _ r n']
  show ?thesis
  proof (cases hit)
    case True
    obtain m p where pk: "peek (n_disk n) a = Some (m, p)" using lk(5) True by fastforce
    then have m: "meta = Some m" using lk(4) by blast
    obtain f where "sys_files (n_sys n) p = Some f" using assms(2) key pk by (fastforce simp: node_ok_def intact_def)
    then obtain e where "hex_decode (m_outputIDHex m) = Inl e"
      using assms(5) key pk by (auto simp: outputs_of_def split: sum.splits)
    with assms(1, 4) l m True obtain n2 where rm: "update_cache (remove_entry a) n1 = Some n2"
      and rn: "r = miss_response q" "n' = n2"
      by (auto simp: handle_get_def Let_def)
    have "peek (n_disk n2) a = None" using remove_peek [OF ok1 key rm] .
    with rn show ?thesis by (simp add: outputs_of_def miss_response_def)
  next
    case False
    show ?thesis
    proof (cases "meta = None \<or> h_client h = None")
      case True
      with assms(1, 4) l False have "lookup_remote h ctx shared q a n1 = Some (r, n')"
        by (cases meta) (auto simp: handle_get_def Let_def)
      from last [OF this ok1 key b1] show ?thesis .
    next
      case some: False
      then obtain m c where mc: "meta = Some m" "h_client h = Some c" by auto
      then obtain x n2 where rf: "refill_from_cas c q a m n1 = Some (x, n2)"
        using assms(1, 4) l False
        by (cases "refill_from_cas c q a m n1") (auto simp: handle_get_def Let_def)
      note ref = refill_node [OF ok1 key rf]
      show ?thesis
      proof (cases x)
        case (Some resp)
        then have "r = resp" "n' = n2" using assms(1, 4) l False mc rf by (simp_all add: handle_get_def Let_def)
        moreover have "\<not> rs_miss resp"
          using rf Some by (auto simp: refill_from_cas_def hit_response_def zero_response_def split: option.splits sum.splits)
        ultimately show ?thesis using ref Some by (simp add: get_outcome_def)
      next
        case None
        with assms(1, 4) l False mc rf have "lookup_remote h ctx shared q a n2 = Some (r, n')"
          by (simp add: handle_get_def Let_def)
        from last [OF this _ key refill_blank [OF rf [unfolded None] ok1 key b1]] ref show ?thesis by blast
      qed
    qed
  qed
qed

lemma outputs_get:
  assumes "node_ok dir n" and "rq_actionID q \<noteq> []" and "handle_get h ctx shared q n = Some (r, n')"
  shows "cache_step (Get_req ctx shared q) (get_answer r n') (outputs_of (n_disk n)) (outputs_of (n_disk n'))"
proof (cases "outputs_of (n_disk n) (hex_encode (rq_actionID q))")
  case (Some x)
  then show ?thesis using outputs_hit [OF assms] by (cases x) (auto intro: cache_step.hit)
next
  case none: None
  let ?a = "hex_encode (rq_actionID q)"
  note res = handle_get_node [OF assms]
  have ok: "node_ok dir n'" using res by (simp add: get_result_def)
  have oth: "outputs_of (n_disk n') = (outputs_of (n_disk n))(?a := outputs_of (n_disk n') ?a)"
    using res assms(1) by (intro outputs_others) (simp_all add: get_result_def)
  have same: "outputs_of (n_disk n') = outputs_of (n_disk n)" if "blank n' ?a"
    using oth that none by (metis fun_upd_triv)
  from get_blank [OF assms(3, 1, 2) refl none] consider "rs_miss r" "blank n' ?a"
    | orig where "\<not> rs_miss r" "shared = Some orig" "blank n' ?a" | "\<not> rs_miss r" "serves n' ?a r" by auto
  then show ?thesis
  proof cases
    case 1
    then show ?thesis using same none by (simp add: get_answer_def cache_step.missed)
  next
    case 2
    then show ?thesis using same none by (simp add: get_answer_def cache_step.passed_on)
  next
    case 3
    then obtain body where "outputs_of (n_disk n') ?a = Some (rs_outputID r, rs_size r, body)"
      "get_answer r n' = Served (rs_outputID r) (rs_size r) body"
      using outputs_served [OF ok key_ok_action [OF assms(2)]] by blast
    with none show ?thesis by (subst oth) (simp add: cache_step.fetched)
  qed
qed

lemma outputs_put:
  assumes "node_ok dir n" and "rq_actionID q \<noteq> []" and "handle_put h q n = Some (r, n')"
  shows "cache_step (Put_req q) (if rs_err r = [] then Stored else Refused) (outputs_of (n_disk n)) (outputs_of (n_disk n'))"
proof -
  let ?a = "hex_encode (rq_actionID q)"
  note key = key_ok_action [OF assms(2)] and res = handle_put_node [OF assms]
  have oth: "outputs_of (n_disk n') = (outputs_of (n_disk n))(?a := outputs_of (n_disk n') ?a)"
    using res assms(1) by (intro outputs_others) simp_all
  show ?thesis
  proof (cases "rs_err r = []")
    case True
    then have "outputs_of (n_disk n') ?a = Some (rq_outputID q, rq_bodySize q, rq_body q)"
      using res key by (auto simp: holds_body_def outputs_of_def)
    with True show ?thesis by (subst oth) (simp add: cache_step.stored)
  next
    case False
    have "outputs_of (n_disk n') ?a = None \<or> outputs_of (n_disk n') ?a = outputs_of (n_disk n) ?a"
    proof (cases "0 < h_maxArtifactSize h \<and> h_maxArtifactSize h < rq_bodySize q")
      case True
      with assms(3) show ?thesis by (auto simp: handle_put_def)
    next
      case small: False
      obtain x n1 where w: "write_body_to_temp (rq_body q) n = (x, n1)" by (cases "write_body_to_temp (rq_body q) n")
      from w assms(1) show ?thesis
      proof (cases rule: write_body_cases)
        case (failed e)
        then show ?thesis using assms w small outputs_quiet [of n n1] by (auto simp: handle_put_def Let_def)
      next
        case (written tmp f)
        obtain t n2 where t: "on_sys now n1 = (t, n2)" by (cases "on_sys now n1")
        have q: "quiet n n2" using written(2) on_sys_quiet [OF t quiet_sys_calls(1)] by (rule quiet_trans)
        obtain m e where "on_cache (install ?a tmp m) n2 = Some (Inl e, n')"
          using assms(3) w written(1) t small False
          by (auto simp: handle_put_def Let_def zero_response_def split: option.splits sum.splits if_splits)
        from install_refused [OF this quiet_node_ok [OF q assms(1)] key] show ?thesis
          using outputs_quiet [OF q assms(1)] by simp
      qed
    qed
    with False show ?thesis by (subst oth) (simp add: cache_step.refused)
  qed
qed

lemma outputs_task:
  assumes "node_ok dir n"
  shows "outputs_of (n_disk (run_task h i n)) = outputs_of (n_disk n)"
proof (cases "h_client h = None \<or> length (n_tasks n) \<le> i")
  case True
  then show ?thesis by (auto simp: run_task_def split: option.splits)
next
  case False
  then obtain c where c: "h_client h = Some c" "i < length (n_tasks n)" by auto
  let ?n = "n\<lparr>n_tasks := take i (n_tasks n) @ drop (Suc i) (n_tasks n)\<rparr>" and ?t = "n_tasks n ! i"
  obtain x cache where comp: "compute_synthetic_digests (h_marshal h) (h_dir h) (pp_actionIDHex ?t) (n_synthetic n)
      = (x, cache)" by fastforce
  show ?thesis
  proof (cases x)
    case (Inr sd)
    obtain r n' where pop: "on_world (populate_world c (pp_outputIDHex ?t) (pp_body ?t) (pp_digest ?t) sd)
        (?n\<lparr>n_synthetic := cache\<rparr>) = (r, n')" by fastforce
    have "outputs_of (n_disk n') = outputs_of (n_disk (?n\<lparr>n_synthetic := cache\<rparr>))"
      by (rule outputs_quiet [OF on_world_node [OF pop populate_world_quiet]]) (use assms in simp)
    with c comp Inr pop show ?thesis by (simp add: run_task_def remote_populate_def)
  qed (use c comp in \<open>simp add: run_task_def remote_populate_def\<close>)
qed

interpretation process: simulation "node_ok dir" event_ok "\<lambda>n. outputs_of (n_disk n)" "node_act h" cache_step
proof unfold_locales
  fix n :: "'a node" and e :: event
  assume a: "node_ok dir n" "event_ok e"
  show "node_act h e n \<noteq> None"
    using a handle_get_total [OF a(1)] handle_put_total by (cases e) auto
  fix r n'
  assume act: "node_act h e n = Some (r, n')"
  show "node_ok dir n'"
    using node_step_ok [OF a, of h] act by (cases e) (auto simp: map_option_eq_Some)
  show "cache_step e r (outputs_of (n_disk n)) (outputs_of (n_disk n'))"
    using a act outputs_get [OF a(1)] outputs_put [OF a(1)] outputs_task [OF a(1)] cache_step.uploaded
    by (cases e) (auto simp: map_option_eq_Some)
qed

text \<open>
  C3: a process is a cache. From a sound node, any sequence of gets, puts and uploads runs to its end,
  whatever the remote cache does, and its answers are ones that the abstract cache allows: starting
  from the outputs that the directory holds and ending with those that it holds then, a hit is the
  output that is there, a put that is stored replaces it, and no other output changes.
\<close>

theorem process_refines_cache:
  assumes "node_ok dir n" and "list_all event_ok es"
  shows "\<exists>rs n'. trace (node_act h) es n = Some (rs, n') \<and> node_ok dir n'
    \<and> allows cache_step es rs (outputs_of (n_disk n)) (outputs_of (n_disk n'))"
  by (rule process.refines [OF assms])

theorem process_refines_cache_witness:
  "\<exists>rs n'. trace (node_act local_handler) [Put_req put_ab12, Get_req None None get_ab12] local_node = Some (rs, n')
     \<and> allows cache_step [Put_req put_ab12, Get_req None None get_ab12] rs (outputs_of (n_disk local_node)) (outputs_of (n_disk n'))"
  using process_refines_cache [OF local_node_ok, of "[Put_req put_ab12, Get_req None None get_ab12]" local_handler]
  by (auto simp: put_ab12_def get_ab12_def)

end
