(* ===== verification/Duration.thy ===== *)
theory Duration
  imports Float64 Text Timestamp Json
begin

text \<open>
  Durations as the configuration writes and reads them: \<open>time.ParseDuration\<close> and
  \<open>Duration.String\<close> of the standard library, and the type \<open>Duration\<close> of
  \<open>internal/config/config.go\<close> with its \<open>MarshalJSON\<close> and \<open>UnmarshalJSON\<close>.
\<close>

subsection \<open>\<open>time.ParseDuration\<close>\<close>

text \<open>The units in nanoseconds; the micro sign is U+00B5 or U+03BC.\<close>

definition unit_map :: "(string \<times> nat) list" where
  "unit_map =
     [(''ns'', 1), (''us'', 1000), ([CHR 0xC2, CHR 0xB5, CHR ''s''], 1000),
      ([CHR 0xCE, CHR 0xBC, CHR ''s''], 1000), (''ms'', 1000000), (''s'', 1000000000),
      (''m'', 60000000000), (''h'', 3600000000000)]"

text \<open>
  The digits before the point, an error beyond \<open>2 ^ 63\<close>; and those after it, of which only as many
  count as fit, with the power of ten they are divided by (a double).
\<close>

definition digit :: "char \<Rightarrow> nat" where
  "digit c = code_of c - 0x30"

fun leading_int :: "nat \<Rightarrow> string \<Rightarrow> (nat \<times> string) option" where
  "leading_int x [] = Some (x, [])"
| "leading_int x (c # s) =
     (if \<not> is_digit c then Some (x, c # s)
      else if 2 ^ 63 div 10 < x then None
      else (let y = 10 * x + digit c in if 2 ^ 63 < y then None else leading_int y s))"

fun leading_fraction :: "nat \<Rightarrow> nat \<Rightarrow> bool \<Rightarrow> string \<Rightarrow> nat \<times> nat \<times> string" where
  "leading_fraction x scale overflow [] = (x, scale, [])"
| "leading_fraction x scale overflow (c # s) =
     (if \<not> is_digit c then (x, scale, c # s)
      else if overflow \<or> (2 ^ 63 - 1) div 10 < x then leading_fraction x scale True s
      else (let y = 10 * x + digit c in
        if 2 ^ 63 < y then leading_fraction x scale True s
        else leading_fraction y (round53 (10 * scale)) False s))"

text \<open>\<open>uint64(float64(f) * (float64(unit) / scale))\<close>.\<close>

definition fraction_value :: "nat \<Rightarrow> nat \<Rightarrow> nat \<Rightarrow> nat" where
  "fraction_value f unit scale =
     (case round_ratio unit scale of (a, b) \<Rightarrow> case round_ratio (round53 f * a) b of (c, d) \<Rightarrow> c div d)"

definition unit_char :: "char \<Rightarrow> bool" where
  "unit_char c \<longleftrightarrow> c \<noteq> CHR ''.'' \<and> \<not> is_digit c"

text \<open>What follows a point, and whether it has digits.\<close>

definition leading_point :: "string \<Rightarrow> nat \<times> nat \<times> string \<times> bool" where
  "leading_point s =
     (if take 1 s = ''.''
      then (case leading_fraction 0 1 False (tl s) of (f, scale, r) \<Rightarrow> (f, scale, r, length r \<noteq> length (tl s)))
      else (0, 1, s, False))"

text \<open>One number and its unit; \<open>None\<close> for each of the errors.\<close>

definition parse_part :: "string \<Rightarrow> (nat \<times> string) option" where
  "parse_part s =
     (if s = [] \<or> unit_char (hd s) then None
      else case leading_int 0 s of
        None \<Rightarrow> None
      | Some (v, s1) \<Rightarrow>
          (case leading_point s1 of (f, scale, s2, post) \<Rightarrow>
             if length s1 = length s \<and> \<not> post then None
             else if takeWhile unit_char s2 = [] then None
             else case map_of unit_map (takeWhile unit_char s2) of
               None \<Rightarrow> None
             | Some unit \<Rightarrow>
                 if 2 ^ 63 div unit < v then None
                 else (let w = v * unit + (if 0 < f then fraction_value f unit scale else 0) in
                   if 2 ^ 63 < w then None else Some (w, dropWhile unit_char s2))))"

lemma leading_int_length: "leading_int x s = Some (v, r) \<Longrightarrow> length r \<le> length s"
  by (induction x s rule: leading_int.induct) (auto simp: Let_def split: if_splits)

lemma leading_fraction_length: "leading_fraction x sc b s = (v, sc', r) \<Longrightarrow> length r \<le> length s"
  by (induction x sc b s rule: leading_fraction.induct) (auto simp: Let_def split: if_splits)

lemma dropWhile_shorter: "takeWhile P s \<noteq> [] \<Longrightarrow> length (dropWhile P s) < length s"
  by (cases s) (auto simp: less_Suc_eq_le length_dropWhile_le split: if_splits)

lemma leading_point_length: "leading_point s = (f, sc, r, post) \<Longrightarrow> length r \<le> length s"
  using leading_fraction_length [of 0 1 False "tl s"]
  by (fastforce simp: leading_point_def split: if_splits prod.splits)

lemma parse_part_length: "parse_part s = Some (w, r) \<Longrightarrow> length r < length s"
  by (fastforce simp: parse_part_def Let_def split: if_splits option.splits prod.splits
      dest: leading_int_length leading_point_length dropWhile_shorter)

text \<open>The sum of the parts, in \<open>uint64\<close>.\<close>

function parse_parts :: "nat \<Rightarrow> string \<Rightarrow> nat option" where
  "parse_parts d s =
     (if s = [] then Some d
      else case parse_part s of
        None \<Rightarrow> None
      | Some (v, r) \<Rightarrow> (let e = (d + v) mod 2 ^ 64 in if 2 ^ 63 < e then None else parse_parts e r))"
  by pat_completeness auto
termination
  by (relation "measure (\<lambda>(d, s). length s)") (auto dest: parse_part_length)

declare parse_parts.simps [simp del]

definition parse_duration :: "string \<Rightarrow> duration option" where
  "parse_duration s =
     (let neg = (take 1 s = ''-'');
          r = (if take 1 s = ''-'' \<or> take 1 s = ''+'' then tl s else s) in
      if r = ''0'' then Some 0
      else if r = [] then None
      else case parse_parts 0 r of
        None \<Rightarrow> None
      | Some d \<Rightarrow>
          if neg then Some (i64 (- int d))
          else if 2 ^ 63 - 1 < d then None else Some (int d))"

subsection \<open>\<open>Duration.String\<close>\<close>

text \<open>\<open>fmtFrac\<close>: the fraction of \<open>v / 10 ^ k\<close> without its trailing zeros.\<close>

definition fraction_text :: "nat \<Rightarrow> nat \<Rightarrow> string" where
  "fraction_text v k =
     (let f = v mod 10 ^ k in if f = 0 then [] else CHR ''.'' # strip_zeros (fixed_digits k (int f)))"

definition unsigned_duration :: "nat \<Rightarrow> string" where
  "unsigned_duration u =
     (if u = 0 then ''0s''
      else if u < 1000 then nat_digits u @ ''ns''
      else if u < 1000000 then nat_digits (u div 1000) @ fraction_text u 3 @ [CHR 0xC2, CHR 0xB5, CHR ''s'']
      else if u < 1000000000 then nat_digits (u div 1000000) @ fraction_text u 6 @ ''ms''
      else (let sec = u div 1000000000; mins = sec div 60; h = mins div 60 in
        (if mins = 0 then []
         else (if h = 0 then [] else nat_digits h @ ''h'') @ nat_digits (mins mod 60) @ ''m'')
        @ nat_digits (sec mod 60) @ fraction_text u 9 @ ''s''))"

definition duration_text :: "duration \<Rightarrow> string" where
  "duration_text d = (if d < 0 then CHR ''-'' # unsigned_duration (nat (- d)) else unsigned_duration (nat d))"

subsection \<open>The type \<open>Duration\<close>\<close>

text \<open>
  A JSON number as the nearest double, given as its sign, numerator and denominator
  (\<open>strconv.ParseFloat\<close>, which gives an error beyond the largest double and counts an exponent only
  up to five digits).
\<close>

fun exponent_value :: "nat \<Rightarrow> string \<Rightarrow> nat" where
  "exponent_value e [] = e"
| "exponent_value e (c # s) = exponent_value (if e < 10000 then 10 * e + digit c else e) s"

definition exponent_part :: "string \<Rightarrow> int" where
  "exponent_part s =
     (if s = [] then 0
      else if take 1 (tl s) = ''-'' then - int (exponent_value 0 (drop 2 s))
      else if take 1 (tl s) = ''+'' then int (exponent_value 0 (drop 2 s))
      else int (exponent_value 0 (tl s)))"

definition json_float :: "string \<Rightarrow> (bool \<times> nat \<times> nat) option" where
  "json_float t =
     (let neg = (take 1 t = ''-'');
          body = (if neg then tl t else t);
          (whole, r) = span is_digit body;
          (frac, e) = (if take 1 r = ''.'' then span is_digit (tl r) else ([], r));
          m = nat (digits_value 0 (whole @ frac));
          x = exponent_part e - int (length frac);
          (a, b) = (if m = 0 then (0, 1) else round_ratio (m * 10 ^ nat x) (10 ^ nat (- x)))
      in if 2 ^ 1024 * b \<le> a then None else Some (neg, a, b))"

text \<open>
  \<open>int64(val)\<close>. Go leaves open what the conversion of a value outside the range gives; the
  argument \<open>conv\<close> stands for it.
\<close>

definition float_to_int64 :: "(int \<Rightarrow> int) \<Rightarrow> bool \<times> nat \<times> nat \<Rightarrow> int" where
  "float_to_int64 conv x =
     (case x of (neg, a, b) \<Rightarrow>
        let v = (if neg then - int (a div b) else int (a div b)) in if in_i64 v then v else conv v)"

definition store_duration ::
  "(int \<Rightarrow> int) \<Rightarrow> (duration \<Rightarrow> 'r \<Rightarrow> 'r) \<Rightarrow> json \<Rightarrow> 'r \<Rightarrow> 'r option"
where
  "store_duration conv upd v r =
     (case v of
        JStr s \<Rightarrow> (case parse_duration s of None \<Rightarrow> None | Some d \<Rightarrow> Some (upd d r))
      | JNum t \<Rightarrow> (case json_float t of None \<Rightarrow> None | Some x \<Rightarrow> Some (upd (float_to_int64 conv x) r))
      | _ \<Rightarrow> None)"

definition marshal_duration :: "duration \<Rightarrow> string" where
  "marshal_duration d = json_print True (JStr (duration_text d))"

subsection \<open>A printed duration is read back\<close>

abbreviation number_ends :: "string \<Rightarrow> bool" where
  "number_ends r \<equiv> r = [] \<or> \<not> is_digit (hd r)"

lemma digits_value_ge: "0 \<le> n \<Longrightarrow> n \<le> digits_value n ds"
proof (induction n ds rule: digits_value.induct)
  case (2 n c cs)
  then show ?case by force
qed simp

lemma leading_int_digits:
  "list_all is_digit ds \<Longrightarrow> digits_value (int x) ds \<le> 2 ^ 63 \<Longrightarrow> number_ends r
    \<Longrightarrow> leading_int x (ds @ r) = Some (nat (digits_value (int x) ds), r)"
proof (induction ds arbitrary: x)
  case Nil
  then show ?case by (cases r) auto
next
  case (Cons c cs)
  define y where "y = 10 * x + digit c"
  have v: "digits_value (int x) (c # cs) = digits_value (int y) cs" by (simp add: y_def digit_def)
  then have "int y \<le> 2 ^ 63" using Cons.prems digits_value_ge [of "int y" cs] by simp
  then have "y \<le> 2 ^ 63" "x \<le> 2 ^ 63 div 10" by (simp_all add: y_def)
  then show ?case using Cons.IH [of y] Cons.prems v by (simp add: Let_def y_def [symmetric] not_less)
qed

lemma leading_fraction_digits:
  "list_all is_digit ds \<Longrightarrow> x < 10 ^ j \<Longrightarrow> j + length ds \<le> 9 \<Longrightarrow> number_ends r
    \<Longrightarrow> leading_fraction x (10 ^ j) False (ds @ r) = (nat (digits_value (int x) ds), 10 ^ (j + length ds), r)"
proof (induction ds arbitrary: x j)
  case Nil
  then show ?case by (cases r) auto
next
  case (Cons c cs)
  define y where "y = 10 * x + digit c"
  have "(10::nat) ^ Suc j \<le> 10 ^ 9" using Cons.prems by (intro power_increasing) simp_all
  moreover have "y < 10 ^ Suc j"
  proof -
    have "digit c < 10" using Cons.prems(1) by (auto simp: is_digit_def digit_def)
    moreover have "10 * x + 10 \<le> 10 * 10 ^ j" using Cons.prems(2) by simp
    ultimately show ?thesis unfolding y_def power_Suc by linarith
  qed
  moreover from calculation have "round53 (10 * 10 ^ j) = 10 ^ Suc j" by (simp add: round53_id)
  ultimately show ?case using Cons.IH [of y "Suc j"] Cons.prems
    by (simp add: Let_def y_def [symmetric]) (simp add: y_def digit_def)
qed

lemma fraction_digits:
  assumes "0 < f" and "f < 10 ^ k"
  obtains ds j where "strip_zeros (fixed_digits k (int f)) = ds" "list_all is_digit ds" "ds \<noteq> []"
    "length ds + j = k" "nat (digits_value 0 ds) * 10 ^ j = f"
proof -
  have "int f < 10 ^ k" using assms(2) by (metis of_nat_less_iff of_nat_numeral of_nat_power)
  then have fd: "list_all is_digit (fixed_digits k (int f))" "length (fixed_digits k (int f)) = k"
    "digits_value 0 (fixed_digits k (int f)) = int f"
    using fixed_digits_spec [of "int f" k] by (simp_all del: fixed_digits.simps)
  obtain j where j: "fixed_digits k (int f) = strip_zeros (fixed_digits k (int f)) @ replicate j (CHR ''0'')"
    using strip_zeros_pad by blast
  define ds where "ds = strip_zeros (fixed_digits k (int f))"
  have z: "digits_value n (replicate i (CHR ''0'')) = n * 10 ^ i" for n i
    by (induction i arbitrary: n) auto
  have split: "fixed_digits k (int f) = ds @ replicate j (CHR ''0'')" using j by (simp add: ds_def)
  have "list_all is_digit ds" using fd(1) split by simp
  moreover have "length ds + j = k" using fd(2) split by (metis length_append length_replicate)
  moreover have v: "digits_value 0 ds * 10 ^ j = int f" using fd(3) by (simp add: split digits_value_append z)
  moreover have "ds \<noteq> []" using v assms(1) by auto
  moreover have "nat (digits_value 0 ds) * 10 ^ j = f"
  proof -
    have "int (nat (digits_value 0 ds)) = digits_value 0 ds" using digits_value_ge [of 0 ds] by simp
    then have "int (nat (digits_value 0 ds) * 10 ^ j) = int f" using v by simp
    then show ?thesis by (simp only: of_nat_eq_iff)
  qed
  ultimately show ?thesis by (intro that [of ds j]) (simp_all only: ds_def [symmetric] simp_thms)
qed

text \<open>The fraction of a double that a printed fraction stands for is exact.\<close>

lemma fraction_value_exact:
  assumes "g < 10 ^ i" and "i + j \<le> 9"
  shows "fraction_value g (10 ^ (i + j)) (10 ^ i) = g * 10 ^ j"
proof -
  have le: "(10::nat) ^ m \<le> 10 ^ 9" if "m \<le> 9" for m using that by (intro power_increasing) simp_all
  have "(10::nat) ^ j < 2 ^ 53" using le [of j] assms(2) by simp
  then obtain t where t: "round_ratio (10 ^ j * 10 ^ i) (10 ^ i) = (10 ^ j * 2 ^ t, 2 ^ t)"
    using round_ratio_exact [of "10 ^ j" "10 ^ i"] by auto
  have "g * 10 ^ j < 10 ^ i * 10 ^ j" using assms(1) by simp
  also have "\<dots> \<le> 10 ^ 9" using le [of "i + j"] assms(2) by (simp add: power_add)
  finally have g: "g * 10 ^ j < 2 ^ 53" by simp
  have "g < 2 ^ 53" using assms(1) le [of i] assms(2) by simp
  then have "round53 g * (10 ^ j * 2 ^ t) = (g * 10 ^ j) * 2 ^ t" by (simp only: round53_id mult.assoc)
  then show ?thesis using t round_ratio_trunc [OF g, of "2 ^ t"]
    by (simp only: fraction_value_def power_add mult.commute [of "10 ^ i"] prod.case zero_less_power zero_less_numeral simp_thms)
qed

lemma nat_digits_head: "\<exists>c cs. nat_digits n @ r = c # cs \<and> is_digit c"
  using nat_digits_hd [of n] by (cases "nat_digits n") auto

lemma unit_text:
  assumes "list_all unit_char u" and "r = [] \<or> is_digit (hd r)"
  shows "takeWhile unit_char (u @ r) = u" and "dropWhile unit_char (u @ r) = r"
  using assms by (cases r; auto simp: list_all_iff takeWhile_append dropWhile_append unit_char_def)+

lemma leading_int_number:
  "int n \<le> 2 ^ 63 \<Longrightarrow> number_ends r \<Longrightarrow> leading_int 0 (nat_digits n @ r) = Some (n, r)"
  using leading_int_digits [of "nat_digits n" 0 r] nat_digits_parse [of n] by simp

lemma parse_part_number:
  assumes "number_ends q" and "leading_point q = (f, scale, u @ r, post)"
    and "map_of unit_map u = Some unit" and "list_all unit_char u" and "u \<noteq> []" and "0 < unit"
    and "n * unit + (if 0 < f then fraction_value f unit scale else 0) \<le> 2 ^ 63" and "r = [] \<or> is_digit (hd r)"
  shows "parse_part (nat_digits n @ q) = Some (n * unit + (if 0 < f then fraction_value f unit scale else 0), r)"
proof -
  have m: "n * unit \<le> 2 ^ 63" using assms(7) by (rule add_leD1)
  have "n \<le> n * unit" using assms(6) by simp
  then have "n \<le> 2 ^ 63" using m by (rule order_trans)
  then have "int n \<le> 2 ^ 63" by (metis of_nat_le_iff of_nat_numeral of_nat_power)
  then have i: "leading_int 0 (nat_digits n @ q) = Some (n, q)" using assms(1) by (rule leading_int_number)
  have h: "nat_digits n @ q \<noteq> []" "\<not> unit_char (hd (nat_digits n @ q))" "length q \<noteq> length (nat_digits n @ q)"
    using nat_digits_hd [of n] by (simp_all add: unit_char_def)
  have "\<not> 2 ^ 63 div unit < n" using m assms(6) by (simp add: not_less less_eq_div_iff_mult_less_eq)
  then show ?thesis using i h assms(2-5,7) unit_text [OF assms(4, 8)]
    by (simp add: parse_part_def Let_def not_less del: append_is_Nil_conv length_append)
qed

lemma parse_part_plain:
  assumes "map_of unit_map u = Some unit" and "list_all unit_char u" and "u \<noteq> []"
    and "n * unit \<le> 2 ^ 63" and "0 < unit" and "r = [] \<or> is_digit (hd r)"
  shows "parse_part (nat_digits n @ u @ r) = Some (n * unit, r)"
proof -
  have "number_ends (u @ r)" "leading_point (u @ r) = (0, 1, u @ r, False)"
    using assms(2, 3) by (cases u; simp add: leading_point_def unit_char_def)+
  then show ?thesis using parse_part_number [of "u @ r" 0 1 u r False unit n] assms by simp
qed

text \<open>A number with the fraction that \<open>fmtFrac\<close> prints.\<close>

lemma leading_point_fraction:
  assumes "k \<le> 9" and "v mod 10 ^ k \<noteq> 0" and "number_ends r"
  obtains g i j where "leading_point (fraction_text v k @ r) = (g, 10 ^ i, r, True)" "g < 10 ^ i" "i + j = k"
    "g * 10 ^ j = v mod 10 ^ k"
proof -
  have "0 < v mod 10 ^ k" "v mod 10 ^ k < 10 ^ k" using assms(2) by simp_all
  then obtain ds j where ds: "strip_zeros (fixed_digits k (int (v mod 10 ^ k))) = ds" "list_all is_digit ds" "ds \<noteq> []"
    "length ds + j = k" "nat (digits_value 0 ds) * 10 ^ j = v mod 10 ^ k"
    by (rule fraction_digits)
  then have "leading_fraction 0 1 False (ds @ r) = (nat (digits_value 0 ds), 10 ^ length ds, r)"
    using leading_fraction_digits [of ds 0 0 r] assms(1, 3) by simp
  then have "leading_point (fraction_text v k @ r) = (nat (digits_value 0 ds), 10 ^ length ds, r, True)"
    using ds assms(2) by (simp add: fraction_text_def leading_point_def Let_def)
  moreover have "nat (digits_value 0 ds) < 10 ^ length ds"
  proof -
    have "nat (digits_value 0 ds) * 10 ^ j < 10 ^ length ds * 10 ^ j" by (simp add: ds(5) ds(4) flip: power_add)
    then show ?thesis by simp
  qed
  ultimately show ?thesis using that ds(4, 5) by blast
qed

lemma parse_part_fraction:
  assumes "map_of unit_map u = Some (10 ^ k)" and "list_all unit_char u" and "u \<noteq> []" and "k \<le> 9"
    and "n * 10 ^ k + v mod 10 ^ k \<le> 2 ^ 63" and "r = [] \<or> is_digit (hd r)"
  shows "parse_part (nat_digits n @ fraction_text v k @ u @ r) = Some (n * 10 ^ k + v mod 10 ^ k, r)"
proof (cases "v mod 10 ^ k = 0")
  case True
  then show ?thesis using parse_part_plain [OF assms(1-3) _ _ assms(6), of n] assms(5) by (simp add: fraction_text_def)
next
  case False
  have u: "number_ends (u @ r)" using assms(2, 3) by (cases u) (auto simp: unit_char_def)
  obtain g i j where g: "leading_point (fraction_text v k @ u @ r) = (g, 10 ^ i, u @ r, True)" "g < 10 ^ i" "i + j = k"
    "g * 10 ^ j = v mod 10 ^ k"
    using leading_point_fraction [OF assms(4) False u] by blast
  have "number_ends (fraction_text v k @ u @ r)" using False by (simp add: fraction_text_def Let_def is_digit_def)
  moreover have "0 < g" using g(4) False by (cases g) auto
  moreover have "fraction_value g (10 ^ k) (10 ^ i) = v mod 10 ^ k"
    using fraction_value_exact [OF g(2), of j] g(3, 4) assms(4) by simp
  ultimately show ?thesis
    using parse_part_number [OF _ g(1) assms(1-3), of n] assms(5, 6) by simp
qed

lemma parse_parts_end: "parse_parts d [] = Some d"
  by (subst parse_parts.simps) simp

lemma parse_parts_step:
  "parse_part s = Some (v, r) \<Longrightarrow> d + v \<le> 2 ^ 63 \<Longrightarrow> parse_parts d s = parse_parts (d + v) r"
  by (subst parse_parts.simps) (auto simp: parse_part_def split: if_splits)

lemma map_unit [simp]:
  "map_of unit_map ''ns'' = Some 1" "map_of unit_map [CHR 0xC2, CHR 0xB5, CHR ''s''] = Some (10 ^ 3)"
  "map_of unit_map ''ms'' = Some (10 ^ 6)" "map_of unit_map ''s'' = Some (10 ^ 9)"
  "map_of unit_map ''m'' = Some 60000000000" "map_of unit_map ''h'' = Some 3600000000000"
  by (simp_all add: unit_map_def)

lemma unit_chars [simp]:
  "unit_char (CHR ''n'')" "unit_char (CHR ''s'')" "unit_char (CHR ''m'')" "unit_char (CHR ''h'')"
  "unit_char (CHR 0xC2)" "unit_char (CHR 0xB5)"
  by (simp_all add: unit_char_def is_digit_def)

lemma parse_seconds:
  assumes "d + (n * 10 ^ 9 + v mod 10 ^ 9) \<le> 2 ^ 63"
  shows "parse_parts d (nat_digits n @ fraction_text v 9 @ ''s'') = Some (d + (n * 10 ^ 9 + v mod 10 ^ 9))"
  using parse_parts_step [OF parse_part_fraction [of "''s''" 9 n v "[]"] assms] assms
  by (simp add: parse_parts_end)

lemma parse_small:
  assumes "map_of unit_map t = Some (10 ^ k)" and "list_all unit_char t" and "t \<noteq> []" and "k \<le> 9" and "u \<le> 2 ^ 63"
  shows "parse_parts 0 (nat_digits (u div 10 ^ k) @ fraction_text u k @ t) = Some u"
proof -
  have "u div 10 ^ k * 10 ^ k + u mod 10 ^ k = u" by (rule div_mult_mod_eq)
  then show ?thesis
    using parse_parts_step [OF parse_part_fraction [OF assms(1-4), of "u div 10 ^ k" u "[]"], of 0] assms(5)
    by (simp add: parse_parts_end)
qed

lemma clock_sum:
  "u = sec * 10 ^ 9 + r \<Longrightarrow> sec = mins * 60 + s \<Longrightarrow> mins = h * 60 + m
    \<Longrightarrow> h * 3600000000000 + m * 60000000000 + (s * 10 ^ 9 + r) = (u::nat)"
  by simp

lemma parse_unsigned:
  assumes "0 < u" and "u \<le> 2 ^ 63"
  shows "parse_parts 0 (unsigned_duration u) = Some u"
proof -
  define sec where "sec = u div 1000000000"
  define mins where "mins = sec div 60"
  define h where "h = mins div 60"
  have u: "u = sec * 10 ^ 9 + u mod 10 ^ 9" and sec: "sec = mins * 60 + sec mod 60" and mins: "mins = h * 60 + mins mod 60"
    by (simp_all add: sec_def mins_def h_def)
  have total: "h * 3600000000000 + mins mod 60 * 60000000000 + (sec mod 60 * 10 ^ 9 + u mod 10 ^ 9) = u"
    using u sec mins by (rule clock_sum)
  consider "u < 1000" | "1000 \<le> u" "u < 1000000" | "1000000 \<le> u" "u < 1000000000" | "1000000000 \<le> u" by linarith
  then show ?thesis
  proof cases
    case 1
    then show ?thesis
      using parse_parts_step [OF parse_part_plain [of "''ns''" 1 u "[]"], of 0] assms
      by (simp add: unsigned_duration_def parse_parts_end)
  next
    case 2
    then show ?thesis
      using parse_small [of "[CHR 0xC2, CHR 0xB5, CHR ''s'']" 3 u] assms by (simp add: unsigned_duration_def)
  next
    case 3
    then show ?thesis using parse_small [of "''ms''" 6 u] assms by (simp add: unsigned_duration_def)
  next
    case 4
    define low where "low = nat_digits (sec mod 60) @ fraction_text u 9 @ ''s''"
    have low: "parse_parts d low = Some (d + (sec mod 60 * 10 ^ 9 + u mod 10 ^ 9))"
      if "d + (sec mod 60 * 10 ^ 9 + u mod 10 ^ 9) \<le> 2 ^ 63" for d
      using parse_seconds [OF that] by (simp only: low_def)
    have digit: "low = [] \<or> is_digit (hd low)" by (simp add: low_def nat_digits_hd)
    have minutes: "parse_parts d (nat_digits (mins mod 60) @ ''m'' @ low)
        = Some (d + mins mod 60 * 60000000000 + (sec mod 60 * 10 ^ 9 + u mod 10 ^ 9))"
      if "d + mins mod 60 * 60000000000 + (sec mod 60 * 10 ^ 9 + u mod 10 ^ 9) \<le> 2 ^ 63" for d
    proof -
      have "d + mins mod 60 * 60000000000 \<le> 2 ^ 63" using that by (rule add_leD1)
      moreover have "mins mod 60 * 60000000000 \<le> 2 ^ 63" using calculation by (rule add_leD2)
      ultimately show ?thesis
        using parse_parts_step [OF parse_part_plain [of "''m''" _ "mins mod 60" low]] low [OF that] digit by simp
    qed
    have printed: "unsigned_duration u
        = (if mins = 0 then [] else (if h = 0 then [] else nat_digits h @ ''h'') @ nat_digits (mins mod 60) @ ''m'') @ low"
      using 4 by (simp add: unsigned_duration_def low_def sec_def mins_def h_def Let_def)
    show ?thesis
    proof (cases "h = 0")
      case True
      then show ?thesis using printed minutes [of 0] low [of 0] total assms(2) mins by (cases "mins = 0") auto
    next
      case False
      then have "mins \<noteq> 0" by (auto simp: h_def)
      moreover have hours: "h * 3600000000000 \<le> 2 ^ 63" using total assms(2) by linarith
      moreover have "parse_part (nat_digits h @ ''h'' @ nat_digits (mins mod 60) @ ''m'' @ low)
          = Some (h * 3600000000000, nat_digits (mins mod 60) @ ''m'' @ low)"
        using hours by (intro parse_part_plain) (simp_all add: nat_digits_hd)
      then have "parse_parts 0 (nat_digits h @ ''h'' @ nat_digits (mins mod 60) @ ''m'' @ low)
          = parse_parts (h * 3600000000000) (nat_digits (mins mod 60) @ ''m'' @ low)"
        using parse_parts_step [of _ "h * 3600000000000" _ 0] hours by (simp only: add_0)
      ultimately show ?thesis
        using minutes [of "h * 3600000000000"] total assms(2) printed False by simp
    qed
  qed
qed

lemma digits_head: "r \<noteq> [] \<Longrightarrow> \<exists>c d cs. nat_digits n @ r = c # d # cs \<and> is_digit c"
proof -
  assume r: "r \<noteq> []"
  obtain c cs where n: "nat_digits n = c # cs" "is_digit c" using nat_digits_hd [of n] by (cases "nat_digits n") auto
  obtain d ds where "cs @ r = d # ds" using r by (cases "cs @ r") auto
  with n show ?thesis by simp
qed

lemma unsigned_head: "0 < u \<Longrightarrow> \<exists>c d cs. unsigned_duration u = c # d # cs \<and> is_digit c"
proof -
  assume u: "0 < u"
  define mins where "mins = u div 1000000000 div 60"
  consider "u < 1000" | "1000 \<le> u" "u < 1000000" | "1000000 \<le> u" "u < 1000000000"
    | "1000000000 \<le> u" "mins = 0" | "1000000000 \<le> u" "mins \<noteq> 0" "mins div 60 = 0"
    | "1000000000 \<le> u" "mins \<noteq> 0" "mins div 60 \<noteq> 0" by linarith
  then obtain n r where "unsigned_duration u = nat_digits n @ r" "r \<noteq> []"
    by cases (use u in \<open>simp_all add: unsigned_duration_def Let_def mins_def\<close>)
  with digits_head [of r n] show ?thesis by simp
qed

lemma parse_duration_text:
  assumes "in_i64 d"
  shows "parse_duration (duration_text d) = Some d"
proof (cases "d = 0")
  case True
  have "nat_digits 0 = ''0''" by (simp add: nat_digits.simps) code_simp
  then have "parse_parts 0 ''0s'' = Some 0"
    using parse_parts_step [OF parse_part_plain [of "''s''" "10 ^ 9" 0 "[]"], of 0] by (simp add: parse_parts_end)
  with True show ?thesis by (simp add: duration_text_def unsigned_duration_def parse_duration_def)
next
  case False
  define u where "u = nat \<bar>d\<bar>"
  have u: "0 < u" "u \<le> 2 ^ 63" "d < 0 \<Longrightarrow> d = - int u" "0 \<le> d \<Longrightarrow> d = int u \<and> u < 2 ^ 63"
    using assms False by (auto simp: u_def in_i64_def)
  obtain c e cs where h: "unsigned_duration u = c # e # cs" "is_digit c" using unsigned_head [OF u(1)] by blast
  have c: "c \<noteq> CHR ''-''" "c \<noteq> CHR ''+''" using h(2) by (auto simp: is_digit_def)
  note parts = parse_unsigned [OF u(1, 2)]
  show ?thesis
  proof (cases "d < 0")
    case True
    then have "duration_text d = CHR ''-'' # unsigned_duration u" by (simp add: duration_text_def u_def)
    then show ?thesis using h(1) parts u(3) [OF True] assms i64_id [of d] by (simp add: parse_duration_def)
  next
    case False
    then have "duration_text d = unsigned_duration u" by (simp add: duration_text_def u_def)
    then show ?thesis using h(1) c parts u(4) False by (simp add: parse_duration_def)
  qed
qed

text \<open>The micro sign passes through the JSON encoder and decoder unchanged.\<close>

abbreviation micro :: string where
  "micro \<equiv> [CHR 0xC2, CHR 0xB5]"

lemma decode_micro: "decode_rune (CHR 0xC2 # CHR 0xB5 # s) = Some (0xB5, 2)"
  by (simp add: decode_rune_def is_cont_def)

lemma json_body_micro: "ascii a \<Longrightarrow> json_body h (a @ micro @ b) = json_body h a @ micro @ json_body h b"
  by (induction a) (simp_all add: decode_micro)

lemma json_chars_micro:
  "ascii a \<Longrightarrow> json_chars (json_body h a @ micro @ q) = map_option (\<lambda>(t, r). (a @ micro @ t, r)) (json_chars q)"
  by (cases "json_chars q"; induction a) (auto simp: json_chars_char decode_micro)

lemma json_chars_micro_body:
  "ascii a \<Longrightarrow> ascii b
    \<Longrightarrow> json_chars (json_body h (a @ micro @ b) @ CHR 0x22 # r) = Some (a @ micro @ b, r)"
  using json_chars_micro [of a h "json_body h b @ CHR 0x22 # r"] json_body_micro [of a h b]
  by (simp add: json_chars_body)

lemma json_parse_quote:
  "(\<And>r. json_chars (json_body h s @ CHR 0x22 # r) = Some (s, r)) \<Longrightarrow> json_parse (json_quote h s) = Some (JStr s)"
  by (simp add: json_parse_def json_quote_def after_ws_Cons is_ws_def skip_ws_def)

lemma ascii_nat_digits: "ascii (nat_digits n)"
  using nat_digits_parse [of n] by (auto simp: list_all_iff is_digit_def)

lemma ascii_fraction: "ascii (fraction_text v k)"
proof -
  have "ascii (strip_zeros (fixed_digits k n))" for n
    using all_ascii_strip [OF all_ascii_digits [of k n]] by (simp add: all_ascii_def list_all_iff)
  then show ?thesis by (simp add: fraction_text_def Let_def)
qed

lemma unsigned_duration_form:
  "ascii (unsigned_duration u) \<or> (\<exists>a b. ascii a \<and> ascii b \<and> unsigned_duration u = a @ micro @ b)"
proof (cases "1000 \<le> u \<and> u < 1000000")
  case True
  then have "unsigned_duration u = (nat_digits (u div 1000) @ fraction_text u 3) @ micro @ ''s''"
    by (simp add: unsigned_duration_def)
  moreover have "ascii (nat_digits (u div 1000) @ fraction_text u 3)"
    using ascii_nat_digits ascii_fraction by auto
  moreover have "ascii ''s''" by simp
  ultimately show ?thesis by blast
next
  case False
  have "ascii (unsigned_duration u)"
    using ascii_nat_digits ascii_fraction False by (auto simp: unsigned_duration_def Let_def split: if_splits)
  then show ?thesis by blast
qed

lemma duration_text_form:
  "ascii (duration_text d) \<or> (\<exists>a b. ascii a \<and> ascii b \<and> duration_text d = a @ micro @ b)"
proof -
  have minus: "ascii (CHR ''-'' # a) \<longleftrightarrow> ascii a" for a by simp
  show ?thesis
  proof (cases "d < 0")
    case True
    show ?thesis using unsigned_duration_form [of "nat (- d)"]
    proof
      assume "ascii (unsigned_duration (nat (- d)))"
      then show ?thesis using True by (simp add: duration_text_def)
    next
      assume "\<exists>a b. ascii a \<and> ascii b \<and> unsigned_duration (nat (- d)) = a @ micro @ b"
      then obtain a b where "ascii (CHR ''-'' # a)" "ascii b" "unsigned_duration (nat (- d)) = a @ micro @ b"
        by (simp only: minus) blast
      then have "duration_text d = (CHR ''-'' # a) @ micro @ b" using True by (simp add: duration_text_def)
      then show ?thesis using \<open>ascii (CHR ''-'' # a)\<close> \<open>ascii b\<close> by blast
    qed
  next
    case False
    then show ?thesis using unsigned_duration_form [of "nat d"] by (simp add: duration_text_def)
  qed
qed

lemma json_parse_duration: "json_parse (marshal_duration d) = Some (JStr (duration_text d))"
proof -
  have "json_chars (json_body True (duration_text d) @ CHR 0x22 # r) = Some (duration_text d, r)" for r
    using duration_text_form [of d]
  proof (elim disjE exE conjE)
    show "ascii (duration_text d) \<Longrightarrow> ?thesis" by (rule json_chars_body)
    show "ascii a \<Longrightarrow> ascii b \<Longrightarrow> duration_text d = a @ micro @ b \<Longrightarrow> ?thesis" for a b
      using json_chars_micro_body [of a b True r] by (simp only:)
  qed
  then show ?thesis unfolding marshal_duration_def json_print.simps by (rule json_parse_quote)
qed

text \<open>
  C40: durations survive JSON. What \<open>MarshalJSON\<close> writes for a duration is a valid JSON text, and
  \<open>UnmarshalJSON\<close> reads it back as the same duration, for every 64-bit value; the text is the one
  that \<open>ParseDuration\<close> accepts for an environment variable.
\<close>

theorem duration_round_trip:
  assumes "in_i64 d"
  shows "(case json_parse (marshal_duration d) of
           None \<Rightarrow> False
         | Some v \<Rightarrow> store_duration conv upd v r = Some (upd d r))
    \<and> parse_duration (duration_text d) = Some d"
  using parse_duration_text [OF assms] by (simp add: json_parse_duration store_duration_def)

theorem duration_round_trip_witness:
  "parse_duration (duration_text (- 5430000001500)) = Some (- 5430000001500)"
  using duration_round_trip [of "- 5430000001500" id "\<lambda>d r. d" 0] by (simp add: in_i64_def)

end
