(* ===== verification/Config.thy ===== *)
theory Config
  imports Os Duration
begin

text \<open>
  \<open>internal/config/config.go\<close>: the configuration, its defaults, the configuration file and the
  environment variables, and the sizes in bytes.
\<close>

subsection \<open>The configuration and its environment\<close>

record config =
  cf_target :: string
  cf_instanceName :: string
  cf_cacheDir :: path
  cf_cacheSizeMB :: int
  cf_tlsCert :: path
  cf_tlsKey :: path
  cf_tlsCA :: path
  cf_workers :: int
  cf_connectTimeout :: duration
  cf_requestTimeout :: duration
  cf_logLevel :: string
  cf_maxArtifactSizeMB :: int
  cf_healthAddr :: string
  cf_tls :: bool
  cf_authHeader :: string
  cf_authToken :: string

text \<open>
  What the program reads of its process: \<open>os.Getenv\<close> (empty when unset), the number of processors
  that \<open>runtime.GOMAXPROCS\<close> gives, and how the platform converts a float out of range to an
  integer.
\<close>

record environment =
  env_var :: "string \<Rightarrow> string"
  env_procs :: int
  env_convert :: "int \<Rightarrow> int"

text \<open>\<open>os.UserHomeDir\<close> on Unix; its error is ignored, which leaves the empty string.\<close>

definition user_home :: "environment \<Rightarrow> path" where
  "user_home env = env_var env ''HOME''"

subsection \<open>\<open>filepath.Join\<close>\<close>

text \<open>The elements of a path, and the lexical processing of \<open>filepath.Clean\<close>.\<close>

fun path_elements :: "string \<Rightarrow> string \<Rightarrow> string list" where
  "path_elements acc [] = [acc]"
| "path_elements acc (c # s) =
     (if c = CHR ''/'' then acc # path_elements [] s else path_elements (acc @ [c]) s)"

definition clean_element :: "bool \<Rightarrow> string \<Rightarrow> string list \<Rightarrow> string list" where
  "clean_element rooted x out =
     (if x = [] \<or> x = ''.'' then out
      else if x = ''..''
      then (if out \<noteq> [] \<and> last out \<noteq> ''..'' then butlast out
            else if rooted then out else out @ [x])
      else out @ [x])"

fun join_elements :: "string list \<Rightarrow> string" where
  "join_elements [] = []"
| "join_elements [x] = x"
| "join_elements (x # y # xs) = x @ ''/'' @ join_elements (y # xs)"

definition filepath_clean :: "path \<Rightarrow> path" where
  "filepath_clean p =
     (let rooted = (take 1 p = ''/'');
          out = fold (clean_element rooted) (path_elements [] p) []
      in if rooted then CHR ''/'' # join_elements out
         else if out = [] then ''.'' else join_elements out)"

text \<open>Empty elements are left out.\<close>

definition filepath_join :: "string list \<Rightarrow> path" where
  "filepath_join xs =
     (case filter (\<lambda>x. x \<noteq> []) xs of [] \<Rightarrow> [] | ys \<Rightarrow> filepath_clean (join_elements ys))"

subsection \<open>\<open>Load\<close>\<close>

definition default_config :: "environment \<Rightarrow> config" where
  "default_config env =
     \<lparr>cf_target = [], cf_instanceName = [],
      cf_cacheDir = filepath_join [user_home env, ''.cache'', ''gocache-rbe''],
      cf_cacheSizeMB = 10240, cf_tlsCert = [], cf_tlsKey = [], cf_tlsCA = [],
      cf_workers = i64 (env_procs env * 2),
      cf_connectTimeout = 10 * second, cf_requestTimeout = 60 * second,
      cf_logLevel = ''info'', cf_maxArtifactSizeMB = 512, cf_healthAddr = [], cf_tls = False,
      cf_authHeader = [], cf_authToken = []\<rparr>"

definition config_file_path :: "environment \<Rightarrow> path" where
  "config_file_path env = filepath_join [user_home env, ''.config'', ''gocache-rbe'', ''config.json'']"

definition config_fields :: "(int \<Rightarrow> int) \<Rightarrow> config fields" where
  "config_fields conv =
     [(''target'', store_string (\<lambda>x c. c\<lparr>cf_target := x\<rparr>)),
      (''instance_name'', store_string (\<lambda>x c. c\<lparr>cf_instanceName := x\<rparr>)),
      (''cache_dir'', store_string (\<lambda>x c. c\<lparr>cf_cacheDir := x\<rparr>)),
      (''cache_size_mb'', store_int (\<lambda>x c. c\<lparr>cf_cacheSizeMB := x\<rparr>)),
      (''tls_cert'', store_string (\<lambda>x c. c\<lparr>cf_tlsCert := x\<rparr>)),
      (''tls_key'', store_string (\<lambda>x c. c\<lparr>cf_tlsKey := x\<rparr>)),
      (''tls_ca'', store_string (\<lambda>x c. c\<lparr>cf_tlsCA := x\<rparr>)),
      (''workers'', store_int (\<lambda>x c. c\<lparr>cf_workers := x\<rparr>)),
      (''connect_timeout'', store_duration conv (\<lambda>x c. c\<lparr>cf_connectTimeout := x\<rparr>)),
      (''request_timeout'', store_duration conv (\<lambda>x c. c\<lparr>cf_requestTimeout := x\<rparr>)),
      (''log_level'', store_string (\<lambda>x c. c\<lparr>cf_logLevel := x\<rparr>)),
      (''max_artifact_size_mb'', store_int (\<lambda>x c. c\<lparr>cf_maxArtifactSizeMB := x\<rparr>)),
      (''health_addr'', store_string (\<lambda>x c. c\<lparr>cf_healthAddr := x\<rparr>)),
      (''tls'', store_bool (\<lambda>x c. c\<lparr>cf_tls := x\<rparr>)),
      (''auth_header'', store_string (\<lambda>x c. c\<lparr>cf_authHeader := x\<rparr>)),
      (''auth_token'', store_string (\<lambda>x c. c\<lparr>cf_authToken := x\<rparr>))]"

definition decode_config :: "environment \<Rightarrow> bytes \<Rightarrow> config \<Rightarrow> err + config" where
  "decode_config env data cfg =
     (case json_parse (string_of data) of
        None \<Rightarrow> Inl (Plain ''invalid JSON'')
      | Some v \<Rightarrow> (case store_struct (config_fields (env_convert env)) v cfg of
          None \<Rightarrow> Inl (Plain ''json: cannot unmarshal'')
        | Some c \<Rightarrow> Inr c))"

text \<open>The error, or the configuration that the file's members were stored into.\<close>

definition load_file :: "environment \<Rightarrow> config \<Rightarrow> sys \<Rightarrow> (err + config) \<times> sys" where
  "load_file env cfg s =
     (case read_file (config_file_path env) s of
        (Inl e, s1) \<Rightarrow> (Inl e, s1)
      | (Inr data, s1) \<Rightarrow> (decode_config env data cfg, s1))"

definition env_string :: "string \<Rightarrow> (string \<Rightarrow> config \<Rightarrow> config) \<Rightarrow> config \<Rightarrow> config" where
  "env_string v upd c = (if v \<noteq> [] then upd v c else c)"

definition env_parsed :: "(string \<Rightarrow> int option) \<Rightarrow> string \<Rightarrow> (int \<Rightarrow> config \<Rightarrow> config) \<Rightarrow> config \<Rightarrow> config" where
  "env_parsed parse v upd c =
     (if v \<noteq> [] then (case parse v of None \<Rightarrow> c | Some n \<Rightarrow> upd n c) else c)"

definition env_flag :: "string \<Rightarrow> (config \<Rightarrow> config) \<Rightarrow> config \<Rightarrow> config" where
  "env_flag v upd c = (if v = ''true'' \<or> v = ''1'' then upd c else c)"

definition apply_env :: "environment \<Rightarrow> config \<Rightarrow> config" where
  "apply_env env cfg =
     (let c1 = env_string (env_var env ''GOCACHE_RBE_TARGET'') (\<lambda>x c. c\<lparr>cf_target := x\<rparr>) cfg;
          c2 = env_string (env_var env ''GOCACHE_RBE_INSTANCE'') (\<lambda>x c. c\<lparr>cf_instanceName := x\<rparr>) c1;
          c3 = env_string (env_var env ''GOCACHE_RBE_CACHE_DIR'') (\<lambda>x c. c\<lparr>cf_cacheDir := x\<rparr>) c2;
          c4 = env_parsed parse_int (env_var env ''GOCACHE_RBE_CACHE_SIZE_MB'') (\<lambda>x c. c\<lparr>cf_cacheSizeMB := x\<rparr>) c3;
          c5 = env_string (env_var env ''GOCACHE_RBE_TLS_CERT'') (\<lambda>x c. c\<lparr>cf_tlsCert := x\<rparr>) c4;
          c6 = env_string (env_var env ''GOCACHE_RBE_TLS_KEY'') (\<lambda>x c. c\<lparr>cf_tlsKey := x\<rparr>) c5;
          c7 = env_string (env_var env ''GOCACHE_RBE_TLS_CA'') (\<lambda>x c. c\<lparr>cf_tlsCA := x\<rparr>) c6;
          c8 = env_parsed parse_int (env_var env ''GOCACHE_RBE_WORKERS'') (\<lambda>x c. c\<lparr>cf_workers := x\<rparr>) c7;
          c9 = env_parsed parse_duration (env_var env ''GOCACHE_RBE_CONNECT_TIMEOUT'') (\<lambda>x c. c\<lparr>cf_connectTimeout := x\<rparr>) c8;
          c10 = env_parsed parse_duration (env_var env ''GOCACHE_RBE_REQUEST_TIMEOUT'') (\<lambda>x c. c\<lparr>cf_requestTimeout := x\<rparr>) c9;
          c11 = env_string (env_var env ''GOCACHE_RBE_LOG_LEVEL'') (\<lambda>x c. c\<lparr>cf_logLevel := x\<rparr>) c10;
          c12 = env_parsed parse_int (env_var env ''GOCACHE_RBE_MAX_ARTIFACT_SIZE_MB'') (\<lambda>x c. c\<lparr>cf_maxArtifactSizeMB := x\<rparr>) c11;
          c13 = env_string (env_var env ''GOCACHE_RBE_HEALTH_ADDR'') (\<lambda>x c. c\<lparr>cf_healthAddr := x\<rparr>) c12;
          c14 = env_flag (env_var env ''GOCACHE_RBE_TLS'') (\<lambda>c. c\<lparr>cf_tls := True\<rparr>) c13;
          c15 = env_string (env_var env ''GOCACHE_RBE_AUTH_HEADER'') (\<lambda>x c. c\<lparr>cf_authHeader := x\<rparr>) c14
      in env_string (env_var env ''GOCACHE_RBE_AUTH_TOKEN'') (\<lambda>x c. c\<lparr>cf_authToken := x\<rparr>) c15)"

definition load :: "environment \<Rightarrow> sys \<Rightarrow> (err + config) \<times> sys" where
  "load env s =
     (let finish = (\<lambda>c. let cfg = apply_env env c in
            if cf_target cfg = [] then Inl (Plain ''GOCACHE_RBE_TARGET is required'') else Inr cfg) in
      case load_file env (default_config env) s of
        (Inl e, s1) \<Rightarrow>
          (if e \<noteq> not_exist then (Inl (Wrapped ''config file'' e), s1) else (finish (default_config env), s1))
      | (Inr c, s1) \<Rightarrow> (finish c, s1))"

subsection \<open>Sizes\<close>

definition cache_size_bytes :: "config \<Rightarrow> int" where
  "cache_size_bytes c = i64 (i64 (cf_cacheSizeMB c * 1024) * 1024)"

definition max_artifact_size_bytes :: "config \<Rightarrow> int" where
  "max_artifact_size_bytes c = i64 (i64 (cf_maxArtifactSizeMB c * 1024) * 1024)"

subsection \<open>Precedence\<close>

text \<open>
  The settings by kind: the environment variable, the name in the file, and the field. The value of a
  setting in the file is that of the last member of its name (in any case) that is not \<open>null\<close>.
\<close>

definition string_settings :: "(string \<times> string \<times> (config \<Rightarrow> string)) list" where
  "string_settings =
     [(''GOCACHE_RBE_TARGET'', ''target'', cf_target), (''GOCACHE_RBE_INSTANCE'', ''instance_name'', cf_instanceName),
      (''GOCACHE_RBE_CACHE_DIR'', ''cache_dir'', cf_cacheDir), (''GOCACHE_RBE_TLS_CERT'', ''tls_cert'', cf_tlsCert),
      (''GOCACHE_RBE_TLS_KEY'', ''tls_key'', cf_tlsKey), (''GOCACHE_RBE_TLS_CA'', ''tls_ca'', cf_tlsCA),
      (''GOCACHE_RBE_LOG_LEVEL'', ''log_level'', cf_logLevel), (''GOCACHE_RBE_HEALTH_ADDR'', ''health_addr'', cf_healthAddr),
      (''GOCACHE_RBE_AUTH_HEADER'', ''auth_header'', cf_authHeader), (''GOCACHE_RBE_AUTH_TOKEN'', ''auth_token'', cf_authToken)]"

definition int_settings :: "(string \<times> string \<times> (config \<Rightarrow> int)) list" where
  "int_settings =
     [(''GOCACHE_RBE_CACHE_SIZE_MB'', ''cache_size_mb'', cf_cacheSizeMB), (''GOCACHE_RBE_WORKERS'', ''workers'', cf_workers),
      (''GOCACHE_RBE_MAX_ARTIFACT_SIZE_MB'', ''max_artifact_size_mb'', cf_maxArtifactSizeMB)]"

definition duration_settings :: "(string \<times> string \<times> (config \<Rightarrow> duration)) list" where
  "duration_settings =
     [(''GOCACHE_RBE_CONNECT_TIMEOUT'', ''connect_timeout'', cf_connectTimeout),
      (''GOCACHE_RBE_REQUEST_TIMEOUT'', ''request_timeout'', cf_requestTimeout)]"

definition file_value :: "string \<Rightarrow> (json \<Rightarrow> 'a option) \<Rightarrow> (string \<times> json) list \<Rightarrow> 'a \<Rightarrow> 'a" where
  "file_value name dec kvs x =
     fold (\<lambda>(k, v) x. if map ascii_lower k = name then (case dec v of None \<Rightarrow> x | Some y \<Rightarrow> y) else x) kvs x"

definition file_members :: "environment \<Rightarrow> sys \<Rightarrow> (string \<times> json) list" where
  "file_members env s =
     (case sys_files s (config_file_path env) of
        None \<Rightarrow> []
      | Some f \<Rightarrow> (case json_parse (string_of (f_data f)) of Some (JObj kvs) \<Rightarrow> kvs | _ \<Rightarrow> []))"

definition string_value :: "json \<Rightarrow> string option" where
  "string_value v = (case v of JStr x \<Rightarrow> Some x | _ \<Rightarrow> None)"

definition bool_value :: "json \<Rightarrow> bool option" where
  "bool_value v = (case v of JBool b \<Rightarrow> Some b | _ \<Rightarrow> None)"

definition int_value :: "json \<Rightarrow> int option" where
  "int_value v = (case v of JNum t \<Rightarrow> parse_int t | _ \<Rightarrow> None)"

definition duration_value :: "(int \<Rightarrow> int) \<Rightarrow> json \<Rightarrow> duration option" where
  "duration_value conv v =
     (case v of JStr x \<Rightarrow> parse_duration x | JNum t \<Rightarrow> map_option (float_to_int64 conv) (json_float t) | _ \<Rightarrow> None)"

lemmas value_defs = string_value_def bool_value_def int_value_def duration_value_def
lemmas store_defs = store_string_def store_bool_def store_int_def store_duration_def

lemma file_value_simps [simp]:
  "file_value name dec [] x = x"
  "file_value name dec ((k, v) # kvs) x =
     file_value name dec kvs (if map ascii_lower k = name then (case dec v of None \<Rightarrow> x | Some y \<Rightarrow> y) else x)"
  by (simp_all add: file_value_def)

lemma store_members_field:
  assumes own: "\<And>k f v q q'. find_field fs k = Some f \<Longrightarrow> f v q = Some q' \<Longrightarrow>
      get q' = (if map ascii_lower k = name then (case dec v of None \<Rightarrow> get q | Some y \<Rightarrow> y) else get q)"
    and known: "\<And>k. map ascii_lower k = name \<Longrightarrow> find_field fs k \<noteq> None"
  shows "store_members fs kvs r = Some r' \<Longrightarrow> get r' = file_value name dec kvs (get r)"
proof (induction kvs arbitrary: r)
  case (Cons kv kvs)
  obtain k v where kv: "kv = (k, v)" by (cases kv)
  show ?case
  proof (cases "find_field fs k")
    case None
    with known [of k] have "map ascii_lower k \<noteq> name" by auto
    with None Cons kv show ?thesis by simp
  next
    case (Some f)
    with Cons.prems kv obtain q where q: "f v r = Some q" "store_members fs kvs q = Some r'"
      by (auto split: option.splits)
    show ?thesis using Cons.IH [OF q(2)] own [OF Some q(1)] by (simp add: kv)
  qed
qed simp

lemma config_names: "(n, f) \<in> set (config_fields conv) \<Longrightarrow> map ascii_lower n = n"
  by (auto simp: config_fields_def ascii_lower_def)

lemma find_config_field:
  assumes "find_field (config_fields conv) k = Some f"
  shows "(map ascii_lower k, f) \<in> set (config_fields conv)"
proof (cases "map_of (config_fields conv) k")
  case None
  then obtain n where n: "find (\<lambda>(n, f). map ascii_lower n = map ascii_lower k) (config_fields conv) = Some (n, f)"
    using assms by (auto simp: find_field_def)
  then have "(n, f) \<in> set (config_fields conv)" "map ascii_lower n = map ascii_lower k"
    by (metis (no_types, lifting) find_Some_iff nth_mem, auto simp: find_Some_iff)
  then show ?thesis using config_names by metis
next
  case (Some g)
  then have "(k, f) \<in> set (config_fields conv)" using assms by (auto simp: find_field_def dest: map_of_SomeD)
  then show ?thesis using config_names by metis
qed

lemma find_config_known:
  assumes "(name, f) \<in> set (config_fields conv)" and "map ascii_lower k = name"
  shows "find_field (config_fields conv) k \<noteq> None"
proof -
  have "find (\<lambda>(n, f). map ascii_lower n = map ascii_lower k) (config_fields conv) \<noteq> None"
    using assms config_names [OF assms(1)] by (auto simp: find_None_iff)
  then show ?thesis by (auto simp: find_field_def split: option.splits)
qed

text \<open>Every setting of the file is stored into its own field.\<close>

definition updated :: "(json \<Rightarrow> 'a option) \<Rightarrow> ('a \<Rightarrow> 'r \<Rightarrow> 'r) \<Rightarrow> json \<Rightarrow> 'r \<Rightarrow> 'r" where
  "updated dec upd v r = (case dec v of None \<Rightarrow> r | Some y \<Rightarrow> upd y r)"

lemma store_updated:
  "store_string us v r = Some q \<Longrightarrow> q = updated string_value us v r"
  "store_bool ub v r = Some q \<Longrightarrow> q = updated bool_value ub v r"
  "store_int ui v r = Some q \<Longrightarrow> q = updated int_value ui v r"
  "store_duration conv ud v r = Some q \<Longrightarrow> q = updated (duration_value conv) ud v r"
  by (auto simp: store_defs value_defs updated_def split: json.splits option.splits)

lemma get_updated:
  "(\<And>y r. get (upd y r) = y) \<Longrightarrow> get (updated dec upd v r) = (case dec v of None \<Rightarrow> get r | Some y \<Rightarrow> y)"
  by (simp add: updated_def split: option.split)

lemma keep_updated:
  "(\<And>y r. get (upd y r) = get r) \<Longrightarrow> get (updated dec upd v r) = get r"
  by (simp add: updated_def split: option.split)

text \<open>What storing one member does to the field \<open>get\<close> that is called \<open>name\<close>.\<close>

definition stores ::
  "(int \<Rightarrow> int) \<Rightarrow> string \<Rightarrow> (config \<Rightarrow> 'a) \<Rightarrow> (json \<Rightarrow> 'a option) \<Rightarrow> bool"
where
  "stores conv name get dec \<longleftrightarrow>
     (\<forall>(n, f) \<in> set (config_fields conv). \<forall>v q q'. f v q = Some q' \<longrightarrow>
        get q' = (if n = name then (case dec v of None \<Rightarrow> get q | Some y \<Rightarrow> y) else get q))
     \<and> name \<in> fst ` set (config_fields conv)"

lemma storesI:
  assumes "\<And>n f v q q'. (n, f) \<in> set (config_fields conv) \<Longrightarrow> f v q = Some q' \<Longrightarrow>
      get q' = (if n = name then (case dec v of None \<Rightarrow> get q | Some y \<Rightarrow> y) else get q)"
    and "name \<in> fst ` set (config_fields conv)"
  shows "stores conv name get dec"
  using assms unfolding stores_def by blast

lemma stores_file:
  assumes "stores conv name get dec" and "store_members (config_fields conv) kvs c = Some c'"
  shows "get c' = file_value name dec kvs (get c)"
proof (rule store_members_field [OF _ _ assms(2)])
  show "get q' = (if map ascii_lower k = name then (case dec v of None \<Rightarrow> get q | Some y \<Rightarrow> y) else get q)"
    if "find_field (config_fields conv) k = Some f" "f v q = Some q'" for k f v q q'
    using find_config_field [OF that(1)] that(2) assms(1) unfolding stores_def by blast
  show "find_field (config_fields conv) k \<noteq> None" if "map ascii_lower k = name" for k
    using assms(1) find_config_known [OF _ that] unfolding stores_def by fastforce
qed

lemma stores_strings:
  "stores conv ''target'' cf_target string_value" "stores conv ''instance_name'' cf_instanceName string_value"
  "stores conv ''cache_dir'' cf_cacheDir string_value" "stores conv ''tls_cert'' cf_tlsCert string_value"
  "stores conv ''tls_key'' cf_tlsKey string_value" "stores conv ''tls_ca'' cf_tlsCA string_value"
  "stores conv ''log_level'' cf_logLevel string_value" "stores conv ''health_addr'' cf_healthAddr string_value"
  "stores conv ''auth_header'' cf_authHeader string_value" "stores conv ''auth_token'' cf_authToken string_value"
  by (rule storesI, unfold config_fields_def list.set, elim insertE emptyE;
      clarsimp dest!: store_updated simp: get_updated keep_updated)+

lemma stores_numbers:
  "stores conv ''cache_size_mb'' cf_cacheSizeMB int_value" "stores conv ''workers'' cf_workers int_value"
  "stores conv ''max_artifact_size_mb'' cf_maxArtifactSizeMB int_value"
  "stores conv ''connect_timeout'' cf_connectTimeout (duration_value conv)"
  "stores conv ''request_timeout'' cf_requestTimeout (duration_value conv)"
  "stores conv ''tls'' cf_tls bool_value"
  by (rule storesI, unfold config_fields_def list.set, elim insertE emptyE;
      clarsimp dest!: store_updated simp: get_updated keep_updated)+

lemma settings_stored:
  "(var, name, gs) \<in> set string_settings \<Longrightarrow> stores conv name gs string_value"
  "(var, name, gi) \<in> set int_settings \<Longrightarrow> stores conv name gi int_value"
  "(var, name, gd) \<in> set duration_settings \<Longrightarrow> stores conv name gd (duration_value conv)"
  by (auto simp: string_settings_def int_settings_def duration_settings_def stores_strings stores_numbers)

text \<open>What a variable of the environment does to its field, and that it leaves the others alone.\<close>

lemma env_gets:
  "(\<And>x c. gs (us x c) = x) \<Longrightarrow> gs (env_string v us c) = (if v \<noteq> [] then v else gs c)"
  "(\<And>x c. gi (ui x c) = x) \<Longrightarrow> gi (env_parsed parse v ui c) =
     (if v \<noteq> [] then (case parse v of None \<Rightarrow> gi c | Some n \<Rightarrow> n) else gi c)"
  by (simp_all add: env_string_def env_parsed_def split: option.split)

lemma env_keeps:
  "(\<And>x c. get (us x c) = get c) \<Longrightarrow> get (env_string v us c) = get c"
  "(\<And>x c. get (ui x c) = get c) \<Longrightarrow> get (env_parsed parse v ui c) = get c"
  "(\<And>c. get (ub c) = get c) \<Longrightarrow> get (env_flag v ub c) = get c"
  by (simp_all add: env_string_def env_parsed_def env_flag_def split: option.split)

lemma env_flag_tls: "cf_tls (env_flag v (\<lambda>c. c\<lparr>cf_tls := True\<rparr>) c) = (v \<in> {''true'', ''1''} \<or> cf_tls c)"
  by (simp add: env_flag_def)

lemmas env_fields =
  env_gets(1) [of cf_target] env_gets(1) [of cf_instanceName] env_gets(1) [of cf_cacheDir]
  env_gets(1) [of cf_tlsCert] env_gets(1) [of cf_tlsKey] env_gets(1) [of cf_tlsCA]
  env_gets(1) [of cf_logLevel] env_gets(1) [of cf_healthAddr] env_gets(1) [of cf_authHeader]
  env_gets(1) [of cf_authToken]
  env_gets(2) [of cf_cacheSizeMB] env_gets(2) [of cf_workers] env_gets(2) [of cf_maxArtifactSizeMB]
  env_gets(2) [of cf_connectTimeout] env_gets(2) [of cf_requestTimeout]
  env_keeps [of cf_target] env_keeps [of cf_instanceName] env_keeps [of cf_cacheDir]
  env_keeps [of cf_tlsCert] env_keeps [of cf_tlsKey] env_keeps [of cf_tlsCA]
  env_keeps [of cf_logLevel] env_keeps [of cf_healthAddr] env_keeps [of cf_authHeader]
  env_keeps [of cf_authToken] env_keeps [of cf_cacheSizeMB] env_keeps [of cf_workers]
  env_keeps [of cf_maxArtifactSizeMB] env_keeps [of cf_connectTimeout] env_keeps [of cf_requestTimeout]
  env_keeps [of cf_tls]
  env_flag_tls

lemma apply_env_strings:
  "(var, name, get) \<in> set string_settings \<Longrightarrow>
     get (apply_env env c) = (if env_var env var \<noteq> [] then env_var env var else get c)"
  unfolding string_settings_def list.set
  by (elim insertE emptyE; simp add: apply_env_def Let_def env_fields)

lemma apply_env_numbers:
  "(var, name, gi) \<in> set int_settings \<Longrightarrow>
     gi (apply_env env c) = (if env_var env var \<noteq> []
       then (case parse_int (env_var env var) of None \<Rightarrow> gi c | Some n \<Rightarrow> n) else gi c)"
  "(var, name, gd) \<in> set duration_settings \<Longrightarrow>
     gd (apply_env env c) = (if env_var env var \<noteq> []
       then (case parse_duration (env_var env var) of None \<Rightarrow> gd c | Some n \<Rightarrow> n) else gd c)"
  "cf_tls (apply_env env c) = (env_var env ''GOCACHE_RBE_TLS'' \<in> {''true'', ''1''} \<or> cf_tls c)"
  unfolding int_settings_def duration_settings_def list.set
  by ((elim insertE emptyE)?; simp add: apply_env_def Let_def env_fields split: option.split)+

lemma load_config:
  assumes "load env s = (Inr cfg, t)"
  obtains c where "cfg = apply_env env c" "cf_target cfg \<noteq> []"
    "store_members (config_fields (env_convert env)) (file_members env s) (default_config env) = Some c"
proof -
  have stored: "store_members (config_fields (env_convert env)) (file_members env s) (default_config env) = Some c"
    if "load_file env (default_config env) s = (Inr c, t)" for c
    using that
    by (auto simp: load_file_def read_file_def file_members_def decode_config_def store_struct_def
        split: if_splits option.splits json.splits)
  have missing: "file_members env s = []" if "load_file env (default_config env) s = (Inl not_exist, t)"
    using that
    by (auto simp: load_file_def read_file_def file_members_def decode_config_def not_exist_def io_error_def
        split: if_splits option.splits json.splits)
  from assms consider c where "load_file env (default_config env) s = (Inr c, t)" "cfg = apply_env env c" "cf_target cfg \<noteq> []"
    | "load_file env (default_config env) s = (Inl not_exist, t)" "cfg = apply_env env (default_config env)" "cf_target cfg \<noteq> []"
    by (auto simp: load_def Let_def split: prod.splits sum.splits if_splits)
  then show ?thesis
  proof cases
    case 1
    with stored that show ?thesis by blast
  next
    case 2
    with missing that [of "default_config env"] show ?thesis by simp
  qed
qed

text \<open>
  C16: environment variables come before the configuration file, and the file before the defaults. In
  every configuration that \<open>Load\<close> returns, a string is the value of its variable if that is set;
  a number or duration that of its variable if that is set and valid; otherwise both are what the
  file gives last under their name, and otherwise the default. TLS is on when the variable is
  \<open>true\<close> or \<open>1\<close> or the file turns it on (so no variable turns it off). The target is not empty.
\<close>

theorem load_precedence:
  assumes "load env s = (Inr cfg, t)"
  shows "(\<forall>(var, name, get) \<in> set string_settings. get cfg =
      (if env_var env var \<noteq> [] then env_var env var
       else file_value name string_value (file_members env s) (get (default_config env))))
    \<and> (\<forall>(var, name, get) \<in> set int_settings. get cfg =
      (case if env_var env var \<noteq> [] then parse_int (env_var env var) else None of
         Some n \<Rightarrow> n
       | None \<Rightarrow> file_value name int_value (file_members env s) (get (default_config env))))
    \<and> (\<forall>(var, name, get) \<in> set duration_settings. get cfg =
      (case if env_var env var \<noteq> [] then parse_duration (env_var env var) else None of
         Some d \<Rightarrow> d
       | None \<Rightarrow> file_value name (duration_value (env_convert env)) (file_members env s) (get (default_config env))))
    \<and> cf_tls cfg = (env_var env ''GOCACHE_RBE_TLS'' \<in> {''true'', ''1''}
        \<or> file_value ''tls'' bool_value (file_members env s) False)
    \<and> cf_target cfg \<noteq> []"
proof -
  obtain c where cfg: "cfg = apply_env env c" and target: "cf_target cfg \<noteq> []"
    and c: "store_members (config_fields (env_convert env)) (file_members env s) (default_config env) = Some c"
    using load_config [OF assms] by blast
  have "get cfg = (if env_var env var \<noteq> [] then env_var env var
      else file_value name string_value (file_members env s) (get (default_config env)))"
    if "(var, name, get) \<in> set string_settings" for var name get
    using apply_env_strings [OF that] stores_file [OF settings_stored(1) [OF that] c] by (simp add: cfg)
  moreover have "get cfg = (case if env_var env var \<noteq> [] then parse_int (env_var env var) else None of
         Some n \<Rightarrow> n | None \<Rightarrow> file_value name int_value (file_members env s) (get (default_config env)))"
    if "(var, name, get) \<in> set int_settings" for var name get
    using apply_env_numbers(1) [OF that] stores_file [OF settings_stored(2) [OF that] c] by (simp add: cfg split: option.split)
  moreover have "get cfg = (case if env_var env var \<noteq> [] then parse_duration (env_var env var) else None of
         Some d \<Rightarrow> d
       | None \<Rightarrow> file_value name (duration_value (env_convert env)) (file_members env s) (get (default_config env)))"
    if "(var, name, get) \<in> set duration_settings" for var name get
    using apply_env_numbers(2) [OF that] stores_file [OF settings_stored(3) [OF that] c] by (simp add: cfg split: option.split)
  moreover have "cf_tls c = file_value ''tls'' bool_value (file_members env s) False"
    using stores_file [OF stores_numbers(6) c] by (simp add: default_config_def)
  then have "cf_tls cfg = (env_var env ''GOCACHE_RBE_TLS'' \<in> {''true'', ''1''}
      \<or> file_value ''tls'' bool_value (file_members env s) False)"
    by (simp only: cfg apply_env_numbers(3))
  ultimately show ?thesis using target by blast
qed

text \<open>A home with a configuration file, and two variables of which one is not a number.\<close>

definition example_env :: environment where
  "example_env =
     \<lparr>env_var = (\<lambda>_. [])(''HOME'' := ''/h'', ''GOCACHE_RBE_TARGET'' := ''grpc://c'', ''GOCACHE_RBE_WORKERS'' := ''x''),
      env_procs = 4, env_convert = id\<rparr>"

definition example_file :: "(string \<times> json) list" where
  "example_file = [(''Workers'', JNum ''3''), (''target'', JStr ''a''), (''tls'', JBool True)]"

definition example_home :: sys where
  "example_home =
     \<lparr>sys_files = [''/h/.config/gocache-rbe/config.json'' \<mapsto>
        \<lparr>f_data = bytes_of (json_print True (JObj example_file)),
          f_mtime = 0\<rparr>],
      sys_dirs = {}, sys_fault = (\<lambda>_. None), sys_clock = (\<lambda>_. 0), sys_rand = (\<lambda>_. 0), sys_calls = 0\<rparr>"

lemma example_path: "config_file_path example_env = ''/h/.config/gocache-rbe/config.json''"
  by (simp add: config_file_path_def example_env_def user_home_def) code_simp

lemma example_json: "json_parse (json_print True (JObj example_file))
    = Some (JObj example_file)"
proof (rule json_parse_print)
  have "show_int 3 = ''3''" by (simp add: show_int_def nat_digits.simps) code_simp
  then show "wf_json (JObj example_file)"
    by (auto simp: example_file_def intro: exI [of _ 3])
qed

lemma example_members:
  "store_members (config_fields conv) example_file c
     = Some (c\<lparr>cf_workers := 3, cf_target := ''a'', cf_tls := True\<rparr>)"
proof -
  have "parse_int ''3'' = Some 3" "ascii_lower (CHR ''W'') = CHR ''w''" by code_simp+
  moreover have "ascii_lower c = c" if "c \<in> set ''abcdefghijklmnopqrstuvwxyz_''" for c
    using that by (auto simp: ascii_lower_def)
  ultimately show ?thesis
    by (simp add: example_file_def config_fields_def find_field_def store_string_def store_int_def store_bool_def)
qed

definition example_config :: config where
  "example_config = apply_env example_env ((default_config example_env)\<lparr>cf_workers := 3, cf_target := ''a'', cf_tls := True\<rparr>)"

lemma example_load: "load example_env example_home = (Inr example_config, called example_home)"
proof -
  have "load_file example_env (default_config example_env) example_home
      = (Inr ((default_config example_env)\<lparr>cf_workers := 3, cf_target := ''a'', cf_tls := True\<rparr>), called example_home)"
    by (simp add: load_file_def read_file_def example_path example_home_def faulty_def decode_config_def
        example_json store_struct_def example_members del: json_print.simps)
  then show ?thesis
    using apply_env_strings [of "''GOCACHE_RBE_TARGET''" "''target''" cf_target example_env]
    by (auto simp: load_def Let_def string_settings_def example_env_def example_config_def)
qed

theorem load_precedence_witness:
  "\<exists>cfg t. load example_env example_home = (Inr cfg, t)
     \<and> cf_target cfg = ''grpc://c'' \<and> cf_workers cfg = 3 \<and> cf_tls cfg \<and> cf_requestTimeout cfg = 60 * second"
proof -
  obtain cfg t where l: "load example_env example_home = (Inr cfg, t)" using example_load by blast
  have m: "file_members example_env example_home = example_file"
    by (simp add: file_members_def example_path example_home_def example_json del: json_print.simps)
  have p: "parse_int ''3'' = Some 3" "parse_int ''x'' = None" "map ascii_lower ''Workers'' = ''workers''"
    "map ascii_lower ''target'' = ''target''" "map ascii_lower ''tls'' = ''tls''" by code_simp+
  have e: "env_var example_env = (\<lambda>_. [])(''HOME'' := ''/h'', ''GOCACHE_RBE_TARGET'' := ''grpc://c'', ''GOCACHE_RBE_WORKERS'' := ''x'')"
    by (simp add: example_env_def)
  have d: "cf_requestTimeout (default_config example_env) = 60 * second" by (simp add: default_config_def)
  have settings: "(''GOCACHE_RBE_TARGET'', ''target'', cf_target) \<in> set string_settings"
    "(''GOCACHE_RBE_WORKERS'', ''workers'', cf_workers) \<in> set int_settings"
    "(''GOCACHE_RBE_REQUEST_TIMEOUT'', ''request_timeout'', cf_requestTimeout) \<in> set duration_settings"
    by (simp_all add: string_settings_def int_settings_def duration_settings_def)
  have "cf_target cfg = ''grpc://c'' \<and> cf_workers cfg = 3 \<and> cf_tls cfg \<and> cf_requestTimeout cfg = 60 * second"
  proof (intro conjI)
    show "cf_target cfg = ''grpc://c''"
      using bspec [OF load_precedence [OF l, THEN conjunct1] settings(1)] by (simp add: e)
    show "cf_workers cfg = 3"
      using bspec [OF load_precedence [OF l, THEN conjunct2, THEN conjunct1] settings(2)]
      by (simp add: m example_file_def e value_defs p del: list.map)
    show "cf_requestTimeout cfg = 60 * second"
      using bspec [OF load_precedence [OF l, THEN conjunct2, THEN conjunct2, THEN conjunct1] settings(3)]
      by (simp add: m example_file_def e d value_defs p del: list.map)
    show "cf_tls cfg"
      using load_precedence [OF l, THEN conjunct2, THEN conjunct2, THEN conjunct2, THEN conjunct1]
      by (simp add: m example_file_def e value_defs p del: list.map)
  qed
  with l show ?thesis by blast
qed

subsection \<open>Limits\<close>

lemma i64_mult_left: "i64 (i64 x * y) = i64 (x * y)"
  by (rule i64_cong) (metis i64_mod mod_mult_left_eq)

lemma i64_wrap: "2 ^ 63 \<le> x \<Longrightarrow> x < 2 ^ 64 \<Longrightarrow> i64 x = x - 2 ^ 64"
proof -
  assume "2 ^ 63 \<le> x" and "x < 2 ^ 64"
  moreover have "x mod 2 ^ 64 = (x - 2 ^ 64) mod 2 ^ 64" by simp
  then have "i64 x = i64 (x - 2 ^ 64)" by (rule i64_cong)
  ultimately show ?thesis using i64_id [of "x - 2 ^ 64"] by (simp add: in_i64_def)
qed

lemma mebibytes: "m * 1024 * 1024 = m * 2 ^ 20" for m :: int
  by simp

lemma mebibytes_exact:
  "i64 (i64 (m * 1024) * 1024) = m * 2 ^ 20 \<longleftrightarrow> - (2 ^ 43) \<le> m \<and> m < 2 ^ 43"
proof -
  have "i64 x = x \<longleftrightarrow> in_i64 x" for x by (metis i64_id in_i64_i64)
  moreover have "in_i64 (m * 2 ^ 20) \<longleftrightarrow> - (2 ^ 43) \<le> m \<and> m < 2 ^ 43" by (auto simp: in_i64_def)
  ultimately show ?thesis by (simp only: i64_mult_left mebibytes)
qed

lemma mebibytes_wrap: "2 ^ 43 \<le> m \<and> m < 2 ^ 44 \<longrightarrow> i64 (i64 (m * 1024) * 1024) < 0"
proof
  assume m: "2 ^ 43 \<le> m \<and> m < 2 ^ 44"
  then have "2 ^ 63 \<le> m * 2 ^ 20" "m * 2 ^ 20 < 2 ^ 64" by simp_all
  then show "i64 (i64 (m * 1024) * 1024) < 0" by (simp only: i64_mult_left mebibytes i64_wrap)
qed

text \<open>
  A limit in bytes is the configured number of mebibytes, for the cache and for artifacts, exactly
  when that number is between \<open>- 2 ^ 43\<close> and \<open>2 ^ 43 - 1\<close>. A larger one wraps around: below
  \<open>2 ^ 44\<close> the limit is negative, so that everything is above it.
\<close>

lemma size_limits:
  "(cache_size_bytes c = cf_cacheSizeMB c * 2 ^ 20 \<longleftrightarrow> - (2 ^ 43) \<le> cf_cacheSizeMB c \<and> cf_cacheSizeMB c < 2 ^ 43)
   \<and> (max_artifact_size_bytes c = cf_maxArtifactSizeMB c * 2 ^ 20
        \<longleftrightarrow> - (2 ^ 43) \<le> cf_maxArtifactSizeMB c \<and> cf_maxArtifactSizeMB c < 2 ^ 43)
   \<and> (2 ^ 43 \<le> cf_cacheSizeMB c \<and> cf_cacheSizeMB c < 2 ^ 44 \<longrightarrow> cache_size_bytes c < 0)
   \<and> (2 ^ 43 \<le> cf_maxArtifactSizeMB c \<and> cf_maxArtifactSizeMB c < 2 ^ 44 \<longrightarrow> max_artifact_size_bytes c < 0)"
  unfolding cache_size_bytes_def max_artifact_size_bytes_def
  by (intro conjI mebibytes_exact mebibytes_wrap)

lemma size_limits_example:
  "cache_size_bytes ((default_config example_env)\<lparr>cf_cacheSizeMB := 2 ^ 43\<rparr>) < 0
   \<and> cache_size_bytes (default_config example_env) = 10737418240"
  using size_limits [of "(default_config example_env)\<lparr>cf_cacheSizeMB := 2 ^ 43\<rparr>"] size_limits [of "default_config example_env"]
  by (simp add: default_config_def)

end
