(* ===== verification/Target.thy ===== *)
theory Target
  imports Text "HOL-Library.Sublist"
begin

text \<open>
  \<open>ParseTarget\<close> and \<open>normalizeHostPort\<close> of \<open>internal/reapi/client.go\<close>, with the two functions of
  package \<open>net\<close> that they call.
\<close>

subsection \<open>Host and port\<close>

text \<open>The text before and after the first, and the last, occurrence of a character.\<close>

definition cut_first :: "char \<Rightarrow> string \<Rightarrow> (string \<times> string) option" where
  "cut_first c s = (if c \<in> set s then Some (takeWhile (\<lambda>x. x \<noteq> c) s, tl (dropWhile (\<lambda>x. x \<noteq> c) s)) else None)"

definition cut_last :: "char \<Rightarrow> string \<Rightarrow> (string \<times> string) option" where
  "cut_last c s = map_option (\<lambda>(b, a). (rev a, rev b)) (cut_first c (rev s))"

text \<open>\<open>net.SplitHostPort\<close>; \<open>None\<close> for each of its errors.\<close>

definition split_host_port :: "string \<Rightarrow> (string \<times> string) option" where
  "split_host_port s =
     (case cut_last CHR '':'' s of
        None \<Rightarrow> None
      | Some (before, port) \<Rightarrow>
          if take 1 s = ''[''
          then (case cut_first CHR '']'' s of
                  None \<Rightarrow> None
                | Some (left, right) \<Rightarrow>
                    if right \<noteq> CHR '':'' # port then None
                    else if CHR ''['' \<in> set (tl s) \<or> CHR '']'' \<in> set right then None
                    else Some (tl left, port))
          else if CHR '':'' \<in> set before then None
          else if CHR ''['' \<in> set s \<or> CHR '']'' \<in> set s then None
          else Some (before, port))"

definition join_host_port :: "string \<Rightarrow> string \<Rightarrow> string" where
  "join_host_port host port =
     (if CHR '':'' \<in> set host then ''['' @ host @ '']:'' @ port else host @ '':'' @ port)"

definition normalize_host_port :: "string \<Rightarrow> string \<Rightarrow> err + string" where
  "normalize_host_port hostport default_port =
     (if hostport = [] then Inl (Plain ''empty address'')
      else if split_host_port hostport \<noteq> None then Inr hostport
      else if list_ex (\<lambda>c. c \<in> set ''/?#'') hostport then Inl (Plain (''invalid host '' @ go_quote hostport))
      else Inr (join_host_port hostport default_port))"

subsection \<open>Targets\<close>

text \<open>The text before the first \<open>://\<close>, if there is one.\<close>

fun before_scheme :: "string \<Rightarrow> string option" where
  "before_scheme [] = None"
| "before_scheme (c # s) =
     (if take 3 (c # s) = ''://'' then Some [] else map_option (Cons c) (before_scheme s))"

text \<open>
  A failed parse gives an error alone, or, from \<open>normalizeHostPort\<close>, an error next to an empty address;
  the caller looks only at the error.
\<close>

definition parse_target :: "string \<Rightarrow> bool \<Rightarrow> err + string \<times> bool" where
  "parse_target raw fallback_tls =
     (let parsed = (\<lambda>host port tls. case normalize_host_port host port of Inl e \<Rightarrow> Inl e | Inr a \<Rightarrow> Inr (a, tls));
          empty_host = Inl (Plain (''invalid target '' @ go_quote raw @ '': empty host'')) in
      if prefix ''grpcs://'' raw
      then (let host = drop 8 raw in if host = [] then empty_host else parsed host ''443'' True)
      else if prefix ''grpc://'' raw
      then (let host = drop 7 raw in if host = [] then empty_host else parsed host ''80'' False)
      else (case before_scheme raw of
              Some scheme \<Rightarrow> Inl (Plain (''unsupported scheme '' @ go_quote scheme @ '': use grpc:// or grpcs://''))
            | None \<Rightarrow> parsed raw ''443'' fallback_tls))"

subsection \<open>Normalised addresses\<close>

lemma cut_first_append: "c \<notin> set a \<Longrightarrow> cut_first c (a @ c # b) = Some (a, b)"
  by (simp add: cut_first_def takeWhile_append dropWhile_append)

lemma cut_last_append: "c \<notin> set b \<Longrightarrow> cut_last c (a @ c # b) = Some (a, b)"
  using cut_first_append [of c "rev b" "rev a"] by (simp add: cut_last_def)

definition plain_host :: "string \<Rightarrow> bool" where
  "plain_host h \<longleftrightarrow> h \<noteq> [] \<and> list_all (\<lambda>c. c \<notin> set '':/?#[]'') h"

definition plain_port :: "string \<Rightarrow> bool" where
  "plain_port p \<longleftrightarrow> list_all (\<lambda>c. c \<notin> set '':[]'') p"

lemma split_plain: "plain_host h \<Longrightarrow> plain_port p \<Longrightarrow> split_host_port (h @ '':'' @ p) = Some (h, p)"
proof -
  assume h: "plain_host h" and p: "plain_port p"
  have "cut_last CHR '':'' (h @ CHR '':'' # p) = Some (h, p)"
    using p by (intro cut_last_append) (auto simp: plain_port_def list_all_iff)
  moreover have "take 1 (h @ '':'' @ p) \<noteq> ''[''"
    using h by (cases h) (auto simp: plain_host_def)
  ultimately show ?thesis using h p by (auto simp: split_host_port_def plain_host_def plain_port_def list_all_iff)
qed

lemma split_bare: "plain_host h \<Longrightarrow> split_host_port h = None"
  by (auto simp: split_host_port_def cut_last_def cut_first_def plain_host_def list_all_iff)

lemma normalize_plain:
  assumes "plain_host h" and "plain_port p"
  shows "normalize_host_port h d = Inr (h @ '':'' @ d)" and "normalize_host_port (h @ '':'' @ p) d = Inr (h @ '':'' @ p)"
  using split_bare [OF assms(1)] split_plain [OF assms] assms(1)
  by (auto simp: normalize_host_port_def join_host_port_def plain_host_def list_all_iff list_ex_iff)

lemma no_scheme_mark: "CHR ''/'' \<notin> set b \<Longrightarrow> take 3 (c # b) \<noteq> ''://''"
  by (cases b) auto

lemma before_scheme_no_slash: "CHR ''/'' \<notin> set b \<Longrightarrow> before_scheme b = None"
  using no_scheme_mark by (induction b) (auto simp del: take_Suc_Cons take_Cons_numeral)

lemma before_scheme_plain: "CHR '':'' \<notin> set a \<Longrightarrow> CHR ''/'' \<notin> set b \<Longrightarrow> before_scheme (a @ b) = None"
  by (induction a) (auto simp: before_scheme_no_slash)

text \<open>
  C39: what each form of a target means. For a host without special characters and any port, the forms
  of \<open>grpcs\<close>, of \<open>grpc\<close> and without a scheme keep a port that is given and add 443, 80 and 443 when
  none is; TLS is on, off, and as configured.
\<close>

theorem parse_target_forms:
  assumes "plain_host h" and "plain_port p" and "CHR ''/'' \<notin> set p"
  shows "parse_target (''grpcs://'' @ h) t = Inr (h @ '':443'', True)
    \<and> parse_target (''grpcs://'' @ h @ '':'' @ p) t = Inr (h @ '':'' @ p, True)
    \<and> parse_target (''grpc://'' @ h) t = Inr (h @ '':80'', False)
    \<and> parse_target (''grpc://'' @ h @ '':'' @ p) t = Inr (h @ '':'' @ p, False)
    \<and> parse_target h t = Inr (h @ '':443'', t)
    \<and> parse_target (h @ '':'' @ p) t = Inr (h @ '':'' @ p, t)"
proof -
  have h: "h \<noteq> []" "CHR '':'' \<notin> set h" "CHR ''/'' \<notin> set h" using assms(1) by (auto simp: plain_host_def list_all_iff)
  have no_slash: "\<not> prefix s raw" if "CHR ''/'' \<notin> set raw" "CHR ''/'' \<in> set s" for s raw
    using that set_mono_prefix by blast
  have raw: "CHR ''/'' \<notin> set (h @ '':'' @ p)" using h assms(3) by simp
  have "before_scheme h = None" "before_scheme (h @ '':'' @ p) = None"
    using before_scheme_plain [OF h(2), of "[]"] before_scheme_plain [OF h(2), of "'':'' @ p"] assms(3) by simp_all
  moreover note no_slash [OF h(3), of "''grpcs://''"] no_slash [OF h(3), of "''grpc://''"]
    no_slash [OF raw, of "''grpcs://''"] no_slash [OF raw, of "''grpc://''"] normalize_plain [OF assms(1, 2)]
  ultimately show ?thesis using h(1) by (simp add: parse_target_def)
qed

theorem parse_target_forms_witness:
  "parse_target ''grpcs://cache'' False = Inr (''cache:443'', True)
   \<and> parse_target ''grpc://cache:9092'' True = Inr (''cache:9092'', False)"
  using parse_target_forms [of "''cache''" "''9092''" False] parse_target_forms [of "''cache''" "''9092''" True]
  by (simp add: plain_host_def plain_port_def)

text \<open>A bracketed IPv6 address without a port gets a second pair of brackets.\<close>

lemma ipv6_brackets: "parse_target ''grpc://[::1]'' t = Inr (''[[::1]]:80'', False)"
  by (simp add: parse_target_def normalize_host_port_def split_host_port_def cut_last_def cut_first_def join_host_port_def)

end
