(* ===== verification/Connect.thy ===== *)
theory Connect
  imports Target Duration Remote
begin

text \<open>
  The construction of a client: \<open>ClientConfig\<close>, \<open>dialOptions\<close> and \<open>NewClient\<close> of
  \<open>internal/reapi/client.go\<close>. What belongs to other packages is an argument: the parsing of
  certificates, and the connection that the grpc package makes.
\<close>

record client_config =
  cc_target :: string
  cc_instanceName :: string
  cc_tlsCert :: path
  cc_tlsKey :: path
  cc_tlsCA :: path
  cc_connectTimeout :: duration
  cc_requestTimeout :: duration
  cc_maxBatchSize :: int
  cc_tls :: bool
  cc_authHeader :: string
  cc_authToken :: string

subsection \<open>Options\<close>

record ('cert, 'pool) tls_config =
  tls_certificates :: "'cert list"
  tls_rootCAs :: "'pool option"

text \<open>
  The metadata of the interceptors (one for unary calls, one for streams) is the pair that they
  attach to every call.
\<close>

datatype ('cert, 'pool) dial_option =
    Max_Call_Sizes nat nat
  | Keepalive duration duration bool
  | Unary_Interceptor "string \<times> string"
  | Stream_Interceptor "string \<times> string"
  | Insecure
  | TLS_Credentials "('cert, 'pool) tls_config"

record ('cert, 'pool) x509 =
  x509_key_pair :: "bytes \<Rightarrow> bytes \<Rightarrow> err + 'cert"
  x509_append_pem :: "bytes \<Rightarrow> 'pool option"

definition max_grpc_message_size :: nat where
  "max_grpc_message_size = 64 * 1024 * 1024"

text \<open>\<open>tls.LoadX509KeyPair\<close> reads both files, then parses them.\<close>

definition load_key_pair :: "('cert, 'pool) x509 \<Rightarrow> path \<Rightarrow> path \<Rightarrow> sys \<Rightarrow> (err + 'cert) \<times> sys" where
  "load_key_pair x cert key s =
     (case read_file cert s of
        (Inl e, s1) \<Rightarrow> (Inl e, s1)
      | (Inr c, s1) \<Rightarrow>
         (case read_file key s1 of
            (Inl e, s2) \<Rightarrow> (Inl e, s2)
          | (Inr k, s2) \<Rightarrow> (x509_key_pair x c k, s2)))"

definition tls_certificate ::
  "('cert, 'pool) x509 \<Rightarrow> client_config \<Rightarrow> sys \<Rightarrow> (err + ('cert, 'pool) tls_config) \<times> sys"
where
  "tls_certificate x cfg s =
     (let tls = \<lparr>tls_certificates = [], tls_rootCAs = None\<rparr> in
      if cc_tlsCert cfg \<noteq> [] \<and> cc_tlsKey cfg \<noteq> []
      then (case load_key_pair x (cc_tlsCert cfg) (cc_tlsKey cfg) s of
              (Inl e, s1) \<Rightarrow> (Inl (Wrapped ''load TLS keypair'' e), s1)
            | (Inr cert, s1) \<Rightarrow> (Inr (tls\<lparr>tls_certificates := [cert]\<rparr>), s1))
      else (Inr tls, s))"

definition tls_roots ::
  "('cert, 'pool) x509 \<Rightarrow> client_config \<Rightarrow> ('cert, 'pool) tls_config \<Rightarrow> sys \<Rightarrow> (err + ('cert, 'pool) tls_config) \<times> sys"
where
  "tls_roots x cfg tls s =
     (if cc_tlsCA cfg \<noteq> []
      then (case read_file (cc_tlsCA cfg) s of
              (Inl e, s1) \<Rightarrow> (Inl (Wrapped ''read CA cert'' e), s1)
            | (Inr pem, s1) \<Rightarrow>
               (case x509_append_pem x pem of
                  None \<Rightarrow> (Inl (Plain ''failed to parse CA cert''), s1)
                | Some pool \<Rightarrow> (Inr (tls\<lparr>tls_rootCAs := Some pool\<rparr>), s1)))
      else (Inr tls, s))"

definition dial_options ::
  "('cert, 'pool) x509 \<Rightarrow> client_config \<Rightarrow> sys \<Rightarrow> (err + ('cert, 'pool) dial_option list) \<times> sys"
where
  "dial_options x cfg s =
     (let opts = [Max_Call_Sizes max_grpc_message_size max_grpc_message_size, Keepalive (30 * second) (10 * second) True];
          md = (cc_authHeader cfg, cc_authToken cfg);
          opts = (if cc_authHeader cfg \<noteq> [] \<and> cc_authToken cfg \<noteq> []
                  then opts @ [Unary_Interceptor md, Stream_Interceptor md] else opts) in
      if cc_tlsCert cfg = [] \<and> cc_tlsKey cfg = [] \<and> cc_tlsCA cfg = [] \<and> \<not> cc_tls cfg
      then (Inr (opts @ [Insecure]), s)
      else case tls_certificate x cfg s of
        (Inl e, s1) \<Rightarrow> (Inl e, s1)
      | (Inr tls, s1) \<Rightarrow>
         (case tls_roots x cfg tls s1 of
            (Inl e, s2) \<Rightarrow> (Inl e, s2)
          | (Inr tls, s2) \<Rightarrow> (Inr (opts @ [TLS_Credentials tls]), s2)))"

subsection \<open>\<open>NewClient\<close>\<close>

text \<open>
  Of the grpc package: \<open>grpc.NewClient\<close>, which gives the methods of the server as the connection
  reaches them or an error, and whether \<open>WaitForStateChange\<close> sees a change of state before the
  connect timeout.
\<close>

record ('cert, 'pool, 'v) grpc =
  grpc_new :: "string \<Rightarrow> ('cert, 'pool) dial_option list \<Rightarrow> err + 'v server"
  grpc_wait :: "duration \<Rightarrow> 'v \<Rightarrow> bool \<times> 'v"

text \<open>
  \<open>NewClient\<close> sets the fields that \<open>NewClientFromConn\<close> sets. An error of the capabilities call is
  not an error of the client, which then keeps the defaults.
\<close>

definition new_client ::
  "('cert, 'pool) x509 \<Rightarrow> ('cert, 'pool, 'v) grpc \<Rightarrow> (nat \<Rightarrow> string) \<Rightarrow> client_config \<Rightarrow> 'v world
    \<Rightarrow> (err + 'v client) \<times> 'v world"
where
  "new_client x net uuid cfg w =
     (case parse_target (cc_target cfg) (cc_tls cfg) of
        Inl e \<Rightarrow> (Inl (Wrapped ''invalid target'' e), w)
      | Inr (addr, use_tls) \<Rightarrow>
         (let cfg = cfg\<lparr>cc_target := addr, cc_tls := use_tls\<rparr> in
          case call_sys (dial_options x cfg) w of
            (Inl e, w1) \<Rightarrow> (Inl e, w1)
          | (Inr opts, w1) \<Rightarrow>
             (case grpc_new net addr opts of
                Inl e \<Rightarrow> (Inl (Wrapped (''grpc dial '' @ addr) e), w1)
              | Inr srv \<Rightarrow>
                 (let (connected, w2) =
                        (if 0 < cc_connectTimeout cfg then call_srv (grpc_wait net (cc_connectTimeout cfg)) w1 else (True, w1)) in
                  if \<not> connected
                  then (Inl (Plain (''grpc connect '' @ addr @ '': timed out after ''
                              @ duration_text (cc_connectTimeout cfg))), w2)
                  else (case new_client_from_conn srv uuid (cc_instanceName cfg) w2 of
                          (c, w3) \<Rightarrow> (case discover_capabilities c w3 of (_, c1, w4) \<Rightarrow> (Inr c1, w4)))))))"

subsection \<open>Transport security\<close>

definition insecure :: "('cert, 'pool) dial_option list \<Rightarrow> bool" where
  "insecure opts \<longleftrightarrow> Insecure \<in> set opts"

definition tls_of :: "('cert, 'pool) dial_option list \<Rightarrow> ('cert, 'pool) tls_config list" where
  "tls_of opts = concat (map (\<lambda>opt. case opt of TLS_Credentials tls \<Rightarrow> [tls] | _ \<Rightarrow> []) opts)"

definition auth_of :: "('cert, 'pool) dial_option list \<Rightarrow> (string \<times> string) list" where
  "auth_of opts = concat (map (\<lambda>opt. case opt of Unary_Interceptor md \<Rightarrow> [md] | Stream_Interceptor md \<Rightarrow> [md] | _ \<Rightarrow> []) opts)"

definition cert_ok ::
  "('cert, 'pool) x509 \<Rightarrow> client_config \<Rightarrow> sys \<Rightarrow> ('cert, 'pool) tls_config \<Rightarrow> bool"
where
  "cert_ok x cfg s tls \<longleftrightarrow>
     (case tls_certificates tls of
        [] \<Rightarrow> cc_tlsCert cfg = [] \<or> cc_tlsKey cfg = []
      | [cert] \<Rightarrow> \<exists>c k. sys_files s (cc_tlsCert cfg) = Some c \<and> sys_files s (cc_tlsKey cfg) = Some k
          \<and> x509_key_pair x (f_data c) (f_data k) = Inr cert
      | _ \<Rightarrow> False)"

definition roots_ok ::
  "('cert, 'pool) x509 \<Rightarrow> client_config \<Rightarrow> sys \<Rightarrow> ('cert, 'pool) tls_config \<Rightarrow> bool"
where
  "roots_ok x cfg s tls \<longleftrightarrow>
     (case tls_rootCAs tls of
        None \<Rightarrow> cc_tlsCA cfg = []
      | Some pool \<Rightarrow> cc_tlsCA cfg \<noteq> []
          \<and> (\<exists>f. sys_files s (cc_tlsCA cfg) = Some f \<and> x509_append_pem x (f_data f) = Some pool))"

lemma read_file_Inr: "read_file p s = (Inr data, t) \<Longrightarrow> sys_files t = sys_files s \<and> (\<exists>f. sys_files s p = Some f \<and> f_data f = data)"
  by (auto simp: read_file_def split: if_splits option.splits)

lemma tls_certificate_ok:
  assumes "tls_certificate x cfg s = (Inr tls, t)"
  shows "cert_ok x cfg s tls \<and> tls_rootCAs tls = None \<and> sys_files t = sys_files s"
  using assms
  by (auto simp: tls_certificate_def load_key_pair_def cert_ok_def Let_def
      split: if_splits prod.splits sum.splits dest!: read_file_Inr)

lemma tls_roots_ok:
  assumes "tls_roots x cfg tls s = (Inr tls', t)" and "tls_rootCAs tls = None"
  shows "roots_ok x cfg s tls' \<and> tls_certificates tls' = tls_certificates tls"
  using assms
  by (auto simp: tls_roots_def roots_ok_def split: if_splits prod.splits sum.splits option.splits dest!: read_file_Inr)

text \<open>
  C17: how a connection is secured. When \<open>dialOptions\<close> succeeds, the connection is in plain text
  exactly when no certificate, key or CA is configured and TLS is off (so a CA file turns TLS on
  even for a \<open>grpc\<close> target), and has exactly one TLS configuration otherwise. That one holds the pool
  of the CA file if one is configured, and no other; it presents the configured certificate if both
  certificate and key are given, and none if only one of them is. The authorization pair is
  attached to unary and stream calls alike, when both its parts are set.
\<close>

theorem dial_transport:
  assumes "dial_options x cfg s = (Inr opts, t)"
  shows "(insecure opts \<longleftrightarrow> cc_tlsCert cfg = [] \<and> cc_tlsKey cfg = [] \<and> cc_tlsCA cfg = [] \<and> \<not> cc_tls cfg)
    \<and> (if insecure opts then tls_of opts = []
       else \<exists>tls. tls_of opts = [tls]
         \<and> roots_ok x cfg s tls \<and> cert_ok x cfg s tls)
    \<and> auth_of opts = (if cc_authHeader cfg \<noteq> [] \<and> cc_authToken cfg \<noteq> []
         then [(cc_authHeader cfg, cc_authToken cfg), (cc_authHeader cfg, cc_authToken cfg)] else [])"
proof -
  show ?thesis
  proof (cases "cc_tlsCert cfg = [] \<and> cc_tlsKey cfg = [] \<and> cc_tlsCA cfg = [] \<and> \<not> cc_tls cfg")
    case True
    then show ?thesis using assms by (auto simp: dial_options_def Let_def insecure_def tls_of_def auth_of_def)
  next
    case False
    then obtain tls1 s1 tls s2 where c: "tls_certificate x cfg s = (Inr tls1, s1)" and r: "tls_roots x cfg tls1 s1 = (Inr tls, s2)"
      and opts: "opts = Max_Call_Sizes max_grpc_message_size max_grpc_message_size # Keepalive (30 * second) (10 * second) True
        # (if cc_authHeader cfg \<noteq> [] \<and> cc_authToken cfg \<noteq> []
           then [Unary_Interceptor (cc_authHeader cfg, cc_authToken cfg), Stream_Interceptor (cc_authHeader cfg, cc_authToken cfg)]
           else []) @ [TLS_Credentials tls]"
      using assms by (auto simp: dial_options_def Let_def split: prod.splits sum.splits if_splits)
    have "roots_ok x cfg s tls" "cert_ok x cfg s tls"
      using tls_certificate_ok [OF c] tls_roots_ok [OF r]
      by (simp_all add: roots_ok_def cert_ok_def cong: option.case_cong)
    moreover have "\<not> insecure opts" "tls_of opts = [tls]"
      by (auto simp: opts insecure_def tls_of_def)
    moreover have "auth_of opts = (if cc_authHeader cfg \<noteq> [] \<and> cc_authToken cfg \<noteq> []
         then [(cc_authHeader cfg, cc_authToken cfg), (cc_authHeader cfg, cc_authToken cfg)] else [])"
      by (simp add: opts auth_of_def)
    ultimately show ?thesis using False by auto
  qed
qed

text \<open>A target without TLS, with a CA file and a certificate that lacks its key.\<close>

definition example_client_config :: client_config where
  "example_client_config =
     \<lparr>cc_target = ''grpc://c'', cc_instanceName = [], cc_tlsCert = ''/cert'', cc_tlsKey = [], cc_tlsCA = ''/ca'',
      cc_connectTimeout = 0, cc_requestTimeout = 0, cc_maxBatchSize = 0, cc_tls = False,
      cc_authHeader = ''k'', cc_authToken = ''t''\<rparr>"

definition example_x509 :: "(unit, bytes) x509" where
  "example_x509 = \<lparr>x509_key_pair = (\<lambda>c k. Inr ()), x509_append_pem = Some\<rparr>"

definition example_certs :: sys where
  "example_certs =
     \<lparr>sys_files = [''/ca'' \<mapsto> \<lparr>f_data = [1], f_mtime = 0\<rparr>], sys_dirs = {}, sys_fault = (\<lambda>_. None),
      sys_clock = (\<lambda>_. 0), sys_rand = (\<lambda>_. 0), sys_calls = 0\<rparr>"

theorem dial_transport_witness:
  "\<exists>opts t tls. dial_options example_x509 example_client_config example_certs = (Inr opts, t)
     \<and> \<not> insecure opts \<and> tls_of opts = [tls] \<and> tls_certificates tls = [] \<and> tls_rootCAs tls = Some [1]"
proof -
  obtain opts t where "dial_options example_x509 example_client_config example_certs = (Inr opts, t)"
    by (simp add: dial_options_def Let_def example_client_config_def tls_certificate_def tls_roots_def read_file_def
        faulty_def example_certs_def example_x509_def)
  note d = this dial_transport [OF this]
  then obtain tls where "\<not> insecure opts" "tls_of opts = [tls]" "roots_ok example_x509 example_client_config example_certs tls"
    "cert_ok example_x509 example_client_config example_certs tls"
    by (auto simp: example_client_config_def split: if_splits)
  then show ?thesis using d(1)
    by (auto simp: roots_ok_def cert_ok_def example_client_config_def example_certs_def example_x509_def
        split: option.splits list.splits)
qed

end
