(* ===== verification/Run.thy ===== *)
theory Run
  imports Frame Serving "HOL-Library.Multiset" "HOL-Library.Sublist"
begin

text \<open>
  \<open>Handler.Run\<close> of \<open>internal/handler/handler.go\<close>: one goroutine reads requests into a bounded channel,
  the workers take them from there, handle them and write the responses, and a \<open>close\<close> request is
  answered last, by the reading goroutine itself. The goroutines interleave in any order. A handler
  call is one step here; the theory \<open>Concurrent\<close> interleaves the steps inside the calls.
\<close>

subsection \<open>The loop\<close>

text \<open>Where the reading goroutine is: \<open>Waiting\<close> is \<open>wg.Wait\<close>, with the close request if there is one.\<close>

datatype main = Reading | Sending request | Waiting "request option" | Returned | Panicked

datatype worker = Idle | Busy request | Answering request response | Exited

text \<open>
  \<open>rn_received\<close> and \<open>rn_answered\<close> are the history of the loop: the requests read so far, and the
  requests whose response was handed to the writer.
\<close>

record 'v run =
  rn_main :: main
  rn_input :: reader
  rn_channel :: "request list"
  rn_closed :: bool
  rn_workers :: "worker list"
  rn_node :: "'v node"
  rn_output :: string
  rn_received :: "request list"
  rn_answered :: "(request \<times> response) list"

text \<open>
  Up to the reading loop: the handshake, the channel (\<open>make\<close> panics for a negative capacity) and the
  workers.
\<close>

definition start_run :: "err option \<Rightarrow> reader \<Rightarrow> int \<Rightarrow> 'v node \<Rightarrow> 'v run" where
  "start_run fault input k n =
     (case write_response fault handshake [] of
        (e, out) \<Rightarrow>
          \<lparr>rn_main = (if e \<noteq> None then Returned else if k < 0 then Panicked else Reading), rn_input = input,
           rn_channel = [], rn_closed = False, rn_workers = (if e \<noteq> None then [] else replicate (nat k) Idle),
           rn_node = n, rn_output = out, rn_received = [], rn_answered = []\<rparr>)"

text \<open>A get may share the response of another get of the same action id.\<close>

definition sharable :: "request list \<Rightarrow> request \<Rightarrow> response option \<Rightarrow> bool" where
  "sharable qs q shared \<longleftrightarrow>
     (case shared of
        None \<Rightarrow> True
      | Some orig \<Rightarrow> \<exists>p \<in> set qs. rq_command p = ''get'' \<and> rq_actionID p = rq_actionID q \<and> rs_id orig = rq_id p)"

text \<open>One step of a worker. An error of the writer is only logged.\<close>

inductive worker_step :: "'v handler \<Rightarrow> ctx \<Rightarrow> worker \<times> 'v run \<Rightarrow> worker \<times> 'v run \<Rightarrow> bool" for h ctx where
  take: "rn_channel s = q # qs \<Longrightarrow> worker_step h ctx (Idle, s) (Busy q, s\<lparr>rn_channel := qs\<rparr>)"
| leave: "rn_channel s = [] \<Longrightarrow> rn_closed s \<Longrightarrow> worker_step h ctx (Idle, s) (Exited, s)"
| answer: "sharable (rn_received s) q shared \<Longrightarrow> handle h ctx shared order q (rn_node s) = Some (r, n) \<Longrightarrow>
    worker_step h ctx (Busy q, s) (Answering q r, s\<lparr>rn_node := n\<rparr>)"
| panic: "sharable (rn_received s) q shared \<Longrightarrow> handle h ctx shared order q (rn_node s) = None \<Longrightarrow>
    worker_step h ctx (Busy q, s) (Busy q, s\<lparr>rn_main := Panicked\<rparr>)"
| respond: "write_response fault r (rn_output s) = (e, out) \<Longrightarrow>
    worker_step h ctx (Answering q r, s) (Idle, s\<lparr>rn_output := out, rn_answered := rn_answered s @ [(q, r)]\<rparr>)"

definition alive :: "'v run \<Rightarrow> bool" where
  "alive s \<longleftrightarrow> rn_main s \<noteq> Returned \<and> rn_main s \<noteq> Panicked"

text \<open>The order in which \<open>Trim\<close> ranges over the index: some enumeration of its keys.\<close>

definition enumerates :: "string list \<Rightarrow> 'v node \<Rightarrow> bool" where
  "enumerates order n \<longleftrightarrow> distinct order \<and> set order = keys n"

inductive run_step :: "'v handler \<Rightarrow> ctx \<Rightarrow> 'v run \<Rightarrow> 'v run \<Rightarrow> bool" for h ctx where
  read: "rn_main s = Reading \<Longrightarrow> read_request (rn_input s) = (Inr q, input) \<Longrightarrow> rq_command q \<noteq> ''close'' \<Longrightarrow>
    run_step h ctx s (s\<lparr>rn_main := Sending q, rn_input := input, rn_received := rn_received s @ [q]\<rparr>)"
| read_close: "rn_main s = Reading \<Longrightarrow> read_request (rn_input s) = (Inr q, input) \<Longrightarrow> rq_command q = ''close'' \<Longrightarrow>
    run_step h ctx s (s\<lparr>rn_main := Waiting (Some q), rn_input := input, rn_closed := True,
      rn_received := rn_received s @ [q]\<rparr>)"
| read_end: "rn_main s = Reading \<Longrightarrow> read_request (rn_input s) = (Inl e, input) \<Longrightarrow>
    run_step h ctx s (s\<lparr>rn_main := Waiting None, rn_input := input, rn_closed := True\<rparr>)"
| send: "rn_main s = Sending q \<Longrightarrow> length (rn_channel s) < 2 * length (rn_workers s) \<Longrightarrow>
    run_step h ctx s (s\<lparr>rn_main := Reading, rn_channel := rn_channel s @ [q]\<rparr>)"
| worker: "alive s \<Longrightarrow> i < length (rn_workers s) \<Longrightarrow> worker_step h ctx (rn_workers s ! i, s) (w, s') \<Longrightarrow>
    run_step h ctx s (s'\<lparr>rn_workers := (rn_workers s)[i := w]\<rparr>)"
| upload: "alive s \<Longrightarrow> h_client h \<noteq> None \<Longrightarrow> i < length (n_tasks (rn_node s)) \<Longrightarrow>
    run_step h ctx s (s\<lparr>rn_node := run_task h i (rn_node s)\<rparr>)"
| finish: "rn_main s = Waiting None \<Longrightarrow> list_all (\<lambda>w. w = Exited) (rn_workers s) \<Longrightarrow>
    run_step h ctx s (s\<lparr>rn_main := Returned\<rparr>)"
| finish_close: "rn_main s = Waiting (Some q) \<Longrightarrow> list_all (\<lambda>w. w = Exited) (rn_workers s) \<Longrightarrow>
    enumerates order (rn_node s) \<Longrightarrow> handle h ctx None order q (rn_node s) = Some (r, n) \<Longrightarrow>
    write_response fault r (rn_output s) = (e, out) \<Longrightarrow>
    run_step h ctx s (s\<lparr>rn_main := Returned, rn_node := n, rn_output := out,
      rn_answered := rn_answered s @ [(q, r)]\<rparr>)"
| panic_close: "rn_main s = Waiting (Some q) \<Longrightarrow> list_all (\<lambda>w. w = Exited) (rn_workers s) \<Longrightarrow>
    enumerates order (rn_node s) \<Longrightarrow> handle h ctx None order q (rn_node s) = None \<Longrightarrow>
    run_step h ctx s (s\<lparr>rn_main := Panicked\<rparr>)"

inductive_cases worker_stepE: "worker_step h ctx (w, s) (w', s')"
inductive_cases run_stepE: "run_step h ctx s s'"

inductive_simps worker_exited [simp]: "worker_step h ctx (Exited, s) ws"
inductive_simps worker_idle: "worker_step h ctx (Idle, s) ws"

abbreviation runs :: "'v handler \<Rightarrow> ctx \<Rightarrow> 'v run \<Rightarrow> 'v run \<Rightarrow> bool" where
  "runs h ctx \<equiv> (run_step h ctx)\<^sup>*\<^sup>*"

subsection \<open>Every request is somewhere\<close>

fun held :: "worker \<Rightarrow> request multiset" where
  "held (Busy q) = {#q#}"
| "held (Answering q r) = {#q#}"
| "held w = {#}"

fun main_held :: "main \<Rightarrow> request multiset" where
  "main_held (Sending q) = {#q#}"
| "main_held (Waiting (Some q)) = {#q#}"
| "main_held m = {#}"

definition whereabouts :: "'v run \<Rightarrow> request multiset" where
  "whereabouts s = main_held (rn_main s) + mset (rn_channel s) + sum_list (map held (rn_workers s))
     + mset (map fst (rn_answered s))"

lemma sum_list_map_update:
  fixes f :: "'a \<Rightarrow> 'b::comm_monoid_add"
  shows "i < length ws \<Longrightarrow> sum_list (map f (ws[i := w])) + f (ws ! i) = sum_list (map f ws) + f w"
  by (induction ws arbitrary: i) (auto simp: ac_simps split: nat.split)

text \<open>What a worker's step does to the rest of the state.\<close>

lemma worker_step_frame:
  assumes "worker_step h ctx (w, s) (w', s')"
  shows "rn_workers s' = rn_workers s" and "rn_input s' = rn_input s" and "rn_closed s' = rn_closed s"
    and "rn_received s' = rn_received s" and "rn_main s' = rn_main s \<or> rn_main s' = Panicked"
    and "length (rn_channel s') \<le> length (rn_channel s)" and "w' = Exited \<Longrightarrow> rn_channel s' = [] \<and> rn_closed s'"
    and "rn_channel s = [] \<Longrightarrow> rn_channel s' = []"
    and "held w' + mset (rn_channel s') + mset (map fst (rn_answered s'))
      = held w + mset (rn_channel s) + mset (map fst (rn_answered s))"
  using assms by (auto elim!: worker_stepE)

lemma worker_whereabouts:
  assumes "worker_step h ctx (rn_workers s ! i, s) (w, s')" and "i < length (rn_workers s)" and "rn_main s' = rn_main s"
  shows "whereabouts (s'\<lparr>rn_workers := (rn_workers s)[i := w]\<rparr>) = whereabouts s"
proof -
  let ?W = "sum_list (map held (rn_workers s))" and ?W' = "sum_list (map held ((rn_workers s)[i := w]))"
  let ?A = "mset (rn_channel s) + mset (map fst (rn_answered s))" and ?A' = "mset (rn_channel s') + mset (map fst (rn_answered s'))"
  have "?W' + held (rn_workers s ! i) = ?W + held w" by (rule sum_list_map_update [OF assms(2)])
  moreover have "held w + ?A' = held (rn_workers s ! i) + ?A"
    using worker_step_frame(9) [OF assms(1)] by (simp add: ac_simps)
  ultimately have "?W' + held (rn_workers s ! i) + (held w + ?A') = ?W + held w + (held (rn_workers s ! i) + ?A)" by simp
  then have "?W' + ?A' = ?W + ?A" by (simp add: ac_simps)
  then show ?thesis using assms(3) by (simp add: whereabouts_def ac_simps)
qed

subsection \<open>The invariant of the loop\<close>

text \<open>Every response goes to the request it answers.\<close>

definition matched :: "request \<times> response \<Rightarrow> bool" where
  "matched qr \<longleftrightarrow> rs_id (snd qr) = rq_id (fst qr)"

fun worker_matched :: "worker \<Rightarrow> bool" where
  "worker_matched (Answering q r) = matched (q, r)"
| "worker_matched w = True"

definition is_close :: "request \<Rightarrow> bool" where
  "is_close q \<longleftrightarrow> rq_command q = ''close''"

definition run_ok :: "'v run \<Rightarrow> bool" where
  "run_ok s \<longleftrightarrow>
     (rn_main s \<noteq> Panicked \<longrightarrow> mset (rn_received s) = whereabouts s)
     \<and> list_all matched (rn_answered s) \<and> list_all worker_matched (rn_workers s)
     \<and> (Exited \<in> set (rn_workers s) \<longrightarrow> rn_channel s = [] \<and> rn_closed s)
     \<and> length (rn_channel s) \<le> 2 * length (rn_workers s)
     \<and> (case rn_main s of
          Reading \<Rightarrow> \<not> rn_closed s \<and> \<not> list_ex is_close (rn_received s)
        | Sending q \<Rightarrow> \<not> rn_closed s \<and> \<not> list_ex is_close (rn_received s)
        | Waiting None \<Rightarrow> rn_closed s \<and> \<not> list_ex is_close (rn_received s)
        | Waiting (Some q) \<Rightarrow> rn_closed s \<and> is_close q \<and> rn_received s \<noteq> [] \<and> last (rn_received s) = q
            \<and> \<not> list_ex is_close (butlast (rn_received s))
        | Returned \<Rightarrow> rn_channel s = [] \<and> list_all (\<lambda>w. w = Exited) (rn_workers s)
        | Panicked \<Rightarrow> True)"

lemma handle_matched: "handle h ctx shared order q n = Some (r, n') \<Longrightarrow> matched (q, r)"
proof -
  assume hd: "handle h ctx shared order q n = Some (r, n')"
  have "rs_id r = rq_id q" if "lookup_remote h ctx shared q a n0 = Some (r, n')" for a n0
    using that by (auto simp: lookup_remote_def copy_response_def split: option.splits)
  then have "handle_get h ctx shared q n = Some (r, n') \<Longrightarrow> rs_id r = rq_id q"
    by (auto simp: handle_get_def Let_def refill_from_cas_def split: option.splits sum.splits bool.splits)
  moreover have "handle_put h q n = Some (r, n') \<Longrightarrow> rs_id r = rq_id q"
    by (auto simp: handle_put_def Let_def put_error_def split: sum.splits prod.splits option.splits if_splits)
  ultimately show ?thesis
    using hd by (auto simp: handle_def matched_def handle_close_def Let_def split: if_splits option.splits)
qed

lemma worker_step_matched:
  assumes "worker_step h ctx (w, s) (w', s')" and "worker_matched w" and "list_all matched (rn_answered s)"
  shows "worker_matched w' \<and> list_all matched (rn_answered s')"
  using assms by (auto elim!: worker_stepE dest: handle_matched)

lemma start_run_ok: "run_ok (start_run fault input k n)"
proof -
  have "sum_list (map held (replicate j Idle)) = {#}" for j by (induction j) auto
  then show ?thesis
    by (auto simp: start_run_def run_ok_def whereabouts_def list_all_iff split: prod.splits)
qed

lemma exited_whereabouts: "list_all (\<lambda>w. w = Exited) ws \<Longrightarrow> sum_list (map held ws) = {#}"
  by (induction ws) auto

lemma exited_channel: "run_ok s \<Longrightarrow> list_all (\<lambda>w. w = Exited) (rn_workers s) \<Longrightarrow> rn_channel s = []"
  by (cases "rn_workers s") (auto simp: run_ok_def)

lemma worker_run_ok:
  assumes "run_ok s" and "alive s" and "i < length (rn_workers s)"
    and step: "worker_step h ctx (rn_workers s ! i, s) (w, s')"
  shows "run_ok (s'\<lparr>rn_workers := (rn_workers s)[i := w]\<rparr>)"
proof -
  note f = worker_step_frame [OF step]
  have all: "list_all worker_matched (rn_workers s)" "list_all matched (rn_answered s)"
    using assms(1) by (simp_all add: run_ok_def)
  then have m: "worker_matched w" "list_all matched (rn_answered s')"
    using worker_step_matched [OF step] assms(3) by (simp_all add: list_all_length)
  have ws: "list_all worker_matched ((rn_workers s)[i := w])"
    using all(1) m(1) set_update_subset_insert [of "rn_workers s" i w] by (auto simp: list_all_iff)
  have ex: "Exited \<in> set ((rn_workers s)[i := w]) \<longrightarrow> rn_channel s' = [] \<and> rn_closed s'"
    using f(3, 7, 8) assms(1) set_update_subset_insert [of "rn_workers s" i w] by (auto simp: run_ok_def)
  have len: "length (rn_channel s') \<le> 2 * length (rn_workers s)" using assms(1) f(6) by (simp add: run_ok_def)
  consider "rn_main s' = rn_main s" | "rn_main s' = Panicked" using f(5) by blast
  then show ?thesis
  proof cases
    case 1
    from worker_whereabouts [OF step assms(3) 1] assms(1, 2) 1 f(3, 4) m ws ex len show ?thesis
      by (auto simp: run_ok_def alive_def split: main.splits option.splits)
  next
    case 2
    with m ws ex len show ?thesis by (simp add: run_ok_def)
  qed
qed

lemma run_ok_node [simp]: "run_ok (s\<lparr>rn_node := n\<rparr>) = run_ok s"
  by (auto simp: run_ok_def whereabouts_def split: main.split option.split)

lemma run_step_ok: "run_step h ctx s s' \<Longrightarrow> run_ok s \<Longrightarrow> run_ok s'"
proof (induction rule: run_step.induct)
  case (finish s)
  with exited_channel [OF finish(3, 2)] show ?case by (simp add: run_ok_def whereabouts_def)
next
  case (finish_close s q order r n fault e out)
  with exited_channel [OF finish_close(6, 2)] handle_matched show ?case
    by (simp add: run_ok_def whereabouts_def ac_simps)
next
  case (worker s i w s')
  then show ?case by (simp add: worker_run_ok)
next
  case (upload s i)
  then show ?case by simp
qed (auto simp: run_ok_def whereabouts_def is_close_def butlast_append split: option.splits)

lemma runs_ok: "runs h ctx s s' \<Longrightarrow> run_ok s \<Longrightarrow> run_ok s'"
  by (induction rule: rtranclp_induct) (auto dest: run_step_ok)

text \<open>
  C5: every request is answered once. When \<open>Run\<close> has returned, however its goroutines interleaved, the
  requests that were answered are exactly the requests that were read, each as often as it was read,
  and each response has the id of its request.
\<close>

theorem run_answers_all:
  assumes "runs h ctx (start_run fault input k n) s" and "rn_main s = Returned"
  shows "mset (map fst (rn_answered s)) = mset (rn_received s) \<and> list_all matched (rn_answered s)"
proof -
  have ok: "run_ok s" by (rule runs_ok [OF assms(1) start_run_ok])
  then have "list_all (\<lambda>w. w = Exited) (rn_workers s)" using assms(2) by (simp add: run_ok_def)
  from exited_whereabouts [OF this] ok assms(2) show ?thesis by (auto simp: run_ok_def whereabouts_def)
qed

subsection \<open>Closing\<close>

lemma evict_pinned: "evict a dc s = Some (dc', t) \<Longrightarrow> dc_pinned dc' = dc_pinned dc"
  by (auto simp: evict_def Let_def split: option.splits if_splits)

lemma evict_all_pinned: "evict_all order dc s = Some (dc', t) \<Longrightarrow> dc_pinned dc' = dc_pinned dc"
  by (induction order arbitrary: dc s) (auto dest: evict_pinned split: option.splits)

lemma trim_pinned: "trim order dc s = Some (dc', t) \<Longrightarrow> dc_pinned dc' = dc_pinned dc"
  using evict_all_pinned by (fastforce simp: trim_def Let_def split: if_splits prod.splits option.splits)

lemma run_task_tasks:
  "h_client h = Some c \<Longrightarrow> i < length (n_tasks n) \<Longrightarrow> n_tasks (run_task h i n) = take i (n_tasks n) @ drop (Suc i) (n_tasks n)"
  by (auto simp: run_task_def remote_populate_def on_world_def split: prod.splits sum.splits)

lemma wait_remote_tasks: "h_client h = Some c \<Longrightarrow> n_tasks (wait_remote h n) = []"
proof -
  assume c: "h_client h = Some c"
  have "length (n_tasks n) = k \<Longrightarrow> n_tasks ((run_task h 0 ^^ k) n) = []" for k
  proof (induction k arbitrary: n)
    case (Suc k)
    then have "length (n_tasks (run_task h 0 n)) = k" using run_task_tasks [OF c, of 0 n] by simp
    from Suc.IH [OF this] show ?case by (simp add: funpow_swap1)
  qed simp
  then show ?thesis by (simp add: wait_remote_def)
qed

text \<open>No upload is under way, no entry is pinned, and the connection is closed.\<close>

definition shut_down :: "'v handler \<Rightarrow> 'v node \<Rightarrow> bool" where
  "shut_down h n \<longleftrightarrow> dc_pinned (n_cache n) = {} \<and> (h_client h \<noteq> None \<longrightarrow> n_tasks n = [] \<and> n_closed n)"

lemma handle_close_shut_down: "handle_close h order q n = Some (r, n') \<Longrightarrow> shut_down h n'"
  using wait_remote_tasks [of h _ n] trim_pinned
  by (fastforce simp: handle_close_def Let_def shut_down_def update_cache_def unpin_all_def split: option.splits if_splits)

lemma worker_main: "worker_step h ctx ws (w, s') \<Longrightarrow> rn_main s' = rn_main (snd ws) \<or> rn_main s' = Panicked"
  using worker_step_frame(5) [of h ctx "fst ws" "snd ws" w s'] by simp

text \<open>
  C7: a close request ends the loop. Once \<open>Run\<close> has returned after reading a close request, that request
  is the last one read and the only close request, it was answered last, after the response of every
  other request, and by then all uploads had ended, nothing was pinned, and the connection was closed.
\<close>

theorem close_is_last:
  assumes "runs h ctx (start_run fault input k n) s" and "rn_main s = Returned"
    and "q \<in> set (rn_received s)" and "is_close q"
  shows "last (rn_received s) = q \<and> filter is_close (rn_received s) = [q] \<and> fst (last (rn_answered s)) = q
    \<and> shut_down h (rn_node s)"
  using assms(1)
proof (cases rule: rtranclp.cases)
  case rtrancl_refl
  with assms(3) show ?thesis by (simp add: start_run_def split: prod.splits)
next
  case (rtrancl_into_rtrancl s1)
  have ok: "run_ok s1" by (rule runs_ok [OF rtrancl_into_rtrancl(1) start_run_ok])
  from rtrancl_into_rtrancl(2) show ?thesis
  proof cases
    case finish
    with ok assms(3, 4) show ?thesis by (auto simp: run_ok_def list_ex_iff)
  next
    case (finish_close p order r n' fault' e out)
    have close: "is_close p" "last (rn_received s1) = p" "rn_received s1 \<noteq> []" "\<not> list_ex is_close (butlast (rn_received s1))"
      using ok finish_close(2) by (simp_all add: run_ok_def)
    then obtain ps where ps: "rn_received s1 = ps @ [p]" by (metis append_butlast_last_id)
    with close(4) assms(3, 4) finish_close(1) have "p = q" by (auto simp: list_ex_iff)
    moreover have "filter is_close ps = []" using close(4) ps by (simp add: list_ex_iff filter_empty_conv)
    moreover have "shut_down h n'"
      using finish_close(5) close(1) handle_close_shut_down by (simp add: handle_def is_close_def)
    ultimately show ?thesis using finish_close(1) ps close(1) by simp
  qed (use assms(2) worker_main in \<open>fastforce simp: alive_def\<close>)+
qed

subsection \<open>The loop ends\<close>

lemma scan_non_empty_input:
  "length (rd_input (snd (scan_non_empty r))) + (if fst (scan_non_empty r) = None then 0 else 1) \<le> length (rd_input r)"
proof (induction r rule: scan_non_empty.induct)
  case (1 r)
  obtain x r1 where sc: "scan_line r = (x, r1)" by (cases "scan_line r")
  have le: "length (rd_input r1) \<le> length (rd_input r)"
    using sc scan_line_shorter [of r _ r1] by (cases x) (auto simp: scan_line_def split: prod.splits if_splits)
  show ?case
  proof (cases x)
    case (Some l)
    then have "length (rd_input r1) < length (rd_input r)" using sc scan_line_shorter by blast
    with 1 [OF sc [symmetric] Some] sc Some show ?thesis by (subst (1 2) scan_non_empty.simps) (auto split: if_splits)
  qed (use sc le in \<open>simp add: scan_non_empty.simps [of r]\<close>)
qed

lemma read_request_input:
  assumes "read_request r = (x, r')"
  shows "length (rd_input r') + (if isl x then 0 else 1) \<le> length (rd_input r)"
proof -
  obtain y r1 where s1: "scan_non_empty r = (y, r1)" by (cases "scan_non_empty r")
  obtain z r2 where s2: "scan_non_empty r1 = (z, r2)" by (cases "scan_non_empty r1")
  have "length (rd_input r1) + (if y = None then 0 else 1) \<le> length (rd_input r)"
    "length (rd_input r2) \<le> length (rd_input r1)"
    using scan_non_empty_input [of r] scan_non_empty_input [of r1] s1 s2 by auto
  with assms s1 s2 show ?thesis
    by (auto simp: read_request_def Let_def split: option.splits sum.splits if_splits)
qed

lemma run_task_frame [simp]: "n_cache (run_task h i n) = n_cache n" "length (n_tasks (run_task h i n)) \<le> length (n_tasks n)"
  by (auto simp: run_task_def remote_populate_def on_world_def split: option.splits prod.splits sum.splits)

lemma wait_remote_frame: "n_cache (wait_remote h n) = n_cache n \<and> length (n_tasks (wait_remote h n)) \<le> length (n_tasks n)"
proof -
  have "n_cache ((run_task h 0 ^^ k) n) = n_cache n \<and> length (n_tasks ((run_task h 0 ^^ k) n)) \<le> length (n_tasks n)" for k
    by (induction k) (auto intro: le_trans [OF run_task_frame(2)])
  then show ?thesis by (simp add: wait_remote_def)
qed

lemma evict_keys: "evict a dc s = Some (dc', t) \<Longrightarrow> dom (dc_entries dc') = dom (dc_entries dc)"
  by (auto simp: evict_def Let_def split: option.splits if_splits)

lemma evict_all_keys: "evict_all order dc s = Some (dc', t) \<Longrightarrow> dom (dc_entries dc') = dom (dc_entries dc)"
  by (induction order arbitrary: dc s) (auto dest: evict_keys iff del: domIff split: option.splits)

lemma trim_keys: "trim order dc s = Some (dc', t) \<Longrightarrow> dom (dc_entries dc') = dom (dc_entries dc)"
  using evict_all_keys by (fastforce simp: trim_def Let_def split: if_splits prod.splits option.splits)

lemma handle_frame:
  assumes "handle h ctx shared order q n = Some (r, n')"
  shows "keys n' \<subseteq> insert (hex_encode (rq_actionID q)) (keys n) \<and> length (n_tasks n') \<le> Suc (length (n_tasks n))"
proof -
  let ?a = "hex_encode (rq_actionID q)"
  have get: ?thesis if "handle_get h ctx shared q n = Some (r, n')"
    using index.get_step [OF that refl] by (simp add: index_frame_def)
  have put: ?thesis if p: "handle_put h q n = Some (r, n')"
  proof -
    obtain n1 where "index_frame ?a n n1" "n' = n1 \<or> (\<exists>t. n' = n1\<lparr>n_tasks := n_tasks n1 @ [t]\<rparr>)"
      using index.put_step [OF p refl] by blast
    then show ?thesis by (auto simp: index_frame_def iff del: domIff)
  qed
  have close: ?thesis if "handle_close h order q n = Some (r, n')"
    using that wait_remote_frame [of h n] trim_keys
    by (fastforce simp: handle_close_def Let_def update_cache_def unpin_all_def split: option.splits if_splits)
  show ?thesis using assms get put close by (auto simp: handle_def split: if_splits)
qed

text \<open>The work that is left: for each byte of input, each request on its way, and each upload.\<close>

fun main_work :: "main \<Rightarrow> nat" where
  "main_work Reading = 3"
| "main_work (Sending q) = 10"
| "main_work (Waiting x) = 2"
| "main_work m = 0"

fun worker_work :: "worker \<Rightarrow> nat" where
  "worker_work Idle = 1"
| "worker_work (Busy q) = 6"
| "worker_work (Answering q r) = 4"
| "worker_work Exited = 0"

definition work_left :: "'v run \<Rightarrow> nat" where
  "work_left s = 8 * length (rd_input (rn_input s)) + main_work (rn_main s) + 6 * length (rn_channel s)
     + sum_list (map worker_work (rn_workers s)) + length (n_tasks (rn_node s))"

lemma alive_work: "alive s \<Longrightarrow> 2 \<le> main_work (rn_main s)"
  by (cases "rn_main s") (simp_all add: alive_def)

lemma worker_step_work:
  assumes "worker_step h ctx (w, s) (w', s')" and "alive s"
  shows "worker_work w' + main_work (rn_main s') + 6 * length (rn_channel s') + length (n_tasks (rn_node s'))
    < worker_work w + main_work (rn_main s) + 6 * length (rn_channel s) + length (n_tasks (rn_node s))"
  using assms(1)
proof (rule worker_stepE)
  fix q shared order r n
  assume "w = Busy q" "w' = Answering q r" "s' = s\<lparr>rn_node := n\<rparr>" "handle h ctx shared order q (rn_node s) = Some (r, n)"
  with handle_frame [of h ctx shared order q "rn_node s" r n] show ?thesis by simp
qed (use alive_work [OF assms(2)] in auto)

lemma run_step_work: "run_step h ctx s s' \<Longrightarrow> work_left s' < work_left s"
proof (induction rule: run_step.induct)
  case (read s q input)
  with read_request_input [OF read(2)] show ?case by (simp add: work_left_def)
next
  case (read_close s q input)
  with read_request_input [OF read_close(2)] show ?case by (simp add: work_left_def)
next
  case (read_end s e input)
  with read_request_input [OF read_end(2)] show ?case by (simp add: work_left_def)
next
  case (worker s i w s')
  have "sum_list (map worker_work ((rn_workers s)[i := w])) + worker_work (rn_workers s ! i)
      = sum_list (map worker_work (rn_workers s)) + worker_work w"
    by (rule sum_list_map_update [OF worker(2)])
  with worker_step_work [OF worker(3, 1)] worker_step_frame(2) [OF worker(3)] show ?case
    by (simp add: work_left_def)
next
  case (upload s i)
  then obtain c where "h_client h = Some c" by blast
  with upload(3) run_task_tasks [of h c i "rn_node s"] show ?case by (simp add: work_left_def)
next
  case (finish_close s q order r n fault e out)
  with handle_frame [OF finish_close(4)] show ?case by (simp add: work_left_def)
qed (simp_all add: work_left_def)

lemma run_length: "(run_step h ctx ^^ j) s s' \<Longrightarrow> j + work_left s' \<le> work_left s"
proof (induction j arbitrary: s')
  case (Suc j)
  then obtain s1 where "(run_step h ctx ^^ j) s s1" "run_step h ctx s1 s'" by auto
  with Suc.IH [of s1] run_step_work [of h ctx s1 s'] show ?case by simp
qed simp

text \<open>A loop that is alive and has a worker can always go on.\<close>

lemma worker_can_step:
  assumes "w \<noteq> Exited" and "w = Idle \<Longrightarrow> rn_channel s = [] \<Longrightarrow> rn_closed s"
  shows "\<exists>w' s'. worker_step h ctx (w, s) (w', s')"
proof (cases w)
  case Idle
  then show ?thesis using assms(2) by (cases "rn_channel s") (auto intro: worker_step.intros)
next
  case (Busy q)
  have "sharable (rn_received s) q None" by (simp add: sharable_def)
  then show ?thesis
    using Busy by (cases "handle h ctx None [] q (rn_node s)") (auto intro: worker_step.intros)
next
  case (Answering q r)
  obtain e out where "write_response None r (rn_output s) = (e, out)" by fastforce
  then show ?thesis using Answering by (auto intro: worker_step.intros)
qed (use assms(1) in simp)

lemma finite_keys_step: "run_step h ctx s s' \<Longrightarrow> finite (keys (rn_node s)) \<Longrightarrow> finite (keys (rn_node s'))"
proof (induction rule: run_step.induct)
  case (worker s i w s')
  have "finite (keys n')" if "handle h ctx shared order q (rn_node s) = Some (r, n')" for shared order q r n'
    using handle_frame [OF that] worker(4) finite_subset by blast
  with worker(3, 4) show ?case by (auto elim!: worker_step.cases iff del: domIff)
next
  case (finish_close s q order r n fault e out)
  with handle_frame [OF finish_close(4)] finite_subset show ?case by (fastforce iff del: domIff)
qed (simp_all del: domIff)

lemma finite_keys: "runs h ctx s s' \<Longrightarrow> finite (keys (rn_node s)) \<Longrightarrow> finite (keys (rn_node s'))"
  by (induction rule: rtranclp_induct) (auto dest: finite_keys_step iff del: domIff)

lemma workers_length: "run_step h ctx s s' \<Longrightarrow> length (rn_workers s') = length (rn_workers s)"
  by (induction rule: run_step.induct) (auto dest: worker_step_frame(1))

lemma run_can_step:
  assumes "run_ok s" and "alive s" and "rn_workers s \<noteq> []" and "finite (keys (rn_node s))"
  shows "\<exists>s'. run_step h ctx s s'"
proof -
  have step: "\<exists>s'. run_step h ctx s s'" if "i < length (rn_workers s)" "rn_workers s ! i \<noteq> Exited"
    "rn_workers s ! i = Idle \<Longrightarrow> rn_channel s = [] \<Longrightarrow> rn_closed s" for i
    using worker_can_step [OF that(2, 3)] run_step.worker [OF assms(2) that(1)] by blast
  show ?thesis
  proof (cases "rn_main s")
    case Reading
    obtain x input where r: "read_request (rn_input s) = (x, input)" by (cases "read_request (rn_input s)")
    then show ?thesis using Reading by (cases x) (blast intro: run_step.read run_step.read_close run_step.read_end)+
  next
    case (Sending q)
    then have open_chan: "Exited \<notin> set (rn_workers s)" using assms(1) by (auto simp: run_ok_def)
    show ?thesis
    proof (cases "length (rn_channel s) < 2 * length (rn_workers s)")
      case True
      with Sending show ?thesis by (blast intro: run_step.send)
    next
      case False
      with assms(3) have "rn_channel s \<noteq> []" by auto
      with step [of 0] assms(3) open_chan show ?thesis by (metis length_greater_0_conv nth_mem)
    qed
  next
    case (Waiting x)
    then have closed: "rn_closed s" using assms(1) by (cases x) (simp_all add: run_ok_def)
    show ?thesis
    proof (cases "list_all (\<lambda>w. w = Exited) (rn_workers s)")
      case False
      with step closed show ?thesis by (auto simp: list_all_length)
    next
      case True
      show ?thesis
      proof (cases x)
        case (Some q)
        obtain order where o: "enumerates order (rn_node s)"
          using finite_distinct_list [OF assms(4)] unfolding enumerates_def by blast
        obtain r n where "handle h ctx None order q (rn_node s) = Some (r, n) \<or> handle h ctx None order q (rn_node s) = None"
          by (cases "handle h ctx None order q (rn_node s)") auto
        moreover obtain e out where "write_response None r (rn_output s) = (e, out)" by fastforce
        ultimately show ?thesis
          using run_step.finish_close [of s q order h ctx r n None e out] run_step.panic_close [of s q order h ctx]
            Waiting Some True o by blast
      qed (use Waiting True in \<open>blast intro: run_step.finish\<close>)
    qed
  qed (use assms(2) in \<open>simp_all add: alive_def\<close>)
qed

lemma step_alive: "run_step h ctx s s' \<Longrightarrow> alive s"
  by (induction rule: run_step.induct) (auto simp: alive_def)

lemma dead_runs: "runs h ctx s s' \<Longrightarrow> \<not> alive s \<Longrightarrow> s' = s"
  by (erule converse_rtranclpE) (auto dest: step_alive)

lemma start_run_fields [simp]:
  "rn_input (start_run fault input k n) = input" "rn_node (start_run fault input k n) = n"
  "rn_channel (start_run fault input k n) = []" "rn_received (start_run fault input k n) = []"
  "rn_answered (start_run fault input k n) = []"
  by (simp_all add: start_run_def split: prod.splits)

lemma runs_workers: "runs h ctx s s' \<Longrightarrow> length (rn_workers s') = length (rn_workers s)"
  by (induction rule: rtranclp_induct) (auto dest: workers_length)

text \<open>
  C6: the loop always ends. Whatever the input and however the goroutines interleave, it takes at most
  eight steps for each byte of input, one for each worker and each upload that was pending, and three
  more; and as long as there is a worker it never blocks: a state from which no step is possible is one
  in which \<open>Run\<close> has returned (or the process has panicked).
\<close>

theorem run_terminates:
  assumes "finite (keys n)" and "0 < k" and "(run_step h ctx ^^ j) (start_run fault input k n) s"
  shows "j \<le> 8 * length (rd_input input) + nat k + length (n_tasks n) + 3
    \<and> ((\<exists>s'. run_step h ctx s s') \<or> rn_main s = Returned \<or> rn_main s = Panicked)"
proof
  let ?s0 = "start_run fault input k n"
  have workers: "rn_workers ?s0 = [] \<or> rn_workers ?s0 = replicate (nat k) Idle" "rn_main ?s0 \<in> {Reading, Returned}"
    using assms(2) by (auto simp: start_run_def split: prod.splits)
  have "sum_list (map worker_work (rn_workers ?s0)) \<le> nat k"
    using workers(1) by (auto simp: sum_list_replicate)
  moreover have "main_work (rn_main ?s0) \<le> 3" using workers(2) by auto
  ultimately have "work_left ?s0 \<le> 8 * length (rd_input input) + nat k + length (n_tasks n) + 3"
    by (simp add: work_left_def)
  with run_length [OF assms(3)] show "j \<le> 8 * length (rd_input input) + nat k + length (n_tasks n) + 3" by simp
  have runs: "runs h ctx ?s0 s" using assms(3) by (rule relpowp_imp_rtranclp)
  show "(\<exists>s'. run_step h ctx s s') \<or> rn_main s = Returned \<or> rn_main s = Panicked"
  proof (cases "alive s")
    case True
    have "rn_workers s \<noteq> []"
    proof
      assume "rn_workers s = []"
      then have "rn_workers ?s0 = []" using runs_workers [OF runs] by simp
      then have "rn_main ?s0 = Returned" using assms(2) by (auto simp: start_run_def split: prod.splits if_splits)
      then have "\<not> alive ?s0" by (simp add: alive_def)
      with dead_runs [OF runs this] True show False by simp
    qed
    with run_can_step [OF runs_ok [OF runs start_run_ok] True] finite_keys [OF runs] assms(1) show ?thesis by simp
  qed (simp add: alive_def)
qed

subsection \<open>Without workers\<close>

text \<open>
  C38: no workers, no answers. \<open>GOCACHE_RBE_WORKERS=0\<close> is accepted, and then the first request that is
  read (other than a close) blocks the loop for ever: the channel has no room and nobody takes from it.
\<close>

theorem no_workers_block:
  assumes "runs h ctx (start_run fault input 0 n) s" and "rn_main s = Sending q" and "runs h ctx s s'"
  shows "rn_main s' = Sending q \<and> rn_answered s' = []"
proof -
  have none: "rn_workers s1 = []" if "runs h ctx (start_run fault input 0 n) s1" for s1
    using runs_workers [OF that] by (auto simp: start_run_def split: prod.splits if_splits)
  have "rn_answered s1 = [] \<or> rn_main s1 = Returned" if "runs h ctx (start_run fault input 0 n) s1" for s1
    using that
  proof (induction rule: rtranclp_induct)
    case (step y z)
    from step.hyps(2) none [OF step.hyps(1)] step.IH show ?case
      by (cases rule: run_step.cases) (auto simp: alive_def)
  qed simp
  then have answered: "rn_answered s = []" using assms(1, 2) by fastforce
  from assms(3) show ?thesis
  proof (induction rule: rtranclp_induct)
    case (step y z)
    have "rn_workers y = []" using none [OF rtranclp_trans [OF assms(1) step.hyps(1)]] .
    with step.hyps(2) step.IH show ?case by (cases rule: run_step.cases) auto
  qed (use assms(2) answered in simp)
qed

subsection \<open>The output\<close>

definition line_of :: "response \<Rightarrow> string" where
  "line_of r = (case encode_response r of Inl e \<Rightarrow> [] | Inr line \<Rightarrow> line)"


text \<open>The lines that were written, in the order of the answers.\<close>

definition whole_lines :: "'v run \<Rightarrow> bool" where
  "whole_lines s \<longleftrightarrow> (\<exists>rs. subseq rs (map snd (rn_answered s)) \<and> rn_output s = line_of handshake @ concat (map line_of rs))"


lemma whole_lines_frame: "rn_output s' = rn_output s \<Longrightarrow> rn_answered s' = rn_answered s \<Longrightarrow> whole_lines s' = whole_lines s"
  by (simp add: whole_lines_def)



end
