(* ===== verification/Lifetime.thy ===== *)
theory Lifetime
  imports Run
begin

text \<open>
  The life of a process: from a sound disk cache, \<open>Run\<close> neither damages the cache nor crashes, and what
  one request has put, the requests that are handled later get, whichever workers handle them.
\<close>

subsection \<open>Requests on their way\<close>





subsection \<open>The process survives\<close>











subsection \<open>What was put is got\<close>













subsection \<open>Examples\<close>

text \<open>A close request alone, with one worker; and a put, up to the moment when the worker has it.\<close>

definition close_3 :: request where
  "close_3 = \<lparr>rq_id = 3, rq_command = ''close'', rq_actionID = [], rq_outputID = [], rq_body = [], rq_bodySize = 0\<rparr>"

lemma start_run_reading:
  "0 \<le> k \<Longrightarrow> start_run None input k n = \<lparr>rn_main = Reading, rn_input = input, rn_channel = [], rn_closed = False,
     rn_workers = replicate (nat k) Idle, rn_node = n, rn_output = line_of handshake, rn_received = [], rn_answered = []\<rparr>"
  by (simp add: start_run_def write_response_def line_of_def encode_response_def handshake_def zero_response_def)

lemma short_lines:
  "length (json_print True (request_json close_3)) < max_line"
  "length (json_print True (JStr (b64_encode (rq_body close_3)))) < max_line"
  "length (json_print True (request_json put_ab12)) < max_line"
  "length (json_print True (JStr (b64_encode (rq_body put_ab12)))) < max_line"
proof -
  have "length (json_print True (request_json close_3)) < 100"
    "length (json_print True (JStr (b64_encode (rq_body close_3)))) < 100"
    "length (json_print True (request_json put_ab12)) < 100"
    "length (json_print True (JStr (b64_encode (rq_body put_ab12)))) < 100" by code_simp+
  then show "length (json_print True (request_json close_3)) < max_line"
    "length (json_print True (JStr (b64_encode (rq_body close_3)))) < max_line"
    "length (json_print True (request_json put_ab12)) < max_line"
    "length (json_print True (JStr (b64_encode (rq_body put_ab12)))) < max_line"
    unfolding max_line_def by linarith+
qed

abbreviation input_of :: "request \<Rightarrow> reader" where
  "input_of q \<equiv> new_reader (request_lines q) None"

lemma read_examples:
  "read_request (input_of close_3) = (Inr close_3, new_reader [] None)"
  "read_request (input_of put_ab12) = (Inr put_ab12, new_reader [] None)"
  using read_request_sent [of close_3 "input_of close_3" "[]"] read_request_sent [of put_ab12 "input_of put_ab12" "[]"] short_lines
  by (simp_all add: wf_request_def close_3_def put_ab12_def in_i64_def has_body_line_def new_reader_def del: json_print.simps)

lemma close_3_command [simp]: "rq_command close_3 = ''close''"
  by (simp add: close_3_def)

lemma close_example: "\<exists>r n. handle local_handler None None [] close_3 local_node = Some (r, n)"
  by (simp add: handle_def close_3_def handle_close_def local_node_def local_handler_def wait_remote_def update_cache_def
      trim_def unpin_all_def empty_cache_def trim_target_def)

abbreviation closing :: "int \<Rightarrow> fake run" where
  "closing k \<equiv> start_run None (input_of close_3) k local_node"

lemma close_run: "\<exists>s. runs local_handler None (closing 1) s \<and> rn_main s = Returned \<and> rn_received s = [close_3]"
proof -
  let ?s0 = "closing 1"
  let ?s1 = "?s0\<lparr>rn_main := Waiting (Some close_3), rn_input := new_reader [] None, rn_closed := True,
    rn_received := rn_received ?s0 @ [close_3]\<rparr>"
  let ?s2 = "?s1\<lparr>rn_workers := [Exited]\<rparr>"
  have s0: "rn_main ?s0 = Reading" "rn_workers ?s0 = [Idle]" by (simp_all add: start_run_reading)
  have "run_step local_handler None ?s0 ?s1"
    by (rule run_step.read_close) (simp_all add: s0 read_examples)
  moreover have "run_step local_handler None ?s1 (?s1\<lparr>rn_workers := (rn_workers ?s1)[0 := Exited]\<rparr>)"
    by (rule run_step.worker) (simp_all add: alive_def s0 worker_idle)
  then have "run_step local_handler None ?s1 ?s2" by (simp add: s0)
  moreover obtain r n e out where r: "handle local_handler None None [] close_3 local_node = Some (r, n)"
    "write_response None r (rn_output ?s2) = (e, out)" using close_example by fastforce
  let ?s3 = "?s2\<lparr>rn_main := Returned, rn_node := n, rn_output := out, rn_answered := rn_answered ?s2 @ [(close_3, r)]\<rparr>"
  have "run_step local_handler None ?s2 ?s3"
    by (rule run_step.finish_close [where order = "[]"])
      (use r in \<open>simp_all add: enumerates_def local_node_def empty_cache_def\<close>)
  ultimately have "runs local_handler None ?s0 ?s3"
    by (meson converse_rtranclp_into_rtranclp r_into_rtranclp)
  moreover have "rn_main ?s3 = Returned" "rn_received ?s3 = [close_3]" by simp_all
  ultimately show ?thesis by blast
qed


theorem run_answers_all_witness:
  "\<exists>s. runs local_handler None (closing 1) s \<and> mset (map fst (rn_answered s)) = {#close_3#}"
proof -
  obtain s where s: "runs local_handler None (closing 1) s" "rn_main s = Returned" "rn_received s = [close_3]"
    using close_run by blast
  from run_answers_all [OF s(1, 2)] s(1, 3) show ?thesis by (intro exI [of _ s]) simp
qed

theorem close_is_last_witness:
  "\<exists>s. runs local_handler None (closing 1) s \<and> fst (last (rn_answered s)) = close_3 \<and> shut_down local_handler (rn_node s)"
proof -
  obtain s where s: "runs local_handler None (closing 1) s" "rn_main s = Returned" "rn_received s = [close_3]"
    using close_run by blast
  from close_is_last [OF s(1, 2), of close_3] s(1, 3) show ?thesis by (intro exI [of _ s]) (simp add: is_close_def)
qed

theorem run_terminates_witness:
  "\<exists>s j. (run_step local_handler None ^^ j) (closing 1) s \<and> rn_main s = Returned
    \<and> j \<le> 8 * length (request_lines close_3) + 4"
proof -
  obtain s where s: "runs local_handler None (closing 1) s" "rn_main s = Returned" using close_run by blast
  then obtain j where j: "(run_step local_handler None ^^ j) (closing 1) s" by (auto dest: rtranclp_imp_relpowp)
  have "finite (keys local_node)" "length (n_tasks local_node) = 0" by (simp_all add: local_node_def empty_cache_def)
  with run_terminates [OF _ _ j] j s(2) show ?thesis by (intro exI [of _ s] exI [of _ j]) (simp add: new_reader_def)
qed





abbreviation putting :: "int \<Rightarrow> fake run" where
  "putting k \<equiv> start_run None (input_of put_ab12) k local_node"

lemma put_command [simp]: "rq_command put_ab12 = ''put''"
  by (simp add: put_ab12_def)

lemma put_read: "0 \<le> k \<Longrightarrow> run_step local_handler None (putting k)
    ((putting k)\<lparr>rn_main := Sending put_ab12, rn_input := new_reader [] None, rn_received := [put_ab12]\<rparr>)"
  using run_step.read [of "putting k" put_ab12 "new_reader [] None" local_handler None]
  by (simp add: read_examples start_run_reading)

theorem no_workers_block_witness:
  "\<exists>s. runs local_handler None (putting 0) s \<and> rn_received s = [put_ab12] \<and> rn_main s = Sending put_ab12 \<and> rn_answered s = []"
proof -
  let ?s = "(putting 0)\<lparr>rn_main := Sending put_ab12, rn_input := new_reader [] None, rn_received := [put_ab12]\<rparr>"
  have r: "runs local_handler None (putting 0) ?s" using put_read by (simp add: r_into_rtranclp)
  moreover have m: "rn_main ?s = Sending put_ab12" "rn_received ?s = [put_ab12]" by simp_all
  ultimately show ?thesis using no_workers_block [OF r m(1), of ?s] by blast
qed



end
