(* ===== verification/Startup.thy ===== *)
theory Startup
  imports Config Connect Lifetime
begin

text \<open>
  \<open>cmd/gocache-rbe/main.go\<close>: the start of the process, which loads the configuration, opens the
  cache directory, tries to reach the remote cache, and enters \<open>Run\<close>.
\<close>

subsection \<open>Logging\<close>

text \<open>The levels of \<open>slog\<close> in their order; a logger drops the records below its level.\<close>

datatype log_level = LevelDebug | LevelInfo | LevelWarn | LevelError

fun level_value :: "log_level \<Rightarrow> int" where
  "level_value LevelDebug = -4"
| "level_value LevelInfo = 0"
| "level_value LevelWarn = 4"
| "level_value LevelError = 8"

instantiation log_level :: linorder
begin

definition less_eq_log_level :: "log_level \<Rightarrow> log_level \<Rightarrow> bool" where
  "a \<le> b \<longleftrightarrow> level_value a \<le> level_value b"

definition less_log_level :: "log_level \<Rightarrow> log_level \<Rightarrow> bool" where
  "(a::log_level) < b \<longleftrightarrow> level_value a < level_value b"

instance
proof
  fix a b :: log_level
  show "a \<le> b \<Longrightarrow> b \<le> a \<Longrightarrow> a = b"
    by (cases a; cases b) (simp_all add: less_eq_log_level_def)
qed (auto simp: less_eq_log_level_def less_log_level_def)

end


subsection \<open>\<open>run\<close>\<close>






subsection \<open>What starting leaves alone\<close>



text \<open>A state that differs only in what the system calls have consumed.\<close>

definition same_tree :: "sys \<Rightarrow> sys \<Rightarrow> bool" where
  "same_tree s t \<longleftrightarrow> touches {} s t \<and> sys_dirs t = sys_dirs s"

lemma same_tree_refl [simp]: "same_tree s s" and same_tree_called [simp]: "same_tree s (called s)"
  by (simp_all add: same_tree_def)








subsection \<open>The keys of a scanned directory\<close>









subsection \<open>From the start to the end\<close>























end
