(* ===== verification/Process.thy ===== *)
theory Process
  imports Main
begin

text \<open>
  Goroutines that take turns. A process is what is left of a goroutine's work: a result, a panic, or a
  step on the shared state followed by the rest. Between two steps other goroutines may run.
\<close>

datatype ('s, 'r) proc = Done 'r | Panic | Step "'s \<Rightarrow> ('s, 'r) proc \<times> 's"

lemma proc_induct [case_names Done Panic Step]:
  assumes "\<And>r. P (Done r)" and "P Panic" and "\<And>f. (\<And>s. P (fst (f s))) \<Longrightarrow> P (Step f)"
  shows "P p"
  using assms by (induction p) (auto simp: prod_set_defs)

primrec andthen :: "('s, 'r) proc \<Rightarrow> ('r \<Rightarrow> ('s, 'q) proc) \<Rightarrow> ('s, 'q) proc" where
  "andthen (Done r) k = k r"
| "andthen Panic k = Panic"
| "andthen (Step f) k = Step (\<lambda>s. map_prod (\<lambda>p. andthen p k) id (f s))"

definition act :: "('s \<Rightarrow> 'r \<times> 's) \<Rightarrow> ('s, 'r) proc" where
  "act f = Step (\<lambda>s. map_prod Done id (f s))"

text \<open>A process that nothing disturbs: its result and the last state, or \<open>None\<close> for a panic.\<close>

primrec alone :: "('s, 'r) proc \<Rightarrow> 's \<Rightarrow> ('r \<times> 's) option" where
  "alone (Done r) = (\<lambda>s. Some (r, s))"
| "alone Panic = (\<lambda>s. None)"
| "alone (Step f) = (\<lambda>s. case map_prod alone id (f s) of (g, t) \<Rightarrow> g t)"

lemma alone_act [simp]: "alone (act f) s = Some (f s)"
  by (cases "f s") (simp add: act_def)

lemma alone_andthen [simp]:
  "alone (andthen p k) s = (case alone p s of None \<Rightarrow> None | Some (r, t) \<Rightarrow> alone (k r) t)"
proof (induction p arbitrary: s rule: proc_induct)
  case (Step f)
  from Step [of s] show ?case by (cases "f s") simp
qed simp_all

text \<open>A process has only finitely many steps before it, whatever the others do in between.\<close>

definition continues :: "('s, 'r) proc \<Rightarrow> ('s, 'r) proc \<Rightarrow> bool" where
  "continues p' p \<longleftrightarrow> (\<exists>f s. p = Step f \<and> p' = fst (f s))"

lemma continues_simps [simp]:
  "\<not> continues p' (Done r)" "\<not> continues p' Panic" "continues p' (Step f) \<longleftrightarrow> (\<exists>s. p' = fst (f s))"
  by (auto simp: continues_def)

lemma wf_continues: "wfP (continues :: ('s, 'r) proc \<Rightarrow> ('s, 'r) proc \<Rightarrow> bool)"
proof (rule accp_wfpI, rule allI)
  fix p :: "('s, 'r) proc"
  show "Wellfounded.accp continues p"
  proof (induction p rule: proc_induct)
    case (Step f)
    show ?case by (rule accpI) (use Step in auto)
  qed (auto intro: accpI)
qed

subsection \<open>Interference\<close>

text \<open>
  A process works on a part of the state that is its own, its claim. \<open>rely g\<close> is what the others may do
  to a state without disturbing the claim \<open>g\<close>; \<open>effect g g'\<close> is what a step may do that starts with
  the claim \<open>g\<close> and ends with \<open>g'\<close>. A process is safe for a postcondition on its result, claim and
  state when each of its steps, taken after any interference, has such an effect and leads to a safe
  process.
\<close>

primrec safe :: "('g \<Rightarrow> 's \<Rightarrow> 's \<Rightarrow> bool) \<Rightarrow> ('g \<Rightarrow> 'g \<Rightarrow> 's \<Rightarrow> 's \<Rightarrow> bool) \<Rightarrow> ('r \<Rightarrow> 'g \<Rightarrow> 's \<Rightarrow> bool) \<Rightarrow>
    ('s, 'r) proc \<Rightarrow> 'g \<Rightarrow> 's \<Rightarrow> bool"
where
  "safe rely effect post (Done r) = (\<lambda>g s. \<forall>t. rely g s t \<longrightarrow> post r g t)"
| "safe rely effect post Panic = (\<lambda>g s. False)"
| "safe rely effect post (Step f) = (\<lambda>g s. \<forall>t. rely g s t \<longrightarrow>
     (\<exists>g'. effect g g' t (snd (f t)) \<and> fst (map_prod (safe rely effect post) id (f t)) g' (snd (f t))))"

lemma safe_Step [simp]:
  "safe rely effect post (Step f) g s \<longleftrightarrow>
     (\<forall>t. rely g s t \<longrightarrow> (\<exists>g'. effect g g' t (snd (f t)) \<and> safe rely effect post (fst (f t)) g' (snd (f t))))"
  by simp

declare safe.simps(3) [simp del]

locale interference =
  fixes claim :: "'g \<Rightarrow> 's \<Rightarrow> bool"
    and apart :: "'g \<Rightarrow> 'g \<Rightarrow> bool"
    and rely :: "'g \<Rightarrow> 's \<Rightarrow> 's \<Rightarrow> bool"
    and effect :: "'g \<Rightarrow> 'g \<Rightarrow> 's \<Rightarrow> 's \<Rightarrow> bool"
  assumes apart_sym: "apart g x \<Longrightarrow> apart x g"
    and rely_refl: "claim g s \<Longrightarrow> rely g s s"
    and rely_trans: "rely g s t \<Longrightarrow> rely g t u \<Longrightarrow> rely g s u"
    and rely_claim: "claim g s \<Longrightarrow> rely g s t \<Longrightarrow> claim g t"
    and effect_claim: "claim g s \<Longrightarrow> effect g g' s t \<Longrightarrow> claim g' t"
    and effect_rely: "effect g g' s t \<Longrightarrow> claim g s \<Longrightarrow> claim x s \<Longrightarrow> apart g x \<Longrightarrow> rely x s t"
    and effect_apart: "effect g g' s t \<Longrightarrow> claim g s \<Longrightarrow> claim x s \<Longrightarrow> apart g x \<Longrightarrow> apart g' x"
begin

lemma safe_rely: "safe rely effect post p g s \<Longrightarrow> rely g s t \<Longrightarrow> safe rely effect post p g t"
  by (cases p) (auto intro: rely_trans)

lemma safe_andthen:
  "safe rely effect mid p g s \<Longrightarrow> (\<And>r g s. mid r g s \<Longrightarrow> claim g s \<Longrightarrow> safe rely effect post (k r) g s) \<Longrightarrow> claim g s \<Longrightarrow>
   safe rely effect post (andthen p k) g s"
proof (induction p arbitrary: g s rule: proc_induct)
  case (Done r)
  then show ?case using rely_refl by simp
next
  case (Step f)
  show ?case
  proof (simp, intro allI impI)
    fix t assume r: "rely g s t"
    with Step.prems(1) obtain g' where g: "effect g g' t (snd (f t))" "safe rely effect mid (fst (f t)) g' (snd (f t))"
      by auto
    have "claim g' (snd (f t))" using effect_claim [OF rely_claim [OF Step.prems(3) r] g(1)] .
    from Step.IH [OF g(2) Step.prems(2) this] g(1)
    show "\<exists>g'. effect g g' t (snd (f t)) \<and> safe rely effect post (andthen (fst (f t)) k) g' (snd (f t))"
      by blast
  qed
qed simp

text \<open>A triple: from a claim and state that satisfy \<open>pre\<close>, a process is safe for \<open>post\<close>.\<close>

definition triple :: "('g \<Rightarrow> 's \<Rightarrow> bool) \<Rightarrow> ('s, 'r) proc \<Rightarrow> ('r \<Rightarrow> 'g \<Rightarrow> 's \<Rightarrow> bool) \<Rightarrow> bool" where
  "triple pre p post \<longleftrightarrow> (\<forall>g s. claim g s \<longrightarrow> pre g s \<longrightarrow> safe rely effect post p g s)"

definition stable :: "('g \<Rightarrow> 's \<Rightarrow> bool) \<Rightarrow> bool" where
  "stable pre \<longleftrightarrow> (\<forall>g s t. claim g s \<longrightarrow> pre g s \<longrightarrow> rely g s t \<longrightarrow> pre g t)"

lemma triple_done: "stable (post r) \<Longrightarrow> triple (post r) (Done r) post"
  by (auto simp: triple_def stable_def)

lemma triple_weaken:
  "triple pre p post \<Longrightarrow> (\<And>g s. claim g s \<Longrightarrow> pre' g s \<Longrightarrow> pre g s) \<Longrightarrow> triple pre' p post"
  by (auto simp: triple_def)

lemma safe_post:
  "safe rely effect post p g s \<Longrightarrow> (\<And>r g s. post r g s \<Longrightarrow> post' r g s) \<Longrightarrow> safe rely effect post' p g s"
  by (induction p arbitrary: g s rule: proc_induct) (simp_all, blast)

lemma triple_post:
  "triple pre p post \<Longrightarrow> (\<And>r g s. post r g s \<Longrightarrow> post' r g s) \<Longrightarrow> triple pre p post'"
  unfolding triple_def by (blast intro: safe_post)

lemma triple_andthen: "triple pre p mid \<Longrightarrow> (\<And>r. triple (mid r) (k r) post) \<Longrightarrow> triple pre (andthen p k) post"
  unfolding triple_def by (blast intro: safe_andthen [where mid = mid])

lemma triple_act:
  assumes "stable pre" and "\<And>r. stable (post r)"
    and "\<And>g s. claim g s \<Longrightarrow> pre g s \<Longrightarrow> \<exists>g'. effect g g' s (snd (f s)) \<and> post (fst (f s)) g' (snd (f s))"
  shows "triple pre (act f) post"
proof -
  have "\<exists>g'. effect g g' t (snd (f t)) \<and> (\<forall>u. rely g' (snd (f t)) u \<longrightarrow> post (fst (f t)) g' u)"
    if c: "claim g s" and p: "pre g s" and r: "rely g s t" for g s t
  proof -
    have t: "claim g t" "pre g t" using assms(1) c p r rely_claim by (auto simp: stable_def)
    from assms(3) [OF this] obtain g' where g: "effect g g' t (snd (f t))" "post (fst (f t)) g' (snd (f t))" by blast
    with effect_claim [OF t(1) g(1)] assms(2) show ?thesis by (auto simp: stable_def)
  qed
  then show ?thesis by (simp add: triple_def act_def)
qed

text \<open>
  Processes in flight, each with its claim, that are pairwise apart. One takes a step, or the state
  changes in a way that disturbs no claim: all stay safe.
\<close>

definition busy :: "'g \<times> ('s, 'r) proc \<times> ('r \<Rightarrow> 'g \<Rightarrow> 's \<Rightarrow> bool) \<Rightarrow> 's \<Rightarrow> bool" where
  "busy x s \<longleftrightarrow> (case x of (g, p, post) \<Rightarrow> claim g s \<and> safe rely effect post p g s)"

definition together :: "('g \<times> ('s, 'r) proc \<times> ('r \<Rightarrow> 'g \<Rightarrow> 's \<Rightarrow> bool)) list \<Rightarrow> 's \<Rightarrow> bool" where
  "together ps s \<longleftrightarrow> sorted_wrt (\<lambda>x y. apart (fst x) (fst y)) ps \<and> (\<forall>x \<in> set ps. busy x s)"

lemma busy_simps [simp]: "busy (g, p, post) s \<longleftrightarrow> claim g s \<and> safe rely effect post p g s"
  by (simp add: busy_def)

lemma busy_claim: "busy x s \<Longrightarrow> claim (fst x) s"
  by (cases x) simp

lemma busy_rely: "busy x s \<Longrightarrow> rely (fst x) s t \<Longrightarrow> busy x t"
  using rely_claim safe_rely by (cases x) auto

lemma together_insert:
  "together (ps @ x # qs) s \<longleftrightarrow> together (ps @ qs) s \<and> busy x s \<and> (\<forall>y \<in> set (ps @ qs). apart (fst x) (fst y))"
proof -
  have "(\<forall>y \<in> A. apart (fst y) (fst x)) \<longleftrightarrow> (\<forall>y \<in> A. apart (fst x) (fst y))" for A :: "('g \<times> ('s, 'r) proc \<times> _) set"
    using apart_sym by blast
  from this [of "set ps"] show ?thesis by (simp add: together_def sorted_wrt_append) blast
qed

lemma together_change:
  "together ps s \<Longrightarrow> (\<And>x. x \<in> set ps \<Longrightarrow> claim (fst x) s \<Longrightarrow> rely (fst x) s t) \<Longrightarrow> together ps t"
  using busy_rely busy_claim unfolding together_def by blast

lemma together_step:
  assumes "together (ps @ (g, Step f, post) # qs) s"
  obtains g' where "effect g g' s (snd (f s))" and "together (ps @ (g', fst (f s), post) # qs) (snd (f s))"
proof -
  have c: "claim g s" "safe rely effect post (Step f) g s" and ap: "\<forall>y \<in> set (ps @ qs). apart g (fst y)"
    and rest: "together (ps @ qs) s"
    using assms by (simp_all add: together_insert)
  from c rely_refl [OF c(1)] obtain g'
    where g: "effect g g' s (snd (f s))" "safe rely effect post (fst (f s)) g' (snd (f s))" by auto
  have cl: "claim (fst y) s" if "y \<in> set (ps @ qs)" for y
    using rest that busy_claim unfolding together_def by blast
  have "together (ps @ qs) (snd (f s))"
    using together_change [OF rest] effect_rely [OF g(1) c(1)] ap by blast
  moreover have "\<forall>y \<in> set (ps @ qs). apart g' (fst y)" using effect_apart [OF g(1) c(1) cl] ap by blast
  ultimately show thesis using that g effect_claim [OF c(1) g(1)] by (simp add: together_insert)
qed

lemma together_done: "together ps s \<Longrightarrow> (g, Done r, post) \<in> set ps \<Longrightarrow> post r g s"
proof -
  assume "together ps s" and "(g, Done r, post) \<in> set ps"
  then have "busy (g, Done r, post) s" unfolding together_def by blast
  then show ?thesis using rely_refl by simp
qed

lemma together_Panic: "together ps s \<Longrightarrow> (g, Panic, post) \<notin> set ps"
proof
  assume "together ps s" and "(g, Panic, post) \<in> set ps"
  then have "busy (g, Panic, post) s" unfolding together_def by blast
  then show False by simp
qed

end

end
