(* ===== verification/Steps.thy ===== *)
theory Steps
  imports Process Put
begin

text \<open>
  Gets and puts as processes: between two system calls, between two critical sections of the cache's
  mutex and between two remote calls, other goroutines may run. A download, \<open>ReadMetadata\<close> and
  \<open>WriteMetadata\<close> are one step each. Every process, when nothing disturbs it, computes what the operation
  of the same name computes in the theories \<open>Disk\<close>, \<open>Get\<close> and \<open>Put\<close>.
\<close>

subsection \<open>Steps\<close>

definition os_call :: "(sys \<Rightarrow> 'r \<times> sys) \<Rightarrow> ('v node, 'r) proc" where
  "os_call f = act (on_sys f)"

definition world_call :: "('v world \<Rightarrow> 'r \<times> 'v world) \<Rightarrow> ('v node, 'r) proc" where
  "world_call f = act (on_world f)"

text \<open>A critical section of the mutex, which may also read the clock; and a read of the constant field \<open>dc.dir\<close>.\<close>

definition on_locked :: "(disk_cache \<Rightarrow> sys \<Rightarrow> 'r \<times> disk_cache \<times> sys) \<Rightarrow> 'v node \<Rightarrow> 'r \<times> 'v node" where
  "on_locked f n =
     (case f (n_cache n) (n_sys n) of (r, dc, s) \<Rightarrow> (r, n\<lparr>n_cache := dc, n_world := (n_world n)\<lparr>w_sys := s\<rparr>\<rparr>))"

definition locked :: "(disk_cache \<Rightarrow> sys \<Rightarrow> 'r \<times> disk_cache \<times> sys) \<Rightarrow> ('v node, 'r) proc" where
  "locked f = act (on_locked f)"

definition with_dir :: "(path \<Rightarrow> ('v node, 'r) proc) \<Rightarrow> ('v node, 'r) proc" where
  "with_dir k = andthen (act (\<lambda>n. (dc_dir (n_cache n), n))) k"

definition remove_file_step :: "path \<Rightarrow> ('v node, unit) proc" where
  "remove_file_step p = os_call (\<lambda>s. ((), remove p s))"

text \<open>A call whose error ends the operation: \<open>if err != nil { return ... }\<close>.\<close>

definition check :: "('v node, err + 'x) proc \<Rightarrow> (err \<Rightarrow> ('v node, 'r) proc) \<Rightarrow> ('x \<Rightarrow> ('v node, 'r) proc) \<Rightarrow>
    ('v node, 'r) proc"
where
  "check p fail k = andthen p (\<lambda>r. case r of Inl e \<Rightarrow> fail e | Inr x \<Rightarrow> k x)"

subsection \<open>The cache\<close>

definition ensure_dir_steps :: "path \<Rightarrow> ('v node, err + unit) proc" where
  "ensure_dir_steps d = check (os_call (stat d)) (\<lambda>_. os_call (mkdir_all d)) (\<lambda>_. Done (Inr ()))"

definition install_steps :: "string \<Rightarrow> path \<Rightarrow> metadata \<Rightarrow> ('v node, err + path) proc" where
  "install_steps a tmp m = with_dir (\<lambda>dir.
     case (body_path dir a, metadata_path dir a) of
       (Some bp, Some mp) \<Rightarrow>
         check (ensure_dir_steps (filepath_dir bp)) (\<lambda>e. Done (Inl (Wrapped ''mkdir'' e))) (\<lambda>_.
         check (os_call (rename tmp bp)) (\<lambda>e. Done (Inl (Wrapped ''rename body'' e))) (\<lambda>_.
         check (os_call (write_metadata mp m))
           (\<lambda>e. andthen (remove_file_step bp) (\<lambda>_. Done (Inl (Wrapped ''write metadata'' e)))) (\<lambda>_.
         andthen (locked (\<lambda>dc s. case now s of (t, s1) \<Rightarrow> ((), index_entry a bp m t dc, s1))) (\<lambda>_.
         Done (Inr bp)))))
     | _ \<Rightarrow> Panic)"

definition touch_step :: "string \<Rightarrow> (entry \<Rightarrow> entry) \<Rightarrow> ('v node, unit) proc" where
  "touch_step a upd = locked (\<lambda>dc s. case touch_entry a upd dc s of (dc1, s1) \<Rightarrow> ((), pin a dc1, s1))"

definition lookup_cached_steps :: "string \<Rightarrow> metadata \<Rightarrow> path \<Rightarrow> ('v node, lookup_result) proc" where
  "lookup_cached_steps a m bp =
     (if bp \<noteq> [] then
        check (os_call (stat bp))
          (\<lambda>_. andthen (locked (\<lambda>dc s. ((), mark_evicted a dc, s))) (\<lambda>_. Done (Some m, [], False)))
          (\<lambda>_. andthen (touch_step a (\<lambda>e. e)) (\<lambda>_. Done (Some m, bp, True)))
      else Done (Some m, [], False))"

definition lookup_disk_steps :: "string \<Rightarrow> ('v node, lookup_result) proc" where
  "lookup_disk_steps a = with_dir (\<lambda>dir.
     case (metadata_path dir a, body_path dir a) of
       (Some mp, Some bp) \<Rightarrow>
         check (os_call (read_metadata mp)) (\<lambda>_. Done (None, [], False)) (\<lambda>m.
         check (os_call (stat bp)) (\<lambda>_. Done (Some m, [], False)) (\<lambda>_.
         andthen (touch_step a (\<lambda>e. e\<lparr>e_meta := Some m, e_bodyPath := bp\<rparr>)) (\<lambda>_. Done (Some m, bp, True))))
     | _ \<Rightarrow> Panic)"

definition lookup_steps :: "string \<Rightarrow> ('v node, lookup_result) proc" where
  "lookup_steps a =
     andthen (locked (\<lambda>dc s. (cached_meta a dc, dc, s))) (\<lambda>cached.
       case cached of Some (m, bp) \<Rightarrow> lookup_cached_steps a m bp | None \<Rightarrow> lookup_disk_steps a)"

text \<open>The critical section of \<open>Remove\<close>.\<close>

definition forget_entry :: "string \<Rightarrow> disk_cache \<Rightarrow> disk_cache" where
  "forget_entry a dc =
     (let dc1 = (case dc_entries dc a of
                   None \<Rightarrow> dc
                 | Some e \<Rightarrow> (if e_hasBody e then dc\<lparr>dc_total := i64 (dc_total dc - e_size e)\<rparr> else dc)
                     \<lparr>dc_entries := (dc_entries dc)(a := None)\<rparr>)
      in dc1\<lparr>dc_pinned := dc_pinned dc1 - {a}\<rparr>)"

definition remove_steps :: "string \<Rightarrow> ('v node, unit) proc" where
  "remove_steps a = with_dir (\<lambda>dir.
     case (body_path dir a, metadata_path dir a) of
       (Some bp, Some mp) \<Rightarrow>
         andthen (remove_file_step bp) (\<lambda>_. andthen (remove_file_step mp) (\<lambda>_.
         locked (\<lambda>dc s. ((), forget_entry a dc, s))))
     | _ \<Rightarrow> Panic)"

definition temp_file_step :: "('v node, err + path) proc" where
  "temp_file_step = with_dir (\<lambda>dir. os_call (create_temp dir))"

subsection \<open>Gets\<close>

text \<open>After the download: the digest of what was written is checked before it is installed.\<close>

definition discard :: "path \<Rightarrow> err \<Rightarrow> ('v node, err + path) proc" where
  "discard tmp e = andthen (remove_file_step tmp) (\<lambda>_. Done (Inl e))"

definition verify_steps :: "string \<Rightarrow> digest \<Rightarrow> metadata \<Rightarrow> path \<Rightarrow> bytes \<Rightarrow> ('v node, err + path) proc" where
  "verify_steps a d m tmp hashed =
     check (os_call (close_file tmp)) (discard tmp) (\<lambda>_.
     check (os_call (stat tmp)) (discard tmp) (\<lambda>info.
     let got = hex_encode_fixed (sha256 hashed) in
     if got \<noteq> d_hash d \<or> fi_size info \<noteq> d_size d then discard tmp (mismatch got (fi_size info) d)
     else install_steps a tmp m))"

definition download_steps :: "'v client \<Rightarrow> string \<Rightarrow> digest \<Rightarrow> metadata \<Rightarrow> ('v node, err + path) proc" where
  "download_steps c a d m =
     check temp_file_step (\<lambda>e. Done (Inl e)) (\<lambda>tmp.
     andthen (world_call (download_to c d tmp)) (\<lambda>(e, hashed). case e of
       Some e \<Rightarrow> andthen (os_call (close_file tmp)) (\<lambda>_. discard tmp e)
     | None \<Rightarrow> verify_steps a d m tmp hashed))"

definition refill_steps :: "'v client \<Rightarrow> request \<Rightarrow> string \<Rightarrow> metadata \<Rightarrow> ('v node, response option) proc" where
  "refill_steps c req a m =
     check (download_steps c a \<lparr>d_hash = m_casHash m, d_size = m_casSize m\<rparr> m) (\<lambda>_. Done None) (\<lambda>p.
     case hex_decode (m_outputIDHex m) of
       Inl _ \<Rightarrow> Done None
     | Inr outputID \<Rightarrow> Done (Some (hit_response req outputID (m_size m) p (m_time m))))"

definition digests_step :: "'v handler \<Rightarrow> string \<Rightarrow> ('v node, err + synthetic_digests) proc" where
  "digests_step h a =
     act (\<lambda>n. case compute_synthetic_digests (h_marshal h) (h_dir h) a (n_synthetic n) of
            (r, cache) \<Rightarrow> (r, n\<lparr>n_synthetic := cache\<rparr>))"

definition action_lookup_steps :: "'v handler \<Rightarrow> 'v client \<Rightarrow> ctx \<Rightarrow> request \<Rightarrow> string \<Rightarrow> ('v node, response) proc" where
  "action_lookup_steps h c ctx req a =
     check (digests_step h a) (\<lambda>_. Done (miss_response req)) (\<lambda>sd.
     check (world_call (get_action_result c ctx (sd_actionDigest sd))) (\<lambda>_. Done (miss_response req)) (\<lambda>found.
     case found of None \<Rightarrow> Done (miss_response req) | Some ar \<Rightarrow>
     (case ar_output_files ar of [] \<Rightarrow> Done (miss_response req) | out # _ \<Rightarrow>
     (let d = digest_from_proto (of_digest out) in
     case hex_decode (of_path out) of Inl _ \<Rightarrow> Done (miss_response req) | Inr outputID \<Rightarrow>
     andthen (os_call now) (\<lambda>t.
     let m = \<lparr>m_outputIDHex = of_path out, m_size = d_size d, m_time = t, m_casHash = d_hash d, m_casSize = d_size d\<rparr> in
     check (download_steps c a d m) (\<lambda>_. Done (miss_response req)) (\<lambda>p.
     Done (hit_response req outputID (d_size d) p (m_time m))))))))"

text \<open>\<open>shared\<close> is the response of a lookup of the same action id that this request waits for, if there is one.\<close>

definition remote_steps :: "'v handler \<Rightarrow> ctx \<Rightarrow> response option \<Rightarrow> request \<Rightarrow> string \<Rightarrow> ('v node, response) proc" where
  "remote_steps h ctx shared req a =
     (case h_client h of
        None \<Rightarrow> Done (miss_response req)
      | Some c \<Rightarrow>
         (case shared of
            Some orig \<Rightarrow> Done (copy_response req orig)
          | None \<Rightarrow> andthen (action_lookup_steps h c ctx req a) (\<lambda>orig. Done (copy_response req orig))))"

definition get_steps :: "'v handler \<Rightarrow> ctx \<Rightarrow> response option \<Rightarrow> request \<Rightarrow> ('v node, response) proc" where
  "get_steps h ctx shared req =
     (let a = hex_encode (rq_actionID req) in
      andthen (lookup_steps a) (\<lambda>(meta, bp, hit). case meta of
        None \<Rightarrow> if hit then Panic else remote_steps h ctx shared req a
      | Some m \<Rightarrow>
          if hit then
            (case hex_decode (m_outputIDHex m) of
               Inl _ \<Rightarrow> andthen (remove_steps a) (\<lambda>_. Done (miss_response req))
             | Inr outputID \<Rightarrow> Done (hit_response req outputID (m_size m) bp (m_time m)))
          else
            (case h_client h of
               None \<Rightarrow> remote_steps h ctx shared req a
             | Some c \<Rightarrow> andthen (refill_steps c req a m) (\<lambda>r. case r of
                 Some resp \<Rightarrow> Done resp
               | None \<Rightarrow> remote_steps h ctx shared req a))))"

subsection \<open>Puts\<close>

definition body_steps :: "bytes \<Rightarrow> ('v node, err + digest \<times> path) proc" where
  "body_steps body =
     check temp_file_step (\<lambda>e. Done (Inl e)) (\<lambda>tmp.
     check (os_call (write_data tmp body))
       (\<lambda>e. andthen (os_call (close_file tmp)) (\<lambda>_. andthen (remove_file_step tmp) (\<lambda>_. Done (Inl e)))) (\<lambda>_.
     check (os_call (close_file tmp)) (\<lambda>e. andthen (remove_file_step tmp) (\<lambda>_. Done (Inl e))) (\<lambda>_.
     Done (Inr (\<lparr>d_hash = hex_encode (sha256 body), d_size = int (length body)\<rparr>, tmp)))))"

text \<open>\<open>go func() { ... }\<close>: the upload is handed to a goroutine of its own.\<close>

definition upload_step :: "populate \<Rightarrow> ('v node, unit) proc" where
  "upload_step task = act (\<lambda>n. ((), n\<lparr>n_tasks := n_tasks n @ [task]\<rparr>))"

definition put_steps :: "'v handler \<Rightarrow> request \<Rightarrow> ('v node, response) proc" where
  "put_steps h req =
     (if 0 < h_maxArtifactSize h \<and> h_maxArtifactSize h < rq_bodySize req
      then Done (put_error req (''artifact too large: '' @ show_int (rq_bodySize req) @ '' bytes exceeds limit ''
             @ show_int (h_maxArtifactSize h)))
      else
        let a = hex_encode (rq_actionID req); outputIDHex = hex_encode (rq_outputID req) in
        check (body_steps (rq_body req)) (\<lambda>e. Done (put_error req (''write body: '' @ err_text e))) (\<lambda>(d, tmp).
        andthen (os_call now) (\<lambda>t.
        let m = \<lparr>m_outputIDHex = outputIDHex, m_size = rq_bodySize req, m_time = t, m_casHash = d_hash d, m_casSize = d_size d\<rparr> in
        check (install_steps a tmp m) (\<lambda>e. Done (put_error req (''local install: '' @ err_text e))) (\<lambda>p.
        andthen (if h_client h = None then Done ()
                 else upload_step \<lparr>pp_actionIDHex = a, pp_outputIDHex = outputIDHex, pp_body = p, pp_digest = d\<rparr>) (\<lambda>_.
        Done (zero_response\<lparr>rs_id := rq_id req, rs_diskPath := p\<rparr>))))))"

subsection \<open>Undisturbed\<close>

named_theorems alone_simps

lemma alone_calls [alone_simps]:
  "alone (os_call f) n = Some (on_sys f n)" "alone (world_call w) n = Some (on_world w n)"
  "alone (locked g) n = Some (on_locked g n)" "alone (remove_file_step p) n = Some ((), remove_temp p n)"
  "alone (with_dir k) n = alone (k (dc_dir (n_cache n))) n"
  "alone temp_file_step n = Some (on_sys (temp_file (n_cache n)) n)"
  "alone (check r fail c) n = (case alone r n of None \<Rightarrow> None
     | Some (Inl e, n1) \<Rightarrow> alone (fail e) n1 | Some (Inr x, n1) \<Rightarrow> alone (c x) n1)"
  by (auto simp: os_call_def world_call_def locked_def remove_file_step_def remove_temp_def with_dir_def check_def
      temp_file_step_def temp_file_def on_sys_def on_world_def call_sys_def split: option.splits sum.splits)

lemma on_locked_eq: "on_locked f n = (r, n') \<longleftrightarrow>
    (\<exists>dc s. f (n_cache n) (n_sys n) = (r, dc, s) \<and> n' = n\<lparr>n_cache := dc, n_world := (n_world n)\<lparr>w_sys := s\<rparr>\<rparr>)"
  by (auto simp: on_locked_def split: prod.splits)

lemma alone_ensure_dir [alone_simps]: "alone (ensure_dir_steps d) n = Some (on_sys (ensure_dir d) n)"
  by (auto simp: ensure_dir_steps_def alone_simps on_sys_def on_world_def call_sys_def ensure_dir_def
      split: prod.splits sum.splits)

lemma alone_install [alone_simps]: "alone (install_steps a tmp m) n = on_cache (install a tmp m) n"
  by (auto simp: install_steps_def alone_simps on_cache_def install_def on_sys_def on_world_def call_sys_def on_locked_def
      remove_temp_def split: prod.splits sum.splits option.splits)

lemma alone_touch [alone_simps]:
  "alone (touch_step a upd) n = Some ((), case touch_entry a upd (n_cache n) (n_sys n) of
     (dc, s) \<Rightarrow> n\<lparr>n_cache := pin a dc, n_world := (n_world n)\<lparr>w_sys := s\<rparr>\<rparr>)"
  by (simp add: touch_step_def alone_simps on_locked_def split: prod.split)

lemma node_same [simp]: "n\<lparr>n_cache := n_cache n, n_world := (n_world n)\<lparr>w_sys := n_sys n\<rparr>\<rparr> = n"
  by simp

lemma alone_lookup [alone_simps]: "alone (lookup_steps a) n = on_cache (lookup a) n"
  by (auto simp: lookup_steps_def lookup_cached_steps_def lookup_disk_steps_def alone_simps on_cache_def lookup_def lookup_cached_def lookup_on_disk_def on_sys_def
      on_world_def call_sys_def on_locked_def split: prod.splits sum.splits option.splits)

lemma alone_remove [alone_simps]:
  "alone (remove_steps a) n = map_option (\<lambda>n'. ((), n')) (update_cache (remove_entry a) n)"
  by (auto simp: remove_steps_def alone_simps update_cache_def remove_entry_def forget_entry_def remove_temp_def on_sys_def
      on_world_def call_sys_def on_locked_def Let_def split: prod.splits option.splits)

lemma alone_download [alone_simps]: "alone (download_steps c a d m) n = download_and_install c a d m n"
  by (auto simp: download_steps_def verify_steps_def discard_def alone_simps download_and_install_def Let_def split: prod.splits sum.splits option.splits)

lemma alone_refill [alone_simps]: "alone (refill_steps c req a m) n = refill_from_cas c req a m n"
  by (auto simp: refill_steps_def alone_simps refill_from_cas_def split: prod.splits sum.splits option.splits)

lemma alone_digests [alone_simps]:
  "alone (digests_step h a) n = Some (case compute_synthetic_digests (h_marshal h) (h_dir h) a (n_synthetic n) of
     (r, cache) \<Rightarrow> (r, n\<lparr>n_synthetic := cache\<rparr>))"
  by (simp add: digests_step_def)

lemma alone_action_lookup [alone_simps]: "alone (action_lookup_steps h c ctx req a) n = remote_ac_lookup h c ctx req a n"
  by (auto simp: action_lookup_steps_def alone_simps remote_ac_lookup_def Let_def
      split: prod.splits sum.splits option.splits list.splits)

lemma alone_remote [alone_simps]: "alone (remote_steps h ctx shared req a) n = lookup_remote h ctx shared req a n"
  by (auto simp: remote_steps_def alone_simps lookup_remote_def split: prod.splits option.splits)

lemma alone_body [alone_simps]: "alone (body_steps body) n = Some (write_body_to_temp body n)"
  by (auto simp: body_steps_def alone_simps write_body_to_temp_def split: prod.splits sum.splits)

lemma alone_get: "alone (get_steps h ctx shared req) n = handle_get h ctx shared req n"
  by (auto simp: get_steps_def alone_simps handle_get_def Let_def split: prod.splits sum.splits option.splits bool.splits)

lemma alone_put: "alone (put_steps h req) n = handle_put h req n"
  by (auto simp: put_steps_def alone_simps handle_put_def upload_step_def Let_def
      split: prod.splits sum.splits option.splits)

end
