(* ===== verification/Interference.thy ===== *)
theory Interference
  imports Steps Handler
begin

text \<open>
  Gets and puts of different action ids that run at the same time do not disturb each other: each works
  on the index entry and the two files of its own action id and on one temporary file, and leaves those
  of the others alone.
\<close>

subsection \<open>What an action id owns\<close>

record view =
  v_entry :: "entry option"
  v_body :: "file_node option"
  v_isdir :: bool
  v_meta :: "file_node option"

definition view_of :: "path \<Rightarrow> string \<Rightarrow> 'v node \<Rightarrow> view" where
  "view_of dir a n =
     \<lparr>v_entry = dc_entries (n_cache n) a,
      v_body = Option.bind (body_path dir a) (sys_files (n_sys n)),
      v_isdir = (\<exists>p \<in> sys_dirs (n_sys n). body_path dir a = Some p),
      v_meta = Option.bind (metadata_path dir a) (sys_files (n_sys n))\<rparr>"

text \<open>The metadata under which a lookup would serve the body, if the body is there.\<close>

definition v_disk :: "view \<Rightarrow> metadata option" where
  "v_disk v =
     (case v_meta v of
        None \<Rightarrow> None
      | Some f \<Rightarrow> if f_data f = [] then None
                else case decode_metadata (f_data f) of Inl e \<Rightarrow> None | Inr m \<Rightarrow> Some m)"

definition v_cached :: "view \<Rightarrow> (metadata \<times> path) option" where
  "v_cached v =
     (case v_entry v of None \<Rightarrow> None
      | Some e \<Rightarrow> (case e_meta e of None \<Rightarrow> None | Some m \<Rightarrow> Some (m, e_bodyPath e)))"

definition v_known :: "view \<Rightarrow> metadata option" where
  "v_known v =
     (case v_cached v of Some (m, p) \<Rightarrow> if p \<noteq> [] then Some m else None | None \<Rightarrow> v_disk v)"

definition v_there :: "view \<Rightarrow> bool" where
  "v_there v \<longleftrightarrow> v_body v \<noteq> None \<or> v_isdir v"

definition v_intact :: "view \<Rightarrow> bool" where
  "v_intact v \<longleftrightarrow> (\<forall>m. v_known v = Some m \<longrightarrow> v_there v \<longrightarrow>
     (\<exists>f. v_body v = Some f \<and> hex_encode (sha256 (f_data f)) = m_casHash m \<and> int (length (f_data f)) = m_casSize m))"

abbreviation disk_ok :: "path \<Rightarrow> 'v node \<Rightarrow> bool" where
  "disk_ok dir n \<equiv> disk_inv dir (n_disk n)"

lemma view_peek:
  assumes "disk_ok dir n" and "key_ok a" and "body_path dir a = Some bp"
  shows "peek (n_disk n) a =
    (if v_there (view_of dir a n) then map_option (\<lambda>m. (m, bp)) (v_known (view_of dir a n)) else None)"
proof -
  have dc: "dc_ok (n_cache n)" "dc_dir (n_cache n) = dir" using assms(1) by (simp_all add: disk_inv_def)
  obtain mp where mp: "metadata_path dir a = Some mp" using key_paths [OF assms(2)] by blast
  have bp: "p = bp" if "cached_meta a (n_cache n) = Some (m, p)" "p \<noteq> []" for m p
    using that dc_ok_entry [OF dc(1)] assms(3) dc(2) by (fastforce simp: cached_meta_def split: option.splits)
  have "v_cached (view_of dir a n) = cached_meta a (n_cache n)" "v_disk (view_of dir a n) = disk_meta (n_sys n) mp"
    "v_there (view_of dir a n) \<longleftrightarrow> on_disk (n_sys n) bp"
    using assms(3) mp
    by (auto simp: v_cached_def v_disk_def v_there_def view_of_def cached_meta_def disk_meta_def on_disk_def)
  with bp mp assms(3) dc(2) show ?thesis
    by (auto simp: peek_def v_known_def split: option.splits)
qed

lemma node_ok_views: "node_ok dir n \<longleftrightarrow> disk_ok dir n \<and> (\<forall>a. key_ok a \<longrightarrow> v_intact (view_of dir a n))"
proof -
  have "(\<forall>m p. peek (n_disk n) a = Some (m, p) \<longrightarrow>
      (\<exists>f. sys_files (n_sys n) p = Some f \<and> hex_encode (sha256 (f_data f)) = m_casHash m \<and> int (length (f_data f)) = m_casSize m))
      \<longleftrightarrow> v_intact (view_of dir a n)" if ok: "disk_ok dir n" "key_ok a" for a
  proof -
    obtain bp where bp: "body_path dir a = Some bp" using key_paths [OF ok(2)] by blast
    have "v_body (view_of dir a n) = sys_files (n_sys n) bp" by (simp add: view_of_def bp)
    with view_peek [OF ok bp] show ?thesis by (auto simp: v_intact_def split: if_splits)
  qed
  then show ?thesis unfolding node_ok_def intact_def by blast
qed

subsection \<open>Claims\<close>

text \<open>A claim: the action id of the request, and the temporary file it has made, if it still needs one.\<close>

type_synonym claim = "string \<times> path option"

definition claims :: "path \<Rightarrow> claim \<Rightarrow> 'v node \<Rightarrow> bool" where
  "claims dir g n \<longleftrightarrow> disk_ok dir n \<and> key_ok (fst g)
     \<and> (\<forall>t. snd g = Some t \<longrightarrow> t \<in> temps dir \<and> sys_files (n_sys n) t \<noteq> None)"

definition separate :: "claim \<Rightarrow> claim \<Rightarrow> bool" where
  "separate g x \<longleftrightarrow> fst g \<noteq> fst x \<and> (snd g = None \<or> snd g \<noteq> snd x)"

definition undisturbed :: "path \<Rightarrow> claim \<Rightarrow> 'v node \<Rightarrow> 'v node \<Rightarrow> bool" where
  "undisturbed dir g n n' \<longleftrightarrow> disk_ok dir n' \<and> view_of dir (fst g) n' = view_of dir (fst g) n
     \<and> (\<forall>t. snd g = Some t \<longrightarrow> sys_files (n_sys n') t = sys_files (n_sys n) t)"

definition others_kept :: "path \<Rightarrow> claim \<Rightarrow> 'v node \<Rightarrow> 'v node \<Rightarrow> bool" where
  "others_kept dir g n n' \<longleftrightarrow> disk_ok dir n'
     \<and> (\<forall>k. key_ok k \<longrightarrow> k \<noteq> fst g \<longrightarrow> view_of dir k n' = view_of dir k n)
     \<and> (\<forall>t \<in> temps dir. sys_files (n_sys n) t \<noteq> None \<longrightarrow> snd g \<noteq> Some t \<longrightarrow> sys_files (n_sys n') t = sys_files (n_sys n) t)"

definition effect :: "path \<Rightarrow> claim \<Rightarrow> claim \<Rightarrow> 'v node \<Rightarrow> 'v node \<Rightarrow> bool" where
  "effect dir g g' n n' \<longleftrightarrow> others_kept dir g n n' \<and> fst g' = fst g
     \<and> (\<forall>t. snd g' = Some t \<longrightarrow> t \<in> temps dir \<and> sys_files (n_sys n') t \<noteq> None
          \<and> (snd g = Some t \<or> sys_files (n_sys n) t = None))"

interpretation flight: interference "claims dir" separate "undisturbed dir" "effect dir" for dir
proof
  fix g x :: claim and g' :: claim and n n' n'' :: "'a node"
  show "separate g x \<Longrightarrow> separate x g" by (auto simp: separate_def)
  show "claims dir g n \<Longrightarrow> undisturbed dir g n n" by (simp add: claims_def undisturbed_def)
  show "undisturbed dir g n n' \<Longrightarrow> undisturbed dir g n' n'' \<Longrightarrow> undisturbed dir g n n''"
    by (simp add: undisturbed_def)
  show "claims dir g n \<Longrightarrow> undisturbed dir g n n' \<Longrightarrow> claims dir g n'" by (simp add: claims_def undisturbed_def)
  show "claims dir g n \<Longrightarrow> effect dir g g' n n' \<Longrightarrow> claims dir g' n'"
    by (simp add: claims_def effect_def others_kept_def)
  show "effect dir g g' n n' \<Longrightarrow> claims dir g n \<Longrightarrow> claims dir x n \<Longrightarrow> separate g x \<Longrightarrow> undisturbed dir x n n'"
    by (auto simp: claims_def effect_def others_kept_def undisturbed_def separate_def)
  show "effect dir g g' n n' \<Longrightarrow> claims dir g n \<Longrightarrow> claims dir x n \<Longrightarrow> separate g x \<Longrightarrow> separate g' x"
    by (cases "snd x") (auto simp: claims_def effect_def separate_def)
qed

subsection \<open>Assertions and single steps\<close>

text \<open>
  What a request knows between two of its steps: a fact about the view of its action id, and what its
  temporary file holds.
\<close>

definition know :: "path \<Rightarrow> string \<Rightarrow> (view \<Rightarrow> bool) \<Rightarrow> (path \<times> (bytes \<Rightarrow> bool)) option \<Rightarrow> claim \<Rightarrow> 'v node \<Rightarrow> bool" where
  "know dir a phi c g n \<longleftrightarrow> fst g = a \<and> phi (view_of dir a n)
     \<and> (\<forall>t P. c = Some (t, P) \<longrightarrow> snd g = Some t \<and> (\<exists>f. sys_files (n_sys n) t = Some f \<and> P (f_data f)))"

lemma know_stable: "flight.stable dir (know dir a phi c)"
  by (auto simp: flight.stable_def know_def undisturbed_def)

lemma know_weaken:
  "(\<And>v. phi' v \<Longrightarrow> phi v) \<Longrightarrow> flight.triple dir (know dir a phi c) p post \<Longrightarrow> flight.triple dir (know dir a phi' c) p post"
  by (auto simp: flight.triple_def know_def)

lemma know_forget:
  "flight.triple dir (know dir a phi None) p post \<Longrightarrow> flight.triple dir (know dir a phi c) p post"
  by (auto simp: flight.triple_def know_def)

lemma know_fact:
  "(phi \<Longrightarrow> flight.triple dir (know dir a phi' c) p post) \<Longrightarrow>
   flight.triple dir (know dir a (\<lambda>v. phi' v \<and> phi) c) p post"
  by (auto simp: flight.triple_def know_def)

lemma triple_return: "(\<And>v. phi v \<Longrightarrow> phi' r v) \<Longrightarrow> flight.triple dir (know dir a phi None) (Done r) (\<lambda>r. know dir a (phi' r) None)"
  using flight.triple_done [of dir "\<lambda>r. know dir a (phi' r) None" r, OF know_stable] by (rule know_weaken [rotated])

lemma triple_check:
  assumes "flight.triple dir pre p mid" and "\<And>e. flight.triple dir (mid (Inl e)) (fail e) post"
    and "\<And>x. flight.triple dir (mid (Inr x)) (k x) post"
  shows "flight.triple dir pre (check p fail k) post"
  unfolding check_def by (rule flight.triple_andthen [OF assms(1)]) (use assms(2, 3) in \<open>simp split: sum.split\<close>)

text \<open>A step changes files of its own at most, and the directories only above the bodies.\<close>

definition own_files :: "path \<Rightarrow> claim \<Rightarrow> sys \<Rightarrow> path set" where
  "own_files dir g s =
     {p. body_path dir (fst g) = Some p \<or> (\<exists>q. metadata_path dir (fst g) = Some q \<and> p \<in> {q, q @ ''.tmp''})}
     \<union> {t \<in> temps dir. snd g = Some t \<or> sys_files s t = None}"

definition step_kept :: "path \<Rightarrow> claim \<Rightarrow> 'v node \<Rightarrow> 'v node \<Rightarrow> bool" where
  "step_kept dir g n n' \<longleftrightarrow> dc_ok (n_cache n') \<and> dc_dir (n_cache n') = dir
     \<and> (\<forall>k. k \<noteq> fst g \<longrightarrow> dc_entries (n_cache n') k = dc_entries (n_cache n) k)
     \<and> touches (own_files dir g (n_sys n)) (n_sys n) (n_sys n')
     \<and> sys_dirs (n_sys n') \<subseteq> sys_dirs (n_sys n) \<union> {q. length q \<le> length dir + 3}"

lemma body_path_long: "body_path dir a = Some p \<Longrightarrow> length dir + 3 < length p"
  by (auto simp: body_path_def split: if_splits)

lemma step_kept_isdir:
  "step_kept dir g n n' \<Longrightarrow> v_isdir (view_of dir k n') = v_isdir (view_of dir k n)"
  using body_path_long by (fastforce simp: step_kept_def view_of_def touches_def)

lemma step_kept_others:
  assumes "claims dir g n" and "step_kept dir g n n'"
  shows "others_kept dir g n n'"
proof -
  have t: "touches (own_files dir g (n_sys n)) (n_sys n) (n_sys n')" using assms(2) by (simp add: step_kept_def)
  have "view_of dir k n' = view_of dir k n" if k: "key_ok k" "k \<noteq> fst g" for k
  proof -
    obtain bk mk where p: "body_path dir k = Some bk" "metadata_path dir k = Some mk" using key_paths [OF k(1)] by blast
    have "bk \<notin> own_files dir g (n_sys n)" "mk \<notin> own_files dir g (n_sys n)"
      using p k(2) body_path_inject [of dir k bk "fst g"] metadata_path_inject [of dir k mk "fst g"]
        body_metadata_differ [of dir k bk "fst g"] body_metadata_differ [of dir "fst g" _ k mk]
        metadata_tmp_differ [of dir k mk "fst g"] body_not_temp [of dir k]
      by (auto simp: own_files_def)
    then have "sys_files (n_sys n') bk = sys_files (n_sys n) bk" "sys_files (n_sys n') mk = sys_files (n_sys n) mk"
      using t by (simp_all add: touches_def)
    moreover have "v_isdir (view_of dir k n') = v_isdir (view_of dir k n)" using step_kept_isdir [OF assms(2)] .
    ultimately show ?thesis using assms(2) k(2) p by (simp add: view_of_def step_kept_def)
  qed
  moreover have "sys_files (n_sys n') u = sys_files (n_sys n) u"
    if u: "u \<in> temps dir" "sys_files (n_sys n) u \<noteq> None" "snd g \<noteq> Some u" for u
  proof -
    have "u \<notin> own_files dir g (n_sys n)" using u body_not_temp [of dir "fst g"] temp_name_differ by (auto simp: own_files_def)
    with t show ?thesis by (simp add: touches_def)
  qed
  moreover have "disk_ok dir n'"
    using assms touches_no_faults [OF t] by (simp add: disk_inv_def step_kept_def claims_def)
  ultimately show ?thesis by (simp add: others_kept_def)
qed

text \<open>The rule for a step that keeps its temporary file, and for one that gives it up.\<close>

lemma triple_step:
  assumes "\<And>g n. claims dir g n \<Longrightarrow> know dir a phi c g n \<Longrightarrow>
    step_kept dir g n (snd (f n)) \<and> know dir a (phi' (fst (f n))) (c' (fst (f n))) g (snd (f n))"
    and "\<And>r. c' r = None \<or> (\<exists>t P P'. c' r = Some (t, P') \<and> c = Some (t, P))"
  shows "flight.triple dir (know dir a phi c) (act f) (\<lambda>r. know dir a (phi' r) (c' r))"
proof (rule flight.triple_act [OF know_stable know_stable])
  fix g :: claim and n :: "'a node"
  assume cl: "claims dir g n" and kn: "know dir a phi c g n"
  let ?r = "fst (f n)" and ?n = "snd (f n)"
  note s = assms(1) [OF cl kn]
  have o: "others_kept dir g n ?n" using step_kept_others [OF cl] s by blast
  show "\<exists>g'. effect dir g g' n ?n \<and> know dir a (phi' ?r) (c' ?r) g' ?n"
  proof (cases "c' ?r")
    case None
    then show ?thesis
      using s o by (intro exI [of _ "(a, None)"]) (auto simp: effect_def know_def)
  next
    case (Some td)
    with assms(2) [of ?r] obtain t P P' where "c' ?r = Some (t, P')" "c = Some (t, P)" by fastforce
    with s o kn cl show ?thesis
      by (intro exI [of _ g]) (auto simp: effect_def know_def claims_def)
  qed
qed

subsection \<open>The calls of the handlers\<close>

lemma step_kept_frame:
  "claims dir g n \<Longrightarrow> n_cache n' = n_cache n \<Longrightarrow> touches (own_files dir g (n_sys n)) (n_sys n) (n_sys n') \<Longrightarrow>
   sys_dirs (n_sys n') \<subseteq> sys_dirs (n_sys n) \<union> {q. length q \<le> length dir + 3} \<Longrightarrow> step_kept dir g n n'"
  by (simp add: step_kept_def claims_def disk_inv_def)

lemma view_files:
  assumes "n_cache n' = n_cache n" and "\<And>p. body_path dir a = Some p \<Longrightarrow> sys_files (n_sys n') p = sys_files (n_sys n) p"
    and "\<And>p. metadata_path dir a = Some p \<Longrightarrow> sys_files (n_sys n') p = sys_files (n_sys n) p"
    and "v_isdir (view_of dir a n') = v_isdir (view_of dir a n)"
  shows "view_of dir a n' = view_of dir a n"
proof -
  have "Option.bind (body_path dir a) (sys_files (n_sys n')) = Option.bind (body_path dir a) (sys_files (n_sys n))"
    "Option.bind (metadata_path dir a) (sys_files (n_sys n')) = Option.bind (metadata_path dir a) (sys_files (n_sys n))"
    using assms(2, 3) by (cases "body_path dir a"; cases "metadata_path dir a"; simp)+
  with assms(1, 4) show ?thesis by (simp add: view_of_def)
qed

text \<open>Steps that change no file.\<close>

definition idle :: "'v node \<Rightarrow> 'v node \<Rightarrow> bool" where
  "idle n n' \<longleftrightarrow> n_cache n' = n_cache n \<and> touches {} (n_sys n) (n_sys n') \<and> sys_dirs (n_sys n') = sys_dirs (n_sys n)"

lemma idle_view: "idle n n' \<Longrightarrow> view_of dir a n' = view_of dir a n"
  by (rule view_files) (auto simp: idle_def touches_def view_of_def)

lemma triple_idle:
  assumes "\<And>n. idle n (snd (f n))"
    and "\<And>g n. claims dir g n \<Longrightarrow> know dir a phi c g n \<Longrightarrow> phi' (fst (f n)) (view_of dir a n)"
  shows "flight.triple dir (know dir a phi c) (act f) (\<lambda>r. know dir a (phi' r) c)"
proof (rule triple_step)
  fix g :: claim and n :: "'a node"
  assume cl: "claims dir g n" and kn: "know dir a phi c g n"
  have i: "idle n (snd (f n))" by (rule assms(1))
  have "step_kept dir g n (snd (f n))"
    using i by (intro step_kept_frame [OF cl]) (auto simp: idle_def intro: touches_mono)
  moreover have "know dir a (phi' (fst (f n))) c g (snd (f n))"
    using kn i assms(2) [OF cl kn] idle_view [OF i] by (auto simp: know_def idle_def touches_def)
  ultimately show "step_kept dir g n (snd (f n)) \<and> know dir a (phi' (fst (f n))) c g (snd (f n))" by blast
qed (cases c; auto)

lemma on_sys_snd [simp]:
  "n_cache (snd (on_sys f n)) = n_cache n" "n_sys (snd (on_sys f n)) = snd (f (n_sys n))"
  "fst (on_sys f n) = fst (f (n_sys n))"
  "n_cache (snd (on_world w n)) = n_cache n" "n_world (snd (on_world w n)) = snd (w (n_world n))"
  "fst (on_world w n) = fst (w (n_world n))"
  by (simp_all add: on_sys_def on_world_def call_sys_def split: prod.split)

definition harmless :: "(sys \<Rightarrow> 'r \<times> sys) \<Rightarrow> bool" where
  "harmless f \<longleftrightarrow> (\<forall>s. touches {} s (snd (f s)) \<and> sys_dirs (snd (f s)) = sys_dirs s)"

lemma harmless_calls [simp]: "harmless (stat p)" "harmless (close_file p)" "harmless now" "harmless (read_metadata p)"
proof -
  have "touches {} s (snd (read_metadata p s))" for s using read_metadata_frame [of p s] by (simp add: touches_def)
  then show "harmless (read_metadata p)" using read_metadata_frame by (simp add: harmless_def)
qed (simp_all add: harmless_def)

lemma triple_call:
  assumes "harmless f"
    and "\<And>g (n :: 'v node). claims dir g n \<Longrightarrow> know dir a phi c g n \<Longrightarrow> phi' (fst (f (n_sys n))) (view_of dir a n)"
  shows "flight.triple dir (know dir a phi c) (os_call f :: ('v node, 'r) proc) (\<lambda>r. know dir a (phi' r) c)"
  unfolding os_call_def by (rule triple_idle) (use assms in \<open>simp_all add: idle_def harmless_def\<close>)

lemma triple_dir:
  assumes "flight.triple dir (know dir a phi c) (k dir) post"
  shows "flight.triple dir (know dir a phi c) (with_dir k) post"
proof -
  have "flight.triple dir (know dir a phi c) (act (\<lambda>n. (dc_dir (n_cache n), n))) (\<lambda>d. know dir a (\<lambda>v. phi v \<and> d = dir) c)"
    by (rule triple_idle) (auto simp: idle_def know_def claims_def disk_inv_def)
  then show ?thesis
    unfolding with_dir_def by (rule flight.triple_andthen) (rule know_fact, use assms in simp)
qed

text \<open>Critical sections.\<close>

lemma triple_locked:
  assumes "\<And>dc s r dc' s'. f dc s = (r, dc', s') \<Longrightarrow> dc_ok dc \<Longrightarrow> dc_dir dc = dir \<Longrightarrow>
      dc_ok dc' \<and> dc_dir dc' = dir \<and> (\<forall>k. k \<noteq> a \<longrightarrow> dc_entries dc' k = dc_entries dc k)
      \<and> touches {} s s' \<and> sys_dirs s' = sys_dirs s"
    and "\<And>dc s v. dc_ok dc \<Longrightarrow> dc_dir dc = dir \<Longrightarrow> phi v \<Longrightarrow> v_entry v = dc_entries dc a \<Longrightarrow>
      phi' (fst (f dc s)) (v\<lparr>v_entry := dc_entries (fst (snd (f dc s))) a\<rparr>)"
  shows "flight.triple dir (know dir a phi c) (locked f :: ('v node, 'r) proc) (\<lambda>r. know dir a (phi' r) c)"
  unfolding locked_def
proof (rule triple_step)
  fix g :: claim and n :: "'v node"
  assume cl: "claims dir g n" and kn: "know dir a phi c g n"
  obtain r dc s where f: "f (n_cache n) (n_sys n) = (r, dc, s)" by (cases "f (n_cache n) (n_sys n)")
  have n: "on_locked f n = (r, n\<lparr>n_cache := dc, n_world := (n_world n)\<lparr>w_sys := s\<rparr>\<rparr>)" by (simp add: on_locked_def f)
  have ok: "dc_ok (n_cache n)" "dc_dir (n_cache n) = dir" using cl by (simp_all add: claims_def disk_inv_def)
  note s1 = assms(1) [OF f ok]
  have "step_kept dir g n (snd (on_locked f n))"
    using s1 kn by (auto simp: n step_kept_def know_def intro: touches_mono)
  moreover have "view_of dir a (snd (on_locked f n)) = (view_of dir a n)\<lparr>v_entry := dc_entries dc a\<rparr>"
  proof -
    have "sys_files s = sys_files (n_sys n)" using s1 by (auto simp: touches_def)
    with s1 show ?thesis by (simp add: view_of_def n)
  qed
  moreover have "phi' r ((view_of dir a n)\<lparr>v_entry := dc_entries dc a\<rparr>)"
    using assms(2) [OF ok, of "view_of dir a n" "n_sys n"] kn f by (simp add: know_def view_of_def)
  ultimately show "step_kept dir g n (snd (on_locked f n)) \<and> know dir a (phi' (fst (on_locked f n))) c g (snd (on_locked f n))"
    using kn s1 by (auto simp: n know_def touches_def)
qed (cases c; auto)

text \<open>Temporary files.\<close>

lemma temp_own: "claims dir g n \<Longrightarrow> snd g = Some t \<Longrightarrow> t \<in> own_files dir g (n_sys n)"
  by (auto simp: claims_def own_files_def)

lemma temp_view:
  assumes "n_cache n' = n_cache n" and "only_file t (n_sys n) (n_sys n')" and "t \<in> temps dir"
  shows "view_of dir a n' = view_of dir a n"
proof (rule view_files [OF assms(1)])
  have "p \<noteq> t" if "body_path dir a = Some p \<or> metadata_path dir a = Some p" for p
    using that assms(3) body_not_temp [of dir a p] by auto
  then show "body_path dir a = Some p \<Longrightarrow> sys_files (n_sys n') p = sys_files (n_sys n) p"
    "metadata_path dir a = Some p \<Longrightarrow> sys_files (n_sys n') p = sys_files (n_sys n) p" for p
    using assms(2) by (auto simp: only_file_def touches_def)
qed (use assms(2) in \<open>simp add: only_file_def view_of_def\<close>)

lemma triple_temp:
  assumes "\<And>n :: 'v node. n_cache (snd (f n)) = n_cache n \<and> only_file t (n_sys n) (n_sys (snd (f n)))"
    and "\<And>(n :: 'v node) fl v. disk_ok dir n \<Longrightarrow> sys_files (n_sys n) t = Some fl \<Longrightarrow> P (f_data fl) \<Longrightarrow> phi v \<Longrightarrow>
      phi' (fst (f n)) v \<and> (\<forall>u P'. c' (fst (f n)) = Some (u, P') \<longrightarrow>
        u = t \<and> (\<exists>fl'. sys_files (n_sys (snd (f n))) t = Some fl' \<and> P' (f_data fl')))"
    and "\<And>r. c' r = None \<or> (\<exists>P'. c' r = Some (t, P'))"
  shows "flight.triple dir (know dir a phi (Some (t, P))) (act f) (\<lambda>r. know dir a (phi' r) (c' r))"
proof (rule triple_step)
  fix g :: claim and n :: "'v node"
  assume cl: "claims dir g n" and kn: "know dir a phi (Some (t, P)) g n"
  have t: "t \<in> temps dir" using cl kn by (auto simp: claims_def know_def)
  have n: "n_cache (snd (f n)) = n_cache n" "only_file t (n_sys n) (n_sys (snd (f n)))" using assms(1) by auto
  have "touches (own_files dir g (n_sys n)) (n_sys n) (n_sys (snd (f n)))"
    using n(2) temp_own [OF cl] kn by (auto simp: only_file_def know_def intro: touches_mono)
  then have "step_kept dir g n (snd (f n))"
    using n by (intro step_kept_frame [OF cl]) (auto simp: only_file_def)
  moreover obtain fl where fl: "sys_files (n_sys n) t = Some fl" "P (f_data fl)" using kn by (auto simp: know_def)
  moreover have "disk_ok dir n" "phi (view_of dir a n)" using cl kn by (simp_all add: claims_def know_def)
  ultimately show "step_kept dir g n (snd (f n)) \<and> know dir a (phi' (fst (f n))) (c' (fst (f n))) g (snd (f n))"
    using assms(2) [of n fl "view_of dir a n"] temp_view [OF n t, of a] kn by (auto simp: know_def)
qed (use assms(3) in blast)

lemma triple_create:
  "flight.triple dir (know dir a phi c) (temp_file_step :: ('v node, err + path) proc)
     (\<lambda>r. know dir a phi (case r of Inl e \<Rightarrow> None | Inr t \<Rightarrow> Some (t, \<lambda>d. d = [])))"
  unfolding temp_file_step_def os_call_def
proof (intro triple_dir flight.triple_act know_stable)
  fix g :: claim and n :: "'v node"
  assume cl: "claims dir g n" and kn: "know dir a phi c g n"
  let ?f = "on_sys (create_temp dir) n" and ?g = "\<lambda>r. (a, case r of Inl e \<Rightarrow> None | Inr t \<Rightarrow> Some t)"
  let ?t = "temp_name dir (sys_rand (n_sys n) (sys_calls (n_sys n)))"
  have "fst ?f = Inr ?t \<and> sys_files (n_sys n) ?t = None \<and> only_file ?t (n_sys n) (n_sys (snd ?f))
      \<and> (\<exists>f. sys_files (n_sys (snd ?f)) ?t = Some f \<and> f_data f = []) \<or> (\<exists>e. fst ?f = Inl e) \<and> n_sys (snd ?f) = called (n_sys n)"
    by (auto simp: create_temp_def Let_def only_file_def touches_def same_oracles_def)
  then consider (made) f where "fst ?f = Inr ?t" "sys_files (n_sys n) ?t = None" "only_file ?t (n_sys n) (n_sys (snd ?f))"
      "sys_files (n_sys (snd ?f)) ?t = Some f" "f_data f = []"
    | (failed) e where "fst ?f = Inl e" "idle n (snd ?f)"
    by (auto simp: idle_def)
  then show "\<exists>g'. effect dir g g' n (snd ?f) \<and> know dir a phi (case fst ?f of Inl e \<Rightarrow> None | Inr t \<Rightarrow> Some (t, \<lambda>d. d = [])) g' (snd ?f)"
  proof cases
    case made
    have "touches (own_files dir g (n_sys n)) (n_sys n) (n_sys (snd ?f))"
      using made(2, 3) by (auto simp: only_file_def own_files_def intro: touches_mono)
    then have "step_kept dir g n (snd ?f)" using made(3) by (intro step_kept_frame [OF cl]) (auto simp: only_file_def)
    from step_kept_others [OF cl this] made kn temp_view [of "snd ?f" n ?t dir a] show ?thesis
      by (intro exI [of _ "?g (fst ?f)"]) (auto simp: effect_def know_def)
  next
    case failed
    then have "step_kept dir g n (snd ?f)" by (intro step_kept_frame [OF cl]) (auto simp: idle_def intro: touches_mono)
    from step_kept_others [OF cl this] failed kn idle_view [OF failed(2), of dir a] show ?thesis
      by (intro exI [of _ "?g (fst ?f)"]) (auto simp: effect_def know_def)
  qed
qed

lemma triple_write:
  "flight.triple dir (know dir a phi (Some (t, \<lambda>d. d = []))) (os_call (write_data t data) :: ('v node, _) proc)
     (\<lambda>r. know dir a (\<lambda>v. phi v \<and> r = Inr ()) (Some (t, \<lambda>d. d = data)))"
  unfolding os_call_def
proof (rule triple_temp)
  fix n :: "'v node" and fl and v
  assume "disk_ok dir n" "sys_files (n_sys n) t = Some fl" "f_data fl = []" "phi v"
  then show "(phi v \<and> fst (on_sys (write_data t data) n) = Inr ()) \<and>
      (\<forall>u P'. Some (t, \<lambda>d. d = data) = Some (u, P') \<longrightarrow> u = t \<and>
        (\<exists>fl'. sys_files (n_sys (snd (on_sys (write_data t data) n))) t = Some fl' \<and> P' (f_data fl')))"
    by (auto simp: write_data_def append_data_def disk_inv_def split: option.split)
qed (simp_all add: only_file_write)

lemma triple_download:
  "flight.triple dir (know dir a phi (Some (t, \<lambda>d. d = []))) (world_call (download_to c dg t) :: ('v node, _) proc)
     (\<lambda>r. know dir a phi (Some (t, \<lambda>d. fst r = None \<longrightarrow> d = snd r)))"
  unfolding world_call_def
proof (rule triple_temp)
  fix n :: "'v node" and fl and v
  obtain e h w where d: "download_to c dg t (n_world n) = ((e, h), w)" by (metis prod.collapse)
  note only = download_to_only [OF d]
  show "n_cache (snd (on_world (download_to c dg t) n)) = n_cache n \<and>
      only_file t (n_sys n) (n_sys (snd (on_world (download_to c dg t) n)))"
    using only(1) by (simp add: d)
  assume fl: "disk_ok dir n" "sys_files (n_sys n) t = Some fl" "f_data fl = []" "phi v"
  then have "\<exists>fl'. sys_files (w_sys w) t = Some fl' \<and> (e = None \<longrightarrow> f_data fl' = h)"
  proof (cases e)
    case None
    with only(2) fl show ?thesis by (auto simp: holds_def)
  next
    case (Some x)
    have "sys_files (w_sys w) t \<noteq> None" by (rule only(3)) (use fl in simp)
    with Some show ?thesis by auto
  qed
  with fl show "phi v \<and> (\<forall>u P'. Some (t, \<lambda>d. fst (fst (on_world (download_to c dg t) n)) = None \<longrightarrow> d = snd (fst (on_world (download_to c dg t) n))) = Some (u, P') \<longrightarrow> u = t \<and>
        (\<exists>fl'. sys_files (n_sys (snd (on_world (download_to c dg t) n))) t = Some fl' \<and> P' (f_data fl')))"
    by (auto simp: d)
qed simp

lemma triple_remove_temp:
  "flight.triple dir (know dir a phi (Some (t, P))) (remove_file_step t :: ('v node, unit) proc) (\<lambda>r. know dir a phi None)"
  unfolding remove_file_step_def os_call_def
  by (rule triple_temp) (auto simp: only_file_def remove_def touches_def same_oracles_def)

text \<open>The body and the metadata.\<close>

definition has_body :: "(bytes \<Rightarrow> bool) \<Rightarrow> view \<Rightarrow> bool" where
  "has_body P v \<longleftrightarrow> (\<exists>f. v_body v = Some f \<and> P (f_data f)) \<and> \<not> v_isdir v"

lemma own_paths:
  "body_path dir (fst g) = Some p \<Longrightarrow> p \<in> own_files dir g s"
  "metadata_path dir (fst g) = Some q \<Longrightarrow> q \<in> own_files dir g s \<and> q @ ''.tmp'' \<in> own_files dir g s"
  by (simp_all add: own_files_def)

lemma triple_rename:
  assumes "body_path dir a = Some bp"
  shows "flight.triple dir (know dir a phi (Some (t, P))) (os_call (rename t bp) :: ('v node, _) proc)
    (\<lambda>r. know dir a (\<lambda>v. case r of Inl e \<Rightarrow> phi v | Inr u \<Rightarrow> has_body P v) None)"
  unfolding os_call_def
proof (rule triple_step)
  fix g :: claim and n :: "'v node"
  assume cl: "claims dir g n" and kn: "know dir a phi (Some (t, P)) g n"
  let ?n = "snd (on_sys (rename t bp) n)"
  have "touches (own_files dir g (n_sys n)) (n_sys n) (n_sys ?n)"
    using calls_touch(11) [OF temp_own [OF cl] own_paths(1)] kn assms by (simp add: know_def)
  then have "step_kept dir g n ?n" by (intro step_kept_frame [OF cl]) (simp_all add: calls_dirs)
  moreover have "know dir a (\<lambda>v. case fst (on_sys (rename t bp) n) of Inl e \<Rightarrow> phi v | Inr u \<Rightarrow> has_body P v) None g ?n"
  proof (cases "rename t bp (n_sys n)")
    case (Pair r s)
    show ?thesis
    proof (cases r)
      case (Inl e)
      have "s = called (n_sys n)" using rename_failed Pair Inl by blast
      then have "idle n ?n" by (simp add: idle_def Pair)
      from idle_view [OF this, of dir a] show ?thesis using kn Pair Inl by (simp add: know_def)
    next
      case (Inr u)
      with Pair rename_ok obtain f where f: "sys_files (n_sys n) t = Some f"
        "sys_files s = (sys_files (n_sys n))(t := None, bp \<mapsto> f)" by blast
      moreover have "bp \<notin> sys_dirs s" using Pair Inr by (auto simp: rename_def split: if_splits option.splits)
      ultimately show ?thesis
        using kn Pair Inr assms by (auto simp: know_def has_body_def view_of_def)
    qed
  qed
  ultimately show "step_kept dir g n ?n \<and>
      know dir a (\<lambda>v. case fst (on_sys (rename t bp) n) of Inl e \<Rightarrow> phi v | Inr u \<Rightarrow> has_body P v) None g ?n" ..
qed simp

lemma triple_write_metadata:
  assumes "metadata_path dir a = Some mp" and "key_ok a"
  shows "flight.triple dir (know dir a (has_body P) None) (os_call (write_metadata mp m) :: ('v node, _) proc)
    (\<lambda>r. know dir a (has_body P) None)"
  unfolding os_call_def
proof (rule triple_step)
  fix g :: claim and n :: "'v node"
  assume cl: "claims dir g n" and kn: "know dir a (has_body P) None g n"
  obtain r s where w: "write_metadata mp m (n_sys n) = (r, s)" by (cases "write_metadata mp m (n_sys n)")
  let ?n = "snd (on_sys (write_metadata mp m) n)"
  obtain bp where bp: "body_path dir a = Some bp" "filepath_dir mp = shard_dir dir a"
    using key_paths [OF assms(2), of dir] assms(1) by auto
  have t: "touches {mp, mp @ ''.tmp''} (n_sys n) s" using write_metadata_touches [of mp "n_sys n" m] w by simp
  have "{mp, mp @ ''.tmp''} \<subseteq> own_files dir g (n_sys n)"
    using own_paths(2) [of dir g mp] assms(1) kn by (simp add: know_def)
  from touches_mono [OF t this] have "touches (own_files dir g (n_sys n)) (n_sys n) (n_sys ?n)" by (simp add: w)
  moreover have "length (filepath_dir mp) \<le> length dir + 3" by (simp add: bp(2) shard_dir_def)
  ultimately have kept: "step_kept dir g n ?n"
    using write_metadata_dirs [OF w] by (intro step_kept_frame [OF cl]) (auto simp: w)
  have "sys_files s bp = sys_files (n_sys n) bp"
    using t body_metadata_differ [OF bp(1) assms(1)] by (simp add: touches_def)
  with step_kept_isdir [OF kept, of a] kn bp(1) have "know dir a (has_body P) None g ?n"
    by (simp add: know_def has_body_def view_of_def w)
  with kept show "step_kept dir g n ?n \<and> know dir a (has_body P) None g ?n" ..
qed simp

lemma triple_remove:
  assumes "body_path dir a = Some p \<and> (\<forall>v. phi v \<longrightarrow> phi' (v\<lparr>v_body := None\<rparr>))
    \<or> metadata_path dir a = Some p \<and> (\<forall>v. phi v \<longrightarrow> phi' (v\<lparr>v_meta := None\<rparr>))"
  shows "flight.triple dir (know dir a phi None) (remove_file_step p :: ('v node, unit) proc) (\<lambda>r. know dir a phi' None)"
  unfolding remove_file_step_def os_call_def
proof (rule triple_step)
  fix g :: claim and n :: "'v node"
  assume cl: "claims dir g n" and kn: "know dir a phi None g n"
  let ?n = "snd (on_sys (\<lambda>s. ((), remove p s)) n)"
  have a: "fst g = a" "phi (view_of dir a n)" "key_ok a" using cl kn by (auto simp: know_def claims_def)
  have "p \<in> own_files dir g (n_sys n)" using assms own_paths [of dir g] a(1) by blast
  then have kept: "step_kept dir g n ?n"
    using calls_touch(8) by (intro step_kept_frame [OF cl]) (simp_all add: calls_dirs)
  have files: "sys_files (n_sys ?n) = (sys_files (n_sys n))(p := None)" "sys_dirs (n_sys ?n) = sys_dirs (n_sys n)"
    using cl by (auto simp: remove_def claims_def disk_inv_def)
  obtain bp mp where p: "body_path dir a = Some bp" "metadata_path dir a = Some mp" using key_paths [OF a(3)] by blast
  have "view_of dir a ?n = (if p = bp then (view_of dir a n)\<lparr>v_body := None\<rparr> else (view_of dir a n)\<lparr>v_meta := None\<rparr>)"
    using files p assms body_metadata_differ [OF p] by (auto simp: view_of_def)
  then have "know dir a phi' None g ?n" using a(1, 2) assms p body_metadata_differ [OF p] by (auto simp: know_def)
  with kept show "step_kept dir g n ?n \<and> know dir a phi' None g ?n" ..
qed simp

lemma triple_mkdir:
  "length d \<le> length dir + 3 \<Longrightarrow>
   flight.triple dir (know dir a phi c) (os_call (mkdir_all d) :: ('v node, _) proc) (\<lambda>r. know dir a phi c)"
  unfolding os_call_def
proof (rule triple_step)
  fix g :: claim and n :: "'v node"
  assume d: "length d \<le> length dir + 3" and cl: "claims dir g n" and kn: "know dir a phi c g n"
  let ?n = "snd (on_sys (mkdir_all d) n)"
  have t: "touches {} (n_sys n) (n_sys ?n)" using calls_touch(3) by simp
  have "length q \<le> length d" if "q \<in> set (dir_prefixes [] d)" for q using dir_prefixes_length [OF that] by simp
  then have "sys_dirs (snd (mkdir_all d (n_sys n))) \<subseteq> sys_dirs (n_sys n) \<union> {q. length q \<le> length d}"
    by (auto simp: mkdir_all_def)
  with d have kept: "step_kept dir g n ?n"
    using t by (intro step_kept_frame [OF cl]) (auto intro: touches_mono)
  have "view_of dir a ?n = view_of dir a n"
    by (rule view_files) (use t step_kept_isdir [OF kept] in \<open>simp_all add: touches_def\<close>)
  with kept kn t show "step_kept dir g n ?n \<and> know dir a phi c g ?n" by (auto simp: know_def touches_def)
qed (cases c; auto)

subsection \<open>The cache\<close>

text \<open>The rule for a call whose error is passed on, and for one whose result does not matter.\<close>

lemmas triple_then = flight.triple_andthen [rotated 1]

lemma triple_ensure_dir:
  assumes "length d \<le> length dir + 3"
  shows "flight.triple dir (know dir a phi c) (ensure_dir_steps d :: ('v node, _) proc) (\<lambda>r. know dir a phi c)"
  unfolding ensure_dir_steps_def
proof (rule triple_check)
  show "flight.triple dir (know dir a phi c) (os_call (stat d) :: ('v node, _) proc) (\<lambda>r. know dir a phi c)"
    by (rule triple_call) (simp_all add: know_def)
  show "flight.triple dir (know dir a phi c) (Done (Inr ()) :: ('v node, err + unit) proc) (\<lambda>r. know dir a phi c)"
    by (rule flight.triple_done [OF know_stable])
qed (rule triple_mkdir [OF assms])

definition v_stored :: "metadata \<Rightarrow> (bytes \<Rightarrow> bool) \<Rightarrow> view \<Rightarrow> bool" where
  "v_stored m P v \<longleftrightarrow> v_known v = Some m \<and> has_body P v"

definition digest_of :: "metadata \<Rightarrow> bytes \<Rightarrow> bool" where
  "digest_of m data \<longleftrightarrow> hex_encode (sha256 data) = m_casHash m \<and> int (length data) = m_casSize m"

lemma v_stored_intact: "v_stored m P v \<Longrightarrow> (\<And>data. P data \<Longrightarrow> digest_of m data) \<Longrightarrow> v_intact v"
  by (auto simp: v_stored_def has_body_def v_intact_def digest_of_def)

lemma triple_index:
  assumes "body_path dir a = Some bp"
  shows "flight.triple dir (know dir a (has_body P) None)
    (locked (\<lambda>dc s. case now s of (t, s1) \<Rightarrow> ((), index_entry a bp m t dc, s1)) :: ('v node, unit) proc)
    (\<lambda>r. know dir a (v_stored m P) None)"
proof (rule triple_locked)
  fix dc dc' :: disk_cache and s s' r
  assume "(case now s of (t, s1) \<Rightarrow> ((), index_entry a bp m t dc, s1)) = (r, dc', s')" "dc_ok dc" "dc_dir dc = dir"
  then show "dc_ok dc' \<and> dc_dir dc' = dir \<and> (\<forall>k. k \<noteq> a \<longrightarrow> dc_entries dc' k = dc_entries dc k) \<and> touches {} s s' \<and> sys_dirs s' = sys_dirs s"
    using assms index_entry_ok [of dc a bp m "fst (now s)"] by (auto simp: now_def)
next
  fix dc :: disk_cache and s v
  assume "has_body P v"
  moreover have "bp \<noteq> []" using assms by (auto simp: body_path_def split: if_splits)
  ultimately show "v_stored m P (v\<lparr>v_entry := dc_entries (fst (snd (case now s of (t, s1) \<Rightarrow> ((), index_entry a bp m t dc, s1)))) a\<rparr>)"
    by (simp add: now_def v_stored_def has_body_def v_known_def v_cached_def)
qed

lemma triple_install:
  assumes "key_ok a" and "body_path dir a = Some bp" and "\<And>data. P data \<Longrightarrow> digest_of m data"
  shows "flight.triple dir (know dir a v_intact (Some (t, P))) (install_steps a t m :: ('v node, _) proc)
    (\<lambda>r. know dir a (\<lambda>v. v_intact v \<and> (\<forall>p. r = Inr p \<longrightarrow> p = bp \<and> v_stored m P v)) None)"
    (is "flight.triple dir ?pre _ ?post")
proof -
  obtain mp where mp: "metadata_path dir a = Some mp" and bd: "filepath_dir bp = shard_dir dir a"
    using key_paths [OF assms(1), of dir] assms(2) by auto
  have len: "length (filepath_dir bp) \<le> length dir + 3" by (simp add: bd shard_dir_def)
  let ?index = "locked (\<lambda>dc s. case now s of (t, s1) \<Rightarrow> ((), index_entry a bp m t dc, s1)) :: ('v node, unit) proc"
  have stored: "flight.triple dir (know dir a (has_body P) None) (andthen ?index (\<lambda>_. Done (Inr bp))) ?post"
    by (rule flight.triple_andthen [OF triple_index [OF assms(2), where m = m]], rule triple_return)
      (use v_stored_intact [OF _ assms(3)] in auto)
  have undone: "flight.triple dir (know dir a (has_body P) None)
      (andthen (remove_file_step bp) (\<lambda>_. Done (Inl (Wrapped ''write metadata'' e)) :: ('v node, _) proc)) ?post" for e
    by (rule flight.triple_andthen [OF triple_remove [where phi' = "\<lambda>v. v_body v = None \<and> \<not> v_isdir v"] triple_return])
      (use assms(2) in \<open>auto simp: has_body_def v_intact_def v_there_def\<close>)
  show ?thesis
    unfolding install_steps_def
  proof (rule triple_dir, simp add: assms(2) mp, rule triple_check [OF triple_ensure_dir [OF len]])
    show "flight.triple dir ?pre (Done (Inl (Wrapped ''mkdir'' e)) :: ('v node, _) proc) ?post" for e
      by (rule know_forget, rule triple_return) simp
    show "flight.triple dir ?pre (check (os_call (rename t bp)) (\<lambda>e. Done (Inl (Wrapped ''rename body'' e)))
        (\<lambda>_. check (os_call (write_metadata mp m))
          (\<lambda>e. andthen (remove_file_step bp) (\<lambda>_. Done (Inl (Wrapped ''write metadata'' e))))
          (\<lambda>_. andthen ?index (\<lambda>_. Done (Inr bp))))) ?post"
    proof (rule triple_check [OF triple_rename [OF assms(2)]]; simp)
      show "flight.triple dir (know dir a v_intact None) (Done (Inl (Wrapped ''rename body'' e)) :: ('v node, _) proc) ?post" for e
        by (rule triple_return) simp
      show "flight.triple dir (know dir a (has_body P) None) (check (os_call (write_metadata mp m))
          (\<lambda>e. andthen (remove_file_step bp) (\<lambda>_. Done (Inl (Wrapped ''write metadata'' e))))
          (\<lambda>_. andthen ?index (\<lambda>_. Done (Inr bp)))) ?post"
        by (rule triple_check [OF triple_write_metadata [OF mp assms(1)] undone stored])
    qed
  qed
qed

text \<open>A lookup that hits has found the metadata and the body.\<close>

definition v_serves :: "path \<Rightarrow> string \<Rightarrow> metadata \<Rightarrow> path \<Rightarrow> view \<Rightarrow> bool" where
  "v_serves dir a m p v \<longleftrightarrow> v_known v = Some m \<and> v_there v \<and> body_path dir a = Some p"

definition found :: "path \<Rightarrow> string \<Rightarrow> lookup_result \<Rightarrow> view \<Rightarrow> bool" where
  "found dir a r v \<longleftrightarrow> v_intact v \<and> (case r of (meta, p, hit) \<Rightarrow> hit \<longrightarrow> (\<exists>m. meta = Some m \<and> v_serves dir a m p v))"

lemma touch_locked:
  fixes upd :: "entry \<Rightarrow> entry"
  assumes "\<And>e. upd e = e \<or> (\<exists>m bp. upd e = e\<lparr>e_meta := Some m, e_bodyPath := bp\<rparr> \<and> body_path dir a = Some bp)"
    and "\<And>v t. phi v \<Longrightarrow> phi' (v\<lparr>v_entry := map_option (\<lambda>e. upd (e\<lparr>e_access := t\<rparr>)) (v_entry v)\<rparr>)"
  shows "flight.triple dir (know dir a phi c) (touch_step a upd :: ('v node, unit) proc) (\<lambda>r. know dir a phi' c)"
  unfolding touch_step_def
proof (rule triple_locked)
  fix dc dc' :: disk_cache and s s' r
  assume f: "(case touch_entry a upd dc s of (dc1, s1) \<Rightarrow> ((), pin a dc1, s1)) = (r, dc', s')" and ok: "dc_ok dc" "dc_dir dc = dir"
  obtain dc1 where t: "touch_entry a upd dc s = (dc1, s')" "dc' = pin a dc1" using f by (auto split: prod.splits)
  note fr = touch_entry_frame [OF t(1)]
  have "dc_ok dc1" by (rule touch_entry_ok(1) [OF t(1) ok(1)]) (use assms(1) ok(2) in blast)
  with t fr ok show "dc_ok dc' \<and> dc_dir dc' = dir \<and> (\<forall>k. k \<noteq> a \<longrightarrow> dc_entries dc' k = dc_entries dc k) \<and> touches {} s s' \<and> sys_dirs s' = sys_dirs s"
    by (simp add: touches_def)
next
  fix dc :: disk_cache and s v
  assume "phi v" "v_entry v = dc_entries dc a"
  moreover have "v\<lparr>v_entry := v_entry v\<rparr> = v" by simp
  ultimately show "phi' (v\<lparr>v_entry := dc_entries (fst (snd (case touch_entry a upd dc s of (dc1, s1) \<Rightarrow> ((), pin a dc1, s1)))) a\<rparr>)"
    using assms(2) [of v "fst (now s)"] by (auto simp: touch_entry_def split: option.splits prod.splits)
qed

lemma v_touch [simp]:
  "v_there (v\<lparr>v_entry := e\<rparr>) = v_there v" "has_body P (v\<lparr>v_entry := e\<rparr>) = has_body P v"
  "v_disk (v\<lparr>v_entry := e\<rparr>) = v_disk v" "v_body (v\<lparr>v_entry := e\<rparr>) = v_body v"
  by (simp_all add: v_there_def has_body_def v_disk_def)

lemma triple_read:
  "flight.triple dir (know dir a v_intact None) (locked (\<lambda>dc s. (cached_meta a dc, dc, s)) :: ('v node, _) proc)
    (\<lambda>r. know dir a (\<lambda>v. v_intact v \<and> v_cached v = r
       \<and> (\<forall>m p. r = Some (m, p) \<longrightarrow> p \<noteq> [] \<longrightarrow> body_path dir a = Some p)) None)"
proof (rule triple_locked)
  fix dc :: disk_cache and s :: sys and v
  assume ok: "dc_ok dc" "dc_dir dc = dir" and v: "v_intact v" "v_entry v = dc_entries dc a"
  have same: "v\<lparr>v_entry := dc_entries dc a\<rparr> = v" using v(2) [symmetric] by simp
  have "v_cached v = cached_meta a dc" by (simp add: v_cached_def cached_meta_def v(2))
  moreover have "body_path dir a = Some p" if "cached_meta a dc = Some (m, p)" "p \<noteq> []" for m p
    using that dc_ok_entry [OF ok(1)] ok(2) by (fastforce simp: cached_meta_def split: option.splits)
  ultimately show "v_intact (v\<lparr>v_entry := dc_entries (fst (snd (cached_meta a dc, dc, s))) a\<rparr>)
      \<and> v_cached (v\<lparr>v_entry := dc_entries (fst (snd (cached_meta a dc, dc, s))) a\<rparr>) = fst (cached_meta a dc, dc, s)
      \<and> (\<forall>m p. fst (cached_meta a dc, dc, s) = Some (m, p) \<longrightarrow> p \<noteq> [] \<longrightarrow> body_path dir a = Some p)"
    using v(1) by (simp add: same)
qed auto

lemma triple_evict:
  "flight.triple dir (know dir a v_intact None) (locked (\<lambda>dc s. ((), mark_evicted a dc, s)) :: ('v node, unit) proc)
    (\<lambda>r. know dir a v_intact None)"
proof (rule triple_locked)
  fix dc :: disk_cache and s :: sys and v
  assume v: "v_intact v" "v_entry v = dc_entries dc a"
  have same: "v\<lparr>v_entry := v_entry v\<rparr> = v" by simp
  show "v_intact (v\<lparr>v_entry := dc_entries (fst (snd ((), mark_evicted a dc, s))) a\<rparr>)"
  proof (cases "dc_entries dc a")
    case None
    with v(2) same have "v\<lparr>v_entry := None\<rparr> = v" by metis
    with None v(1) show ?thesis by (simp add: mark_evicted_def)
  next
    case (Some e)
    with v show ?thesis
      by (cases "e_meta e") (auto simp: mark_evicted_def v_intact_def v_known_def v_cached_def)
  qed
qed (auto simp: mark_evicted_ok)

lemma triple_stat_body:
  assumes "body_path dir a = Some bp"
  shows "flight.triple dir (know dir a phi None) (os_call (stat bp) :: ('v node, _) proc)
    (\<lambda>r. know dir a (\<lambda>v. phi v \<and> (\<forall>i. r = Inr i \<longrightarrow> v_there v)) None)"
proof (rule triple_call)
  fix g and n :: "'v node"
  assume cl: "claims dir g n" and kn: "know dir a phi None g n"
  have "on_disk (n_sys n) bp" if "fst (stat bp (n_sys n)) = Inr i" for i
    using stat_on_disk [of "n_sys n" bp] cl that by (auto simp: claims_def disk_inv_def)
  with kn assms show "phi (view_of dir a n) \<and> (\<forall>i. fst (stat bp (n_sys n)) = Inr i \<longrightarrow> v_there (view_of dir a n))"
    by (auto simp: know_def v_there_def view_of_def on_disk_def)
qed simp

lemma triple_read_metadata:
  assumes "metadata_path dir a = Some mp"
  shows "flight.triple dir (know dir a phi None) (os_call (read_metadata mp) :: ('v node, _) proc)
    (\<lambda>r. know dir a (\<lambda>v. phi v \<and> (\<forall>m. r = Inr m \<longrightarrow> v_disk v = Some m)) None)"
proof (rule triple_call)
  fix g and n :: "'v node"
  assume cl: "claims dir g n" and kn: "know dir a phi None g n"
  have "disk_meta (n_sys n) mp = Some m" if "fst (read_metadata mp (n_sys n)) = Inr m" for m
    using read_metadata_disk_meta [of "n_sys n" mp] cl that by (simp add: claims_def disk_inv_def)
  moreover have "v_disk (view_of dir a n) = disk_meta (n_sys n) mp"
    using assms by (simp add: v_disk_def view_of_def disk_meta_def)
  ultimately show "phi (view_of dir a n) \<and> (\<forall>m. fst (read_metadata mp (n_sys n)) = Inr m \<longrightarrow> v_disk (view_of dir a n) = Some m)"
    using kn by (simp add: know_def)
qed simp

lemma triple_miss:
  "flight.triple dir (know dir a v_intact None) (Done (meta, p, False) :: ('v node, _) proc) (\<lambda>r. know dir a (found dir a r) None)"
  by (rule triple_return) (simp add: found_def)

lemma triple_hit:
  "flight.triple dir (know dir a (\<lambda>v. v_intact v \<and> v_serves dir a m p v) None) (Done (Some m, p, True) :: ('v node, _) proc)
    (\<lambda>r. know dir a (found dir a r) None)"
  by (rule triple_return) (simp add: found_def)

lemma triple_lookup_cached:
  assumes "p \<noteq> [] \<Longrightarrow> body_path dir a = Some p"
  shows "flight.triple dir (know dir a (\<lambda>v. v_intact v \<and> v_cached v = Some (m, p)) None)
    (lookup_cached_steps a m p :: ('v node, _) proc) (\<lambda>r. know dir a (found dir a r) None)"
proof (cases "p = []")
  case True
  then show ?thesis by (simp add: lookup_cached_steps_def) (rule know_weaken [OF _ triple_miss], simp)
next
  case False
  note bp = assms [OF False]
  have hit: "flight.triple dir (know dir a (\<lambda>v. (v_intact v \<and> v_cached v = Some (m, p)) \<and> (\<forall>i. Inr x = Inr i \<longrightarrow> v_there v)) None)
      (andthen (touch_step a (\<lambda>e. e)) (\<lambda>_. Done (Some m, p, True)) :: ('v node, lookup_result) proc)
      (\<lambda>r. know dir a (found dir a r) None)" for x :: file_info
    by (rule flight.triple_andthen [OF touch_locked triple_hit])
      (use bp False in \<open>auto simp: v_intact_def v_serves_def v_known_def v_cached_def split: option.splits\<close>)
  have gone: "flight.triple dir (know dir a (\<lambda>v. (v_intact v \<and> v_cached v = Some (m, p)) \<and> (\<forall>i. Inl e = Inr i \<longrightarrow> v_there v)) None)
      (andthen (locked (\<lambda>dc s. ((), mark_evicted a dc, s))) (\<lambda>_. Done (Some m, [], False)) :: ('v node, lookup_result) proc)
      (\<lambda>r. know dir a (found dir a r) None)" for e :: err
    by (rule know_weaken [OF _ flight.triple_andthen [OF triple_evict triple_miss]]) simp
  show ?thesis
    unfolding lookup_cached_steps_def using False triple_check [OF triple_stat_body [OF bp] gone hit] by simp
qed

lemma triple_lookup_disk:
  assumes "key_ok a"
  shows "flight.triple dir (know dir a (\<lambda>v. v_intact v \<and> v_cached v = None) None)
    (lookup_disk_steps a :: ('v node, _) proc) (\<lambda>r. know dir a (found dir a r) None)"
proof -
  obtain bp mp where p: "body_path dir a = Some bp" "metadata_path dir a = Some mp" using key_paths [OF assms] by blast
  have ne: "bp \<noteq> []" using p(1) by (auto simp: body_path_def split: if_splits)
  have hit: "flight.triple dir (know dir a (\<lambda>v. ((v_intact v \<and> v_cached v = None) \<and> (\<forall>x. Inr m = Inr x \<longrightarrow> v_disk v = Some x))
        \<and> (\<forall>i. Inr x = Inr i \<longrightarrow> v_there v)) None)
      (andthen (touch_step a (\<lambda>e. e\<lparr>e_meta := Some m, e_bodyPath := bp\<rparr>)) (\<lambda>_. Done (Some m, bp, True)) :: ('v node, lookup_result) proc)
      (\<lambda>r. know dir a (found dir a r) None)" for m and x :: file_info
    by (rule flight.triple_andthen [OF touch_locked triple_hit])
      (use p ne in \<open>auto simp: v_intact_def v_serves_def v_known_def v_cached_def split: option.splits\<close>)
  show ?thesis
    unfolding lookup_disk_steps_def
    by (rule triple_dir)
      (simp add: p, rule triple_check [OF triple_read_metadata [OF p(2)] know_weaken [OF _ triple_miss]
         triple_check [OF triple_stat_body [OF p(1)] know_weaken [OF _ triple_miss] hit]], simp_all)
qed

lemma triple_lookup:
  assumes "key_ok a"
  shows "flight.triple dir (know dir a v_intact None) (lookup_steps a :: ('v node, _) proc) (\<lambda>r. know dir a (found dir a r) None)"
  unfolding lookup_steps_def
proof (rule flight.triple_andthen [OF triple_read])
  fix r :: "(metadata \<times> path) option"
  show "flight.triple dir (know dir a (\<lambda>v. v_intact v \<and> v_cached v = r \<and> (\<forall>m p. r = Some (m, p) \<longrightarrow> p \<noteq> [] \<longrightarrow> body_path dir a = Some p)) None)
      (case r of Some (m, bp) \<Rightarrow> lookup_cached_steps a m bp | None \<Rightarrow> (lookup_disk_steps a :: ('v node, _) proc))
      (\<lambda>r. know dir a (found dir a r) None)"
  proof (cases r)
    case None
    then show ?thesis by (simp add: triple_lookup_disk [OF assms])
  next
    case (Some mp)
    obtain m p where mp: "mp = (m, p)" by (cases mp)
    have "flight.triple dir (know dir a (\<lambda>v. (v_intact v \<and> v_cached v = Some (m, p)) \<and> (p \<noteq> [] \<longrightarrow> body_path dir a = Some p)) None)
        (lookup_cached_steps a m p :: ('v node, _) proc) (\<lambda>r. know dir a (found dir a r) None)"
      by (rule know_fact, rule triple_lookup_cached) simp
    then show ?thesis by (simp add: Some mp conj_assoc)
  qed
qed

text \<open>A removal: afterwards there is no metadata left.\<close>

lemma forget_entry_simps [simp]:
  "dc_entries (forget_entry a dc) = (dc_entries dc)(a := None)" "dc_dir (forget_entry a dc) = dc_dir dc"
  by (auto simp: forget_entry_def Let_def fun_upd_idem split: option.splits)

lemma triple_forget:
  assumes "\<And>v. phi v \<Longrightarrow> phi' (v\<lparr>v_entry := None\<rparr>)"
  shows "flight.triple dir (know dir a phi None) (locked (\<lambda>dc s. ((), forget_entry a dc, s)) :: ('v node, unit) proc)
    (\<lambda>r. know dir a phi' None)"
proof (rule triple_locked)
  fix dc dc' :: disk_cache and s s' :: sys and r
  assume "((), forget_entry a dc, s) = (r, dc', s')" "dc_ok dc" "dc_dir dc = dir"
  then show "dc_ok dc' \<and> dc_dir dc' = dir \<and> (\<forall>k. k \<noteq> a \<longrightarrow> dc_entries dc' k = dc_entries dc k) \<and> touches {} s s' \<and> sys_dirs s' = sys_dirs s"
    by (auto simp: dc_ok_def split: if_splits)
qed (simp add: assms)

lemma triple_removal:
  assumes "key_ok a"
  shows "flight.triple dir (know dir a v_intact None) (remove_steps a :: ('v node, unit) proc) (\<lambda>r. know dir a v_intact None)"
proof -
  obtain bp mp where p: "body_path dir a = Some bp" "metadata_path dir a = Some mp" using key_paths [OF assms] by blast
  note last = triple_forget [of "\<lambda>v. v_meta v = None" v_intact dir a]
  note meta = triple_remove [of dir a mp "\<lambda>v. True" "\<lambda>v. v_meta v = None"]
  note body = triple_remove [of dir a bp v_intact "\<lambda>v. True"]
  show ?thesis
    unfolding remove_steps_def
    by (rule triple_dir) (simp add: p, intro flight.triple_andthen [OF body flight.triple_andthen [OF meta last]],
      simp_all add: p v_intact_def v_known_def v_cached_def v_disk_def)
qed

subsection \<open>Requests\<close>

lemma triple_stat_temp:
  "flight.triple dir (know dir a phi (Some (t, \<lambda>d. d = data))) (os_call (stat t) :: ('v node, _) proc)
    (\<lambda>r. know dir a (\<lambda>v. phi v \<and> (\<forall>i. r = Inr i \<longrightarrow> fi_size i = int (length data))) (Some (t, \<lambda>d. d = data)))"
proof (rule triple_call)
  fix g and n :: "'v node"
  assume kn: "know dir a phi (Some (t, \<lambda>d. d = data)) g n"
  then obtain f where f: "sys_files (n_sys n) t = Some f" "f_data f = data" by (auto simp: know_def)
  have "fi_size i = int (length data)" if "fst (stat t (n_sys n)) = Inr i" for i
    using stat_holds [of t "n_sys n" i "snd (stat t (n_sys n))" f] that f by (simp add: prod_eq_iff)
  with kn show "phi (view_of dir a n) \<and> (\<forall>i. fst (stat t (n_sys n)) = Inr i \<longrightarrow> fi_size i = int (length data))"
    by (simp add: know_def)
qed simp

text \<open>What a download and an install leave: intact data, and on success the body under its metadata.\<close>

definition installed :: "path \<Rightarrow> string \<Rightarrow> metadata \<Rightarrow> (err + path) \<Rightarrow> view \<Rightarrow> bool" where
  "installed dir a m r v \<longleftrightarrow> v_intact v \<and> (\<forall>p. r = Inr p \<longrightarrow> v_serves dir a m p v)"

lemma triple_discard:
  "flight.triple dir (know dir a v_intact (Some (t, P))) (discard t e :: ('v node, _) proc) (\<lambda>r. know dir a (installed dir a m r) None)"
  unfolding discard_def by (rule flight.triple_andthen [OF triple_remove_temp triple_return]) (simp add: installed_def)

lemma triple_close_temp:
  "flight.triple dir (know dir a phi c) (os_call (close_file t) :: ('v node, _) proc) (\<lambda>r. know dir a phi c)"
  by (rule triple_call) (simp_all add: know_def)

lemma triple_verify:
  assumes "key_ok a" and "m_casHash m = d_hash d" and "m_casSize m = d_size d"
  shows "flight.triple dir (know dir a v_intact (Some (t, \<lambda>d. d = hashed))) (verify_steps a d m t hashed :: ('v node, _) proc)
    (\<lambda>r. know dir a (installed dir a m r) None)" (is "flight.triple dir _ _ ?post")
proof -
  obtain bp where bp: "body_path dir a = Some bp" using key_paths [OF assms(1)] by blast
  have inst: "flight.triple dir (know dir a v_intact (Some (t, \<lambda>d. d = hashed))) (install_steps a t m :: ('v node, _) proc) ?post"
    if "hex_encode_fixed (sha256 hashed) = d_hash d" "int (length hashed) = d_size d"
  proof -
    have "flight.triple dir (know dir a v_intact (Some (t, \<lambda>d. d = hashed))) (install_steps a t m :: ('v node, _) proc)
        (\<lambda>r. know dir a (\<lambda>v. v_intact v \<and> (\<forall>p. r = Inr p \<longrightarrow> p = bp \<and> v_stored m (\<lambda>d. d = hashed) v)) None)"
      by (rule triple_install [OF assms(1) bp]) (use that assms(2, 3) in \<open>simp add: digest_of_def hex_encode_def\<close>)
    then show ?thesis
      by (rule flight.triple_post) (auto simp: know_def installed_def v_serves_def v_stored_def has_body_def v_there_def bp)
  qed
  have checked: "flight.triple dir (know dir a (\<lambda>v. v_intact v \<and> (\<forall>i. Inr info = Inr i \<longrightarrow> fi_size i = int (length hashed))) (Some (t, \<lambda>d. d = hashed)))
      (let got = hex_encode_fixed (sha256 hashed) in
       if got \<noteq> d_hash d \<or> fi_size info \<noteq> d_size d then discard t (mismatch got (fi_size info) d)
       else install_steps a t m :: ('v node, err + path) proc) ?post" for info
    unfolding Let_def by (rule know_fact) (use triple_discard inst in auto)
  have discarded: "flight.triple dir (know dir a (\<lambda>v. v_intact v \<and> (\<forall>i. Inl x = Inr i \<longrightarrow> fi_size i = int (length hashed))) (Some (t, \<lambda>d. d = hashed)))
      (discard t x :: ('v node, _) proc) ?post" for x
    by (rule know_weaken [OF _ triple_discard]) simp
  show ?thesis
    unfolding verify_steps_def
    by (rule triple_check [OF triple_close_temp triple_discard triple_check [OF triple_stat_temp discarded checked]])
qed

lemma triple_download_install:
  assumes "key_ok a" and "m_casHash m = d_hash d" and "m_casSize m = d_size d"
  shows "flight.triple dir (know dir a v_intact None) (download_steps c a d m :: ('v node, _) proc)
    (\<lambda>r. know dir a (installed dir a m r) None)" (is "flight.triple dir _ _ ?post")
proof -
  have fail: "flight.triple dir (know dir a v_intact None) (Done (Inl e) :: ('v node, err + path) proc) ?post" for e
    by (rule triple_return) (simp add: installed_def)
  have opened: "flight.triple dir (know dir a v_intact (Some (t, \<lambda>data. fst r = None \<longrightarrow> data = snd r)))
      (case r of (e, hashed) \<Rightarrow> case e of
         Some e \<Rightarrow> andthen (os_call (close_file t)) (\<lambda>_. discard t e)
       | None \<Rightarrow> (verify_steps a d m t hashed :: ('v node, err + path) proc)) ?post" for t r
    using triple_verify [OF assms, of dir t "snd r"] flight.triple_andthen [OF triple_close_temp triple_discard]
    by (cases r; cases "fst r") auto
  show ?thesis
    unfolding download_steps_def
    by (rule triple_check [OF triple_create]) (simp_all add: fail flight.triple_andthen [OF triple_download opened])
qed

text \<open>What a get leaves, and the response it gives.\<close>

definition got :: "path \<Rightarrow> string \<Rightarrow> request \<Rightarrow> response \<Rightarrow> view \<Rightarrow> bool" where
  "got dir a req resp v \<longleftrightarrow> v_intact v \<and> rs_id resp = rq_id req \<and> rs_err resp = []
     \<and> (rs_miss resp \<or> (\<exists>m. v_serves dir a m (rs_diskPath resp) v \<and> hex_decode (m_outputIDHex m) = Inr (rs_outputID resp)
          \<and> rs_size resp = m_size m \<and> rs_time resp = m_time m))"

lemma got_miss: "v_intact v \<Longrightarrow> got dir a req (miss_response req) v"
  by (simp add: got_def)

lemma got_hit:
  "v_intact v \<Longrightarrow> v_serves dir a m p v \<Longrightarrow> hex_decode (m_outputIDHex m) = Inr outputID \<Longrightarrow>
   got dir a req (hit_response req outputID (m_size m) p (m_time m)) v"
  by (auto simp: got_def hit_response_def zero_response_def)

lemma triple_missed:
  "(\<And>v. phi v \<Longrightarrow> v_intact v) \<Longrightarrow>
   flight.triple dir (know dir a phi None) (Done (miss_response req) :: ('v node, _) proc) (\<lambda>r. know dir a (got dir a req r) None)"
  by (rule triple_return) (simp add: got_miss)

lemma triple_refill:
  assumes "key_ok a"
  shows "flight.triple dir (know dir a v_intact None) (refill_steps c req a m :: ('v node, _) proc)
    (\<lambda>r. know dir a (\<lambda>v. v_intact v \<and> (\<forall>resp. r = Some resp \<longrightarrow> got dir a req resp v)) None)"
  unfolding refill_steps_def
proof (rule triple_check [OF triple_download_install [OF assms]])
  show "flight.triple dir (know dir a (installed dir a m (Inr p)) None)
      (case hex_decode (m_outputIDHex m) of Inl _ \<Rightarrow> Done None
       | Inr outputID \<Rightarrow> (Done (Some (hit_response req outputID (m_size m) p (m_time m))) :: ('v node, _) proc))
      (\<lambda>r. know dir a (\<lambda>v. v_intact v \<and> (\<forall>resp. r = Some resp \<longrightarrow> got dir a req resp v)) None)" for p
    by (cases "hex_decode (m_outputIDHex m)") (auto intro!: triple_return simp: installed_def got_hit)
  show "flight.triple dir (know dir a (installed dir a m (Inl e)) None) (Done None :: ('v node, _) proc)
      (\<lambda>r. know dir a (\<lambda>v. v_intact v \<and> (\<forall>resp. r = Some resp \<longrightarrow> got dir a req resp v)) None)" for e
    by (rule triple_return) (simp add: installed_def)
qed simp_all

text \<open>A call that leaves every file but temporary ones alone, wherever those are, leaves all files alone.\<close>

lemma quiet_everywhere:
  assumes "\<And>dir. quiet_sys dir s t"
  shows "touches {} s t \<and> sys_dirs t = sys_dirs s"
proof -
  have "sys_files t p = sys_files s p" for p
  proof -
    have "length (temp_name (CHR ''/'' # p) k) \<noteq> length p" for k by (simp add: temp_name_def)
    then have "p \<notin> temps (CHR ''/'' # p)" by (metis imageE)
    then show ?thesis using assms [of "CHR ''/'' # p"] by (simp add: quiet_sys_def touches_def)
  qed
  then show ?thesis using assms [of "[]"] by (simp add: quiet_sys_def touches_def)
qed

lemma triple_world:
  assumes "\<And>dir w. world_quiet dir w (snd (f w))"
  shows "flight.triple dir (know dir a phi c) (world_call f :: ('v node, 'r) proc) (\<lambda>r. know dir a phi c)"
  unfolding world_call_def
  by (rule triple_idle) (use quiet_everywhere [OF assms] in \<open>simp_all add: idle_def know_def\<close>)

lemma triple_digests:
  "flight.triple dir (know dir a phi c) (digests_step h k :: ('v node, _) proc) (\<lambda>r. know dir a phi c)"
  unfolding digests_step_def by (rule triple_idle) (auto simp: idle_def know_def split: prod.split)

lemma triple_now: "flight.triple dir (know dir a phi c) (os_call now :: ('v node, _) proc) (\<lambda>r. know dir a phi c)"
  by (rule triple_call) (simp_all add: know_def)

lemma triple_action_lookup:
  assumes "key_ok a"
  shows "flight.triple dir (know dir a v_intact None) (action_lookup_steps h c ctx req a :: ('v node, _) proc)
    (\<lambda>r. know dir a (got dir a req r) None)" (is "flight.triple dir ?pre _ ?post")
proof -
  have miss: "flight.triple dir ?pre (Done (miss_response req) :: ('v node, _) proc) ?post" by (rule triple_missed)
  have fetch: "flight.triple dir ?pre (andthen (os_call now) (\<lambda>t.
       let m = \<lparr>m_outputIDHex = of_path out, m_size = d_size d, m_time = t, m_casHash = d_hash d, m_casSize = d_size d\<rparr> in
       check (download_steps c a d m) (\<lambda>_. Done (miss_response req)) (\<lambda>p.
       Done (hit_response req outputID (d_size d) p (m_time m)))) :: ('v node, _) proc) ?post"
    if "hex_decode (of_path out) = Inr outputID" for out d outputID
  proof (rule flight.triple_andthen [OF triple_now])
    fix t :: time
    let ?m = "\<lparr>m_outputIDHex = of_path out, m_size = d_size d, m_time = t, m_casHash = d_hash d, m_casSize = d_size d\<rparr>"
    have "flight.triple dir (know dir a (installed dir a ?m (Inr p)) None)
        (Done (hit_response req outputID (m_size ?m) p (m_time ?m)) :: ('v node, _) proc) ?post" for p
      by (rule triple_return) (use that got_hit [of _ dir a ?m p outputID req] in \<open>simp add: installed_def\<close>)
    moreover have "flight.triple dir (know dir a (installed dir a ?m (Inl e)) None) (Done (miss_response req) :: ('v node, _) proc) ?post" for e
      by (rule triple_missed) (simp add: installed_def)
    ultimately show "flight.triple dir ?pre (let m = ?m in check (download_steps c a d m) (\<lambda>_. Done (miss_response req))
        (\<lambda>p. Done (hit_response req outputID (d_size d) p (m_time m))) :: ('v node, _) proc) ?post"
      unfolding Let_def by (intro triple_check [OF triple_download_install [OF assms]]) simp_all
  qed
  show ?thesis
    unfolding action_lookup_steps_def
    by (rule triple_check [OF triple_digests miss triple_check [OF triple_world [OF retried_quiet(3)] miss]])
      (use miss fetch in \<open>auto simp: Let_def split: option.split list.split sum.split\<close>)
qed

lemma triple_remote:
  assumes "key_ok a"
  shows "flight.triple dir (know dir a v_intact None) (remote_steps h ctx None req a :: ('v node, _) proc)
    (\<lambda>r. know dir a (got dir a req r) None)"
proof (cases "h_client h")
  case None
  then show ?thesis by (simp add: remote_steps_def triple_missed)
next
  case (Some c)
  have "flight.triple dir (know dir a (got dir a req r) None) (Done (copy_response req r) :: ('v node, _) proc)
      (\<lambda>r. know dir a (got dir a req r) None)" for r
    by (rule triple_return) (auto simp: got_def copy_response_def)
  with Some show ?thesis by (simp add: remote_steps_def flight.triple_andthen [OF triple_action_lookup [OF assms]])
qed

text \<open>A get on its own action id, whatever others do to theirs.\<close>

lemma triple_get:
  assumes "key_ok a" and "a = hex_encode (rq_actionID req)"
  shows "flight.triple dir (know dir a v_intact None) (get_steps h ctx None req :: ('v node, _) proc)
    (\<lambda>r. know dir a (got dir a req r) None)" (is "flight.triple dir ?pre _ ?post")
proof -
  have remote: "flight.triple dir (know dir a (found dir a (meta, p, False)) None) (remote_steps h ctx None req a :: ('v node, _) proc) ?post" for meta p
    by (rule know_weaken [OF _ triple_remote [OF assms(1)]]) (simp add: found_def)
  have refill: "flight.triple dir (know dir a (found dir a (Some m, p, False)) None)
      (andthen (refill_steps c req a m) (\<lambda>r. case r of Some resp \<Rightarrow> Done resp | None \<Rightarrow> remote_steps h ctx None req a) :: ('v node, _) proc) ?post"
    for c m p
  proof (rule flight.triple_andthen)
    show "flight.triple dir (know dir a (found dir a (Some m, p, False)) None) (refill_steps c req a m :: ('v node, _) proc)
        (\<lambda>r. know dir a (\<lambda>v. v_intact v \<and> (\<forall>resp. r = Some resp \<longrightarrow> got dir a req resp v)) None)"
      by (rule know_weaken [OF _ triple_refill [OF assms(1)]]) (simp add: found_def)
    show "flight.triple dir (know dir a (\<lambda>v. v_intact v \<and> (\<forall>resp. r = Some resp \<longrightarrow> got dir a req resp v)) None)
        (case r of Some resp \<Rightarrow> Done resp | None \<Rightarrow> (remote_steps h ctx None req a :: ('v node, _) proc)) ?post" for r
      by (cases r) (auto intro!: triple_return triple_remote [OF assms(1)])
  qed
  have hit: "flight.triple dir (know dir a (found dir a (Some m, p, True)) None)
      (case hex_decode (m_outputIDHex m) of
         Inl _ \<Rightarrow> andthen (remove_steps a) (\<lambda>_. Done (miss_response req))
       | Inr outputID \<Rightarrow> (Done (hit_response req outputID (m_size m) p (m_time m)) :: ('v node, _) proc)) ?post" for m p
  proof (cases "hex_decode (m_outputIDHex m)")
    case (Inl e)
    have "flight.triple dir (know dir a (found dir a (Some m, p, True)) None) (remove_steps a :: ('v node, _) proc) (\<lambda>r. ?pre)"
      by (rule know_weaken [OF _ triple_removal [OF assms(1)]]) (simp add: found_def)
    from flight.triple_andthen [OF this triple_missed] Inl show ?thesis by simp
  next
    case (Inr outputID)
    then show ?thesis by (auto intro!: triple_return got_hit simp: found_def)
  qed
  show ?thesis
    unfolding get_steps_def Let_def assms(2) [symmetric]
  proof (rule flight.triple_andthen [OF triple_lookup [OF assms(1)]])
    fix r :: lookup_result
    obtain meta p hit where r: "r = (meta, p, hit)" by (cases r)
    show "flight.triple dir (know dir a (found dir a r) None)
        (case r of (meta, bp, hit) \<Rightarrow>
          (case meta of None \<Rightarrow> if hit then Panic else remote_steps h ctx None req a
           | Some m \<Rightarrow>
              if hit then
                (case hex_decode (m_outputIDHex m) of
                   Inl _ \<Rightarrow> andthen (remove_steps a) (\<lambda>_. Done (miss_response req))
                 | Inr outputID \<Rightarrow> Done (hit_response req outputID (m_size m) bp (m_time m)))
              else
                (case h_client h of
                   None \<Rightarrow> remote_steps h ctx None req a
                 | Some c \<Rightarrow> andthen (refill_steps c req a m) (\<lambda>r. case r of
                     Some resp \<Rightarrow> Done resp | None \<Rightarrow> (remote_steps h ctx None req a :: ('v node, response) proc))))) ?post"
    proof (cases "meta = None \<and> hit")
      case True
      then show ?thesis by (simp add: r flight.triple_def know_def found_def)
    next
      case False
      then show ?thesis
        using remote [of meta p] refill hit by (cases meta; cases hit; cases "h_client h") (simp_all add: r)
    qed
  qed
qed

text \<open>What a put leaves, and its response.\<close>

definition put_done :: "path \<Rightarrow> string \<Rightarrow> request \<Rightarrow> response \<Rightarrow> view \<Rightarrow> bool" where
  "put_done dir a req resp v \<longleftrightarrow> v_intact v \<and> rs_id resp = rq_id req
     \<and> (rs_err resp = [] \<longrightarrow> (\<exists>m f. v_known v = Some m \<and> m_outputIDHex m = hex_encode (rq_outputID req) \<and> m_size m = rq_bodySize req
          \<and> v_body v = Some f \<and> f_data f = rq_body req \<and> body_path dir a = Some (rs_diskPath resp)))"

lemma put_refused: "v_intact v \<Longrightarrow> msg \<noteq> [] \<Longrightarrow> put_done dir a req (put_error req msg) v"
  by (simp add: put_done_def)

lemma triple_body:
  "flight.triple dir (know dir a phi None) (body_steps body :: ('v node, _) proc)
    (\<lambda>r. know dir a (\<lambda>v. phi v \<and> (\<forall>d t. r = Inr (d, t) \<longrightarrow> d = \<lparr>d_hash = hex_encode (sha256 body), d_size = int (length body)\<rparr>))
      (case r of Inl e \<Rightarrow> None | Inr (d, t) \<Rightarrow> Some (t, \<lambda>x. x = body)))" (is "flight.triple dir _ _ ?post")
proof -
  have fail: "flight.triple dir (know dir a phi None) (Done (Inl e) :: ('v node, err + digest \<times> path) proc) ?post" for e
    by (rule flight.triple_post [OF triple_return [where phi' = "\<lambda>r v. phi v \<and> r = Inl e"]]) (auto simp: know_def)
  have close: "flight.triple dir (know dir a phi c) (os_call (close_file t) :: ('v node, _) proc) (\<lambda>r. know dir a phi c)" for c t phi
    by (rule triple_close_temp)
  have undo: "flight.triple dir (know dir a phi (Some (t, P))) (andthen (remove_file_step t) (\<lambda>_. Done (Inl e)) :: ('v node, err + digest \<times> path) proc) ?post"
    for t P e by (rule flight.triple_andthen [OF triple_remove_temp fail])
  have written: "flight.triple dir (know dir a phi (Some (t, \<lambda>d. d = body)))
      (Done (Inr (\<lparr>d_hash = hex_encode (sha256 body), d_size = int (length body)\<rparr>, t)) :: ('v node, err + digest \<times> path) proc) ?post" for t
    by (rule flight.triple_weaken [OF flight.triple_done [of dir ?post]]) (auto simp: know_stable know_def)
  have opened: "flight.triple dir (know dir a phi (Some (t, \<lambda>d. d = [])))
      (check (os_call (write_data t body))
         (\<lambda>e. andthen (os_call (close_file t)) (\<lambda>_. andthen (remove_file_step t) (\<lambda>_. Done (Inl e)))) (\<lambda>_.
       check (os_call (close_file t)) (\<lambda>e. andthen (remove_file_step t) (\<lambda>_. Done (Inl e))) (\<lambda>_.
       Done (Inr (\<lparr>d_hash = hex_encode (sha256 body), d_size = int (length body)\<rparr>, t)))) :: ('v node, err + digest \<times> path) proc) ?post" for t
    by (rule triple_check [OF triple_write know_weaken [OF _ flight.triple_andthen [OF close undo]]
          know_weaken [OF _ triple_check [OF close undo written]]]) simp_all
  show ?thesis
    unfolding body_steps_def by (rule triple_check [OF triple_create]) (simp_all only: sum.case fail opened)
qed

lemma triple_upload: "flight.triple dir (know dir a phi c) (upload_step task :: ('v node, unit) proc) (\<lambda>r. know dir a phi c)"
  unfolding upload_step_def by (rule triple_idle) (auto simp: idle_def know_def)

lemma triple_put:
  assumes "key_ok a" and "a = hex_encode (rq_actionID req)"
  shows "flight.triple dir (know dir a v_intact None) (put_steps h req :: ('v node, _) proc)
    (\<lambda>r. know dir a (put_done dir a req r) None)" (is "flight.triple dir ?pre _ ?post")
proof (cases "0 < h_maxArtifactSize h \<and> h_maxArtifactSize h < rq_bodySize req")
  case True
  then show ?thesis by (simp add: put_steps_def) (rule triple_return, rule put_refused, simp_all)
next
  case False
  obtain bp where bp: "body_path dir a = Some bp" using key_paths [OF assms(1)] by blast
  let ?d = "\<lparr>d_hash = hex_encode (sha256 (rq_body req)), d_size = int (length (rq_body req))\<rparr>"
  have store: "flight.triple dir (know dir a v_intact (Some (tmp, \<lambda>x. x = rq_body req)))
      (andthen (os_call now) (\<lambda>t.
        let m = \<lparr>m_outputIDHex = hex_encode (rq_outputID req), m_size = rq_bodySize req, m_time = t, m_casHash = d_hash ?d, m_casSize = d_size ?d\<rparr> in
        check (install_steps a tmp m) (\<lambda>e. Done (put_error req (''local install: '' @ err_text e))) (\<lambda>p.
        andthen (if h_client h = None then Done ()
                 else upload_step \<lparr>pp_actionIDHex = a, pp_outputIDHex = hex_encode (rq_outputID req), pp_body = p, pp_digest = ?d\<rparr>) (\<lambda>_.
        Done (zero_response\<lparr>rs_id := rq_id req, rs_diskPath := p\<rparr>)))) :: ('v node, _) proc) ?post" for tmp
  proof (rule flight.triple_andthen [OF triple_now])
    fix t :: time
    let ?m = "\<lparr>m_outputIDHex = hex_encode (rq_outputID req), m_size = rq_bodySize req, m_time = t, m_casHash = d_hash ?d, m_casSize = d_size ?d\<rparr>"
    let ?in = "\<lambda>r v. v_intact v \<and> (\<forall>p. r = Inr p \<longrightarrow> p = bp \<and> v_stored ?m (\<lambda>x. x = rq_body req) v)"
    have inst: "flight.triple dir (know dir a v_intact (Some (tmp, \<lambda>x. x = rq_body req))) (install_steps a tmp ?m :: ('v node, _) proc)
        (\<lambda>r. know dir a (?in r) None)"
      by (rule triple_install [OF assms(1) bp]) (simp add: digest_of_def)
    have refuse: "flight.triple dir (know dir a (?in (Inl e)) None) (Done (put_error req (''local install: '' @ err_text e)) :: ('v node, _) proc) ?post" for e
      by (rule triple_return) (simp add: put_refused)
    have stored: "flight.triple dir (know dir a (?in (Inr p)) None) (Done (zero_response\<lparr>rs_id := rq_id req, rs_diskPath := p\<rparr>) :: ('v node, _) proc) ?post" for p
      by (rule triple_return) (auto simp: put_done_def v_stored_def has_body_def zero_response_def bp)
    have start: "flight.triple dir (know dir a (?in (Inr p)) None)
        (andthen (if h_client h = None then Done () else upload_step task) (\<lambda>_. Done (zero_response\<lparr>rs_id := rq_id req, rs_diskPath := p\<rparr>)) :: ('v node, _) proc) ?post"
      for p task
      using stored flight.triple_andthen [OF triple_upload stored] by simp
    show "flight.triple dir (know dir a v_intact (Some (tmp, \<lambda>x. x = rq_body req)))
        (let m = ?m in
         check (install_steps a tmp m) (\<lambda>e. Done (put_error req (''local install: '' @ err_text e))) (\<lambda>p.
         andthen (if h_client h = None then Done ()
                  else upload_step \<lparr>pp_actionIDHex = a, pp_outputIDHex = hex_encode (rq_outputID req), pp_body = p, pp_digest = ?d\<rparr>) (\<lambda>_.
         Done (zero_response\<lparr>rs_id := rq_id req, rs_diskPath := p\<rparr>))) :: ('v node, _) proc) ?post"
      unfolding Let_def by (rule triple_check [OF inst refuse start])
  qed
  show ?thesis
    unfolding put_steps_def Let_def assms(2) [symmetric]
  proof (simp only: False if_False, rule triple_check [OF triple_body])
    show "flight.triple dir (know dir a (\<lambda>v. v_intact v \<and> (\<forall>d t. Inl e = Inr (d, t) \<longrightarrow> d = ?d)) (case Inl e of Inl e \<Rightarrow> None | Inr (d, t) \<Rightarrow> Some (t, \<lambda>x. x = rq_body req)))
        (Done (put_error req (''write body: '' @ err_text e)) :: ('v node, _) proc) ?post" for e :: err
      by simp (rule triple_return, simp add: put_refused)
  qed (use store in \<open>auto simp: Let_def intro!: know_fact\<close>)
qed

end
