(* ===== verification/Concurrent.thy ===== *)
theory Concurrent
  imports Interference Serving
begin

text \<open>
  The workers of \<open>Run\<close> handle gets and puts at the same time. A flight is the node with the requests that
  are being handled, each a process of the theory \<open>Steps\<close>; any of them may take the next step, and uploads
  run in between. As long as no two of them have the same action id, nothing that one does can
  damage what another serves or stores.
\<close>

subsection \<open>Requests in flight\<close>

definition handle_steps :: "'v handler \<Rightarrow> ctx \<Rightarrow> response option \<Rightarrow> request \<Rightarrow> ('v node, response) proc" where
  "handle_steps h ctx shared q =
     (if rq_command q = ''get'' then get_steps h ctx shared q
      else if rq_command q = ''put'' then put_steps h q
      else Done (zero_response\<lparr>rs_id := rq_id q, rs_err := ''unknown command: '' @ rq_command q\<rparr>))"

record 'v flight =
  fl_node :: "'v node"
  fl_running :: "(request \<times> ('v node, response) proc) list"
  fl_answered :: "(request \<times> response) list"

text \<open>A get may wait for the lookup of another get of the same action id and share its response.\<close>

definition may_share :: "request \<Rightarrow> 'v flight \<Rightarrow> response option \<Rightarrow> bool" where
  "may_share q s shared \<longleftrightarrow> shared = None \<or> (\<exists>p \<in> fst ` set (fl_running s). rq_actionID p = rq_actionID q)"

inductive flight_step :: "'v handler \<Rightarrow> ctx \<Rightarrow> 'v flight \<Rightarrow> 'v flight \<Rightarrow> bool" for h ctx where
  start: "rq_command q \<in> {''get'', ''put''} \<Longrightarrow> may_share q s shared \<Longrightarrow>
    flight_step h ctx s (s\<lparr>fl_running := fl_running s @ [(q, handle_steps h ctx shared q)]\<rparr>)"
| advance: "fl_running s = ps @ (q, Step f) # qs \<Longrightarrow> f (fl_node s) = (p, n) \<Longrightarrow>
    flight_step h ctx s (s\<lparr>fl_running := ps @ (q, p) # qs, fl_node := n\<rparr>)"
| finish: "fl_running s = ps @ (q, Done r) # qs \<Longrightarrow>
    flight_step h ctx s (s\<lparr>fl_running := ps @ qs, fl_answered := fl_answered s @ [(q, r)]\<rparr>)"
| upload: "flight_step h ctx s (s\<lparr>fl_node := run_task h i (fl_node s)\<rparr>)"

inductive_cases flight_stepE: "flight_step h ctx s s'"

abbreviation key_of :: "request \<Rightarrow> string" where
  "key_of q \<equiv> hex_encode (rq_actionID q)"

text \<open>No two requests in flight have the same action id.\<close>

definition different_ids :: "'v flight \<Rightarrow> bool" where
  "different_ids s \<longleftrightarrow> distinct (map (rq_actionID \<circ> fst) (fl_running s)) \<and> (\<forall>q \<in> fst ` set (fl_running s). rq_actionID q \<noteq> [])"

definition apart_step :: "'v handler \<Rightarrow> ctx \<Rightarrow> 'v flight \<Rightarrow> 'v flight \<Rightarrow> bool" where
  "apart_step h ctx s s' \<longleftrightarrow> flight_step h ctx s s' \<and> different_ids s'"

definition at_rest :: "'v node \<Rightarrow> 'v flight" where
  "at_rest n = \<lparr>fl_node = n, fl_running = [], fl_answered = []\<rparr>"

lemma alone_handle:
  "rq_command q \<noteq> ''close'' \<Longrightarrow> alone (handle_steps h ctx shared q) n = handle h ctx shared order q n"
  by (simp add: handle_steps_def handle_def alone_get alone_put)

subsection \<open>What a response promises\<close>

definition answer_ok :: "'v node \<Rightarrow> request \<Rightarrow> response \<Rightarrow> bool" where
  "answer_ok n q r \<longleftrightarrow> rs_id r = rq_id q
     \<and> (rq_command q = ''get'' \<longrightarrow> rs_err r = [] \<and> (rs_miss r \<or>
          (\<exists>m f. peek (n_disk n) (key_of q) = Some (m, rs_diskPath r) \<and> hex_decode (m_outputIDHex m) = Inr (rs_outputID r)
             \<and> rs_size r = m_size m \<and> sys_files (n_sys n) (rs_diskPath r) = Some f
             \<and> hex_encode (sha256 (f_data f)) = m_casHash m \<and> int (length (f_data f)) = m_casSize m)))
     \<and> (rq_command q = ''put'' \<longrightarrow> rs_err r = [] \<longrightarrow> holds_body n (key_of q) q (rs_diskPath r))"

definition promise :: "path \<Rightarrow> request \<Rightarrow> response \<Rightarrow> view \<Rightarrow> bool" where
  "promise dir q r v \<longleftrightarrow> (if rq_command q = ''put'' then put_done dir (key_of q) q r v else got dir (key_of q) q r v)"

lemma promise_answer:
  assumes "disk_ok dir n" and "key_ok (key_of q)" and "promise dir q r (view_of dir (key_of q) n)"
  shows "answer_ok n q r" and "v_intact (view_of dir (key_of q) n)"
proof -
  let ?v = "view_of dir (key_of q) n"
  obtain bp where bp: "body_path dir (key_of q) = Some bp" using key_paths [OF assms(2)] by blast
  have body: "v_body ?v = sys_files (n_sys n) bp" by (simp add: view_of_def bp)
  show intact: "v_intact ?v" using assms(3) by (auto simp: promise_def put_done_def got_def split: if_splits)
  show "answer_ok n q r"
  proof (cases "rq_command q = ''put''")
    case True
    with assms(3) bp body view_peek [OF assms(1, 2) bp] show ?thesis
      by (auto simp: answer_ok_def promise_def put_done_def holds_body_def v_there_def)
  next
    case False
    with assms(3) have g: "got dir (key_of q) q r ?v" by (simp add: promise_def)
    show ?thesis
    proof (cases "rs_miss r")
      case True
      with g False show ?thesis by (simp add: answer_ok_def got_def)
    next
      case hit: False
      with g obtain m where m: "v_serves dir (key_of q) m (rs_diskPath r) ?v" "hex_decode (m_outputIDHex m) = Inr (rs_outputID r)"
        "rs_size r = m_size m" by (auto simp: got_def)
      then have "peek (n_disk n) (key_of q) = Some (m, rs_diskPath r)"
        using view_peek [OF assms(1, 2) bp] bp by (simp add: v_serves_def)
      moreover obtain f where "sys_files (n_sys n) (rs_diskPath r) = Some f" "hex_encode (sha256 (f_data f)) = m_casHash m"
        "int (length (f_data f)) = m_casSize m"
        using intact m(1) body bp by (auto simp: v_intact_def v_serves_def)
      ultimately show ?thesis using g m False by (auto simp: answer_ok_def got_def)
    qed
  qed
qed

subsection \<open>The invariant of a flight\<close>

text \<open>Each request in flight has a claim and is safe; what no request claims is intact.\<close>

definition tracked :: "path \<Rightarrow> request \<times> ('v node, response) proc \<Rightarrow>
    claim \<times> ('v node, response) proc \<times> (response \<Rightarrow> claim \<Rightarrow> 'v node \<Rightarrow> bool) \<Rightarrow> bool" where
  "tracked dir x y \<longleftrightarrow> fst (fst y) = key_of (fst x) \<and> fst (snd y) = snd x
     \<and> snd (snd y) = (\<lambda>r. know dir (key_of (fst x)) (promise dir (fst x) r) None)"

definition flight_ok :: "path \<Rightarrow> 'v flight \<Rightarrow> bool" where
  "flight_ok dir s \<longleftrightarrow> disk_ok dir (fl_node s)
     \<and> (\<forall>k. key_ok k \<longrightarrow> k \<notin> key_of ` fst ` set (fl_running s) \<longrightarrow> v_intact (view_of dir k (fl_node s)))
     \<and> (\<exists>cs. list_all2 (tracked dir) (fl_running s) cs \<and> flight.together dir cs (fl_node s))"

lemma key_of_inject: "key_of p = key_of q \<longleftrightarrow> rq_actionID p = rq_actionID q"
  by (metis hex_decode_encode sum.inject(2))

lemma tracked_keys: "list_all2 (tracked dir) xs cs \<Longrightarrow> fst ` fst ` set cs = key_of ` fst ` set xs"
  by (induction rule: list_all2_induct) (auto simp: tracked_def)

lemma handle_safe:
  assumes "rq_command q \<in> {''get'', ''put''}" and "rq_actionID q \<noteq> []" and "disk_ok dir n"
    and "v_intact (view_of dir (key_of q) n)"
  shows "flight.busy dir ((key_of q, None), handle_steps h ctx None q, \<lambda>r. know dir (key_of q) (promise dir q r) None) n"
proof -
  note key = key_ok_action [OF assms(2)]
  have promise: "promise dir q = (if rq_command q = ''put'' then put_done dir (key_of q) q else got dir (key_of q) q)"
    by (intro ext) (simp add: promise_def)
  have "flight.triple dir (know dir (key_of q) v_intact None) (handle_steps h ctx None q) (\<lambda>r. know dir (key_of q) (promise dir q r) None)"
    using assms(1) triple_get [OF key refl, of dir h ctx] triple_put [OF key refl, of dir h]
    by (auto simp: handle_steps_def promise)
  moreover have "claims dir (key_of q, None) n" "know dir (key_of q) v_intact None (key_of q, None) n"
    using assms(3, 4) key by (simp_all add: claims_def know_def)
  ultimately show ?thesis by (simp add: flight.triple_def)
qed

lemma run_task_idle: "idle n (run_task h i n)"
proof (cases "h_client h = None \<or> length (n_tasks n) \<le> i")
  case True
  then show ?thesis by (auto simp: run_task_def idle_def split: option.splits)
next
  case False
  then obtain c where c: "h_client h = Some c" "i < length (n_tasks n)" by auto
  obtain x cache where comp: "compute_synthetic_digests (h_marshal h) (h_dir h) (pp_actionIDHex (n_tasks n ! i)) (n_synthetic n) = (x, cache)"
    by fastforce
  show ?thesis
    using c comp quiet_everywhere [OF populate_world_quiet]
    by (cases x) (simp_all add: run_task_def remote_populate_def idle_def)
qed

lemma idle_undisturbed: "idle n n' \<Longrightarrow> claims dir g n \<Longrightarrow> undisturbed dir g n n'"
  using idle_view [of n n'] touches_no_faults [of "{}" "n_sys n" "n_sys n'"]
  by (auto simp: undisturbed_def claims_def idle_def disk_inv_def touches_def)

lemma flight_ok_start: "node_ok dir n \<Longrightarrow> flight_ok dir (at_rest n)"
  by (auto simp: flight_ok_def at_rest_def node_ok_views flight.together_def)

lemma flight_ok_step:
  assumes "flight_ok dir s" and "different_ids s" and "apart_step h ctx s s'"
  shows "flight_ok dir s'"
proof -
  obtain cs where cs: "list_all2 (tracked dir) (fl_running s) cs" "flight.together dir cs (fl_node s)"
    using assms(1) by (auto simp: flight_ok_def)
  have ok: "disk_ok dir (fl_node s)"
    and rest: "key_ok k \<Longrightarrow> k \<notin> key_of ` fst ` set (fl_running s) \<Longrightarrow> v_intact (view_of dir k (fl_node s))" for k
    using assms(1) by (simp_all add: flight_ok_def)
  have step: "flight_step h ctx s s'" and apart: "different_ids s'" using assms(3) by (simp_all add: apart_step_def)
  from step show ?thesis
  proof (cases rule: flight_step.cases)
    case (start q shared)
    then have q: "rq_actionID q \<noteq> []" "rq_actionID q \<notin> rq_actionID ` fst ` set (fl_running s)"
      using apart by (auto simp: different_ids_def image_comp)
    then have shared: "shared = None" using start(3) unfolding may_share_def by (metis imageI)
    have new: "key_of q \<notin> key_of ` fst ` set (fl_running s)" using q(2) by (auto simp: key_of_inject image_iff)
    let ?c = "((key_of q, None), handle_steps h ctx None q, \<lambda>r. know dir (key_of q) (promise dir q r) None)"
    have "flight.busy dir ?c (fl_node s)"
      by (rule handle_safe [OF start(2) q(1) ok rest [OF key_ok_action [OF q(1)] new]])
    moreover have "separate (key_of q, None) (fst y)" if "y \<in> set cs" for y
    proof -
      have "fst (fst y) \<in> key_of ` fst ` set (fl_running s)" using that tracked_keys [OF cs(1)] by (metis imageI)
      with new have "fst (fst y) \<noteq> key_of q" by metis
      then show ?thesis by (simp add: separate_def)
    qed
    ultimately have "flight.together dir (cs @ ?c # []) (fl_node s)"
      using cs(2) by (simp add: flight.together_insert)
    moreover have "list_all2 (tracked dir) (fl_running s @ [(q, handle_steps h ctx None q)]) (cs @ [?c])"
      using cs(1) by (simp add: list_all2_appendI tracked_def)
    ultimately show ?thesis using start(1) shared ok rest by (auto simp: flight_ok_def)
  next
    case (advance ps q f qs p n)
    then obtain as g post bs where split: "cs = as @ (g, Step f, post) # bs" "list_all2 (tracked dir) ps as"
      "list_all2 (tracked dir) qs bs" "fst g = key_of q" "post = (\<lambda>r. know dir (key_of q) (promise dir q r) None)"
      using cs(1) by (auto simp: list_all2_append1 list_all2_Cons1 tracked_def)
    obtain g' where g: "effect dir g g' (fl_node s) n" "flight.together dir (as @ (g', p, post) # bs) n"
      using flight.together_step [of dir as g f post bs "fl_node s"] cs(2) split(1) advance(3) by auto
    have "list_all2 (tracked dir) (ps @ (q, p) # qs) (as @ (g', p, post) # bs)"
      using split g(1) by (simp add: list_all2_appendI tracked_def effect_def)
    moreover have "disk_ok dir n" "key_ok k \<Longrightarrow> k \<noteq> key_of q \<Longrightarrow> view_of dir k n = view_of dir k (fl_node s)" for k
      using g(1) split(4) by (simp_all add: effect_def others_kept_def)
    ultimately show ?thesis using advance(1, 2) g(2) rest by (auto simp: flight_ok_def)
  next
    case (finish ps q r qs)
    then obtain as g post bs where split: "cs = as @ (g, Done r, post) # bs" "list_all2 (tracked dir) ps as"
      "list_all2 (tracked dir) qs bs" "fst g = key_of q" "post = (\<lambda>r. know dir (key_of q) (promise dir q r) None)"
      using cs(1) by (auto simp: list_all2_append1 list_all2_Cons1 tracked_def)
    have "know dir (key_of q) (promise dir q r) None g (fl_node s)"
      using flight.together_done [OF cs(2), of g r post] split(1, 5) by simp
    moreover have "key_ok (key_of q)" using assms(2) finish(2) by (simp add: different_ids_def key_ok_action)
    ultimately have "v_intact (view_of dir (key_of q) (fl_node s))"
      using promise_answer(2) [OF ok] unfolding know_def by blast
    moreover have "flight.together dir (as @ bs) (fl_node s)"
      using cs(2) split(1) by (simp add: flight.together_insert)
    moreover have "list_all2 (tracked dir) (ps @ qs) (as @ bs)" using split by (simp add: list_all2_appendI)
    ultimately show ?thesis using finish(1, 2) ok rest by (auto simp: flight_ok_def)
  next
    case (upload i)
    note idle = run_task_idle [of "fl_node s" h i]
    have "flight.together dir cs (run_task h i (fl_node s))"
      by (rule flight.together_change [OF cs(2)]) (rule idle_undisturbed [OF idle])
    moreover have "disk_ok dir (run_task h i (fl_node s))"
      using idle_undisturbed [OF idle, of dir "(''aa'', None)"] ok by (simp add: undisturbed_def claims_def key_ok_def)
    ultimately show ?thesis using upload cs(1) rest idle_view [OF idle] by (auto simp: flight_ok_def)
  qed
qed

lemma flight_run_ok:
  "(apart_step h ctx)\<^sup>*\<^sup>* (at_rest n) s \<Longrightarrow> node_ok dir n \<Longrightarrow> flight_ok dir s \<and> different_ids s"
proof (induction rule: rtranclp_induct)
  case base
  then show ?case by (simp add: flight_ok_start) (simp add: different_ids_def at_rest_def)
next
  case (step s t)
  then show ?case using flight_ok_step [OF _ _ step(2)] by (simp add: apart_step_def)
qed

subsection \<open>Requests in flight finish\<close>

lemma apart_run_advance:
  "different_ids s \<Longrightarrow> fl_running s = (q, Step f) # qs \<Longrightarrow>
   apart_step h ctx s (s\<lparr>fl_running := (q, fst (f (fl_node s))) # qs, fl_node := snd (f (fl_node s))\<rparr>)"
  using flight_step.advance [of s "[]" q f qs] by (simp add: apart_step_def different_ids_def)

lemma apart_run_finish:
  "different_ids s \<Longrightarrow> fl_running s = (q, Done r) # qs \<Longrightarrow>
   apart_step h ctx s (s\<lparr>fl_running := qs, fl_answered := fl_answered s @ [(q, r)]\<rparr>)"
  using flight_step.finish [of s "[]" q r qs] by (simp add: apart_step_def different_ids_def)

lemma first_finishes:
  "fl_running s = (q, p) # qs \<Longrightarrow> flight_ok dir s \<Longrightarrow> different_ids s \<Longrightarrow>
   \<exists>s'. (apart_step h ctx)\<^sup>*\<^sup>* s s' \<and> fl_running s' = qs \<and> flight_ok dir s' \<and> different_ids s'"
proof (induction p arbitrary: s rule: proc_induct)
  case (Done r)
  note step = apart_run_finish [OF Done(3, 1), of h ctx]
  from flight_ok_step [OF Done(2, 3) step] step show ?case by (auto simp: apart_step_def)
next
  case Panic
  then show ?case
    using flight.together_Panic by (fastforce simp: flight_ok_def list_all2_Cons1 tracked_def)
next
  case (Step f)
  note step = apart_run_advance [OF Step(4, 2), of h ctx]
  let ?t = "s\<lparr>fl_running := (q, fst (f (fl_node s))) # qs, fl_node := snd (f (fl_node s))\<rparr>"
  have "different_ids ?t" using step by (simp add: apart_step_def)
  from Step(1) [OF _ flight_ok_step [OF Step(3, 4) step] this] step show ?case
    by (auto intro: converse_rtranclp_into_rtranclp)
qed

lemma all_finish:
  "flight_ok dir s \<Longrightarrow> different_ids s \<Longrightarrow> \<exists>s'. (apart_step h ctx)\<^sup>*\<^sup>* s s' \<and> fl_running s' = []"
proof (induction "fl_running s" arbitrary: s)
  case (Cons x qs)
  obtain q p where "x = (q, p)" by (cases x)
  with first_finishes [of s q p qs dir h ctx] Cons obtain t
    where t: "(apart_step h ctx)\<^sup>*\<^sup>* s t" "fl_running t = qs" "flight_ok dir t" "different_ids t" by auto
  from Cons(1) [of t] t show ?case by (auto intro: rtranclp_trans)
qed auto

text \<open>
  C2: requests that are handled at the same time do not damage each other. From a sound node, however
  the steps of any number of gets and puts and the uploads interleave, as long as no two requests in
  flight have the same action id: no request panics; when a get has its response, a hit names a file
  whose SHA-256 and length are those of the metadata, and when a put has been accepted, the cache
  holds its body; when nothing is in flight, the node is sound again; and the requests in flight can
  always be brought to their end.
\<close>

theorem concurrent_requests:
  assumes "node_ok dir n" and "(apart_step h ctx)\<^sup>*\<^sup>* (at_rest n) s"
  shows "(\<forall>(q, p) \<in> set (fl_running s). p \<noteq> Panic \<and> (\<forall>r. p = Done r \<longrightarrow> answer_ok (fl_node s) q r))
    \<and> (fl_running s = [] \<longrightarrow> node_ok dir (fl_node s))
    \<and> (\<exists>s'. (apart_step h ctx)\<^sup>*\<^sup>* s s' \<and> fl_running s' = [])"
proof (intro conjI)
  have ok: "flight_ok dir s" "different_ids s" using flight_run_ok [OF assms(2, 1)] by simp_all
  then obtain cs where cs: "list_all2 (tracked dir) (fl_running s) cs" "flight.together dir cs (fl_node s)"
    and disk: "disk_ok dir (fl_node s)" by (auto simp: flight_ok_def)
  show "\<exists>s'. (apart_step h ctx)\<^sup>*\<^sup>* s s' \<and> fl_running s' = []" using all_finish [OF ok] .
  show "fl_running s = [] \<longrightarrow> node_ok dir (fl_node s)" using ok(1) by (simp add: flight_ok_def node_ok_views)
  show "\<forall>(q, p) \<in> set (fl_running s). p \<noteq> Panic \<and> (\<forall>r. p = Done r \<longrightarrow> answer_ok (fl_node s) q r)"
  proof (clarify)
    fix q p assume mem: "(q, p) \<in> set (fl_running s)"
    then have key: "key_ok (key_of q)" using ok(2) by (force simp: different_ids_def intro: key_ok_action)
    obtain ps qs where "fl_running s = ps @ (q, p) # qs" using split_list [OF mem] by blast
    then obtain g post where y: "(g, p, post) \<in> set cs" "post = (\<lambda>r. know dir (key_of q) (promise dir q r) None)"
      using cs(1) by (auto simp: list_all2_append1 list_all2_Cons1 tracked_def) blast
    have "answer_ok (fl_node s) q r" if "p = Done r" for r
      using flight.together_done [OF cs(2), of g r post] y that promise_answer(1) [OF disk key] by (simp add: know_def)
    then show "p \<noteq> Panic \<and> (\<forall>r. p = Done r \<longrightarrow> answer_ok (fl_node s) q r)"
      using y(1) flight.together_Panic [OF cs(2)] by blast
  qed
qed

definition get_cd34 :: request where
  "get_cd34 = get_ab12\<lparr>rq_id := 3, rq_actionID := [0xcd, 0x34]\<rparr>"

theorem concurrent_requests_witness:
  "\<exists>s. (apart_step local_handler None)\<^sup>*\<^sup>* (at_rest local_node\<lparr>fl_running :=
        [(put_ab12, handle_steps local_handler None None put_ab12), (get_cd34, handle_steps local_handler None None get_cd34)]\<rparr>) s
     \<and> fl_running s = []"
proof -
  let ?h = "handle_steps local_handler None None"
  let ?s = "at_rest local_node\<lparr>fl_running := [(put_ab12, ?h put_ab12)]\<rparr>"
  have "apart_step local_handler None (at_rest local_node) ?s"
    using flight_step.start [of put_ab12 "at_rest local_node" None local_handler None]
    by (simp add: apart_step_def may_share_def at_rest_def different_ids_def put_ab12_def)
  moreover have "apart_step local_handler None ?s (at_rest local_node\<lparr>fl_running := [(put_ab12, ?h put_ab12), (get_cd34, ?h get_cd34)]\<rparr>)"
    using flight_step.start [of get_cd34 ?s None local_handler None]
    by (simp add: apart_step_def may_share_def at_rest_def different_ids_def put_ab12_def get_cd34_def get_ab12_def)
  ultimately have "(apart_step local_handler None)\<^sup>*\<^sup>* (at_rest local_node)
      (at_rest local_node\<lparr>fl_running := [(put_ab12, ?h put_ab12), (get_cd34, ?h get_cd34)]\<rparr>)" by simp
  from concurrent_requests [OF local_node_ok this] show ?thesis by blast
qed

end
