(* ===== verification/Schedules.thy ===== *)
theory Schedules
  imports Concurrent
begin

text \<open>
  Two schedules of a flight. A request that is handled alone computes in steps what the handler of the
  theory \<open>Handler\<close> computes in one. And two puts of the same action id can interleave so that the entry
  has the metadata of one and the body of the other: the condition of \<open>Concurrent\<close> on action ids is
  needed.
\<close>

subsection \<open>Runs of one process\<close>

inductive advances :: "('s, 'r) proc \<times> 's \<Rightarrow> ('s, 'r) proc \<times> 's \<Rightarrow> bool" where
  "advances (Step f, s) (f s)"

lemma advances_andthen:
  "advances\<^sup>*\<^sup>* (p, s) (p', s') \<Longrightarrow> advances\<^sup>*\<^sup>* (andthen p k, s) (andthen p' k, s')"
proof (induction rule: rtranclp_induct2)
  case (step q t q' t')
  then obtain f where "q = Step f" "f t = (q', t')" by (auto elim: advances.cases)
  then have "advances (andthen q k, t) (andthen q' k, t')"
    using advances.intros [of "\<lambda>s. map_prod (\<lambda>p. andthen p k) id (f s)" t] by simp
  with step(3) show ?case by (rule rtranclp.rtrancl_into_rtrancl)
qed simp

lemma advances_alone: "alone p s = Some (r, t) \<Longrightarrow> advances\<^sup>*\<^sup>* (p, s) (Done r, t)"
proof (induction p arbitrary: s rule: proc_induct)
  case (Step f)
  have "advances (Step f, s) (fst (f s), snd (f s))" using advances.intros [of f s] by simp
  with Step(1) [of s "snd (f s)"] Step(2) show ?case
    by (cases "f s") (auto intro: converse_rtranclp_into_rtranclp)
qed simp_all


lemma advances_first: "alone p s = Some (r, t) \<Longrightarrow> advances\<^sup>*\<^sup>* (andthen p k, s) (k r, t)"
  using advances_andthen [OF advances_alone] by fastforce

lemma advances_flight:
  "advances\<^sup>*\<^sup>* (p, n) (p', n') \<Longrightarrow>
   (flight_step h ctx)\<^sup>*\<^sup>* \<lparr>fl_node = n, fl_running = ps @ (q, p) # qs, fl_answered = as\<rparr>
     \<lparr>fl_node = n', fl_running = ps @ (q, p') # qs, fl_answered = as\<rparr>"
proof (induction rule: rtranclp_induct2)
  case (step p1 n1 p2 n2)
  then obtain f where "p1 = Step f" "f n1 = (p2, n2)" by (auto elim: advances.cases)
  then have "flight_step h ctx \<lparr>fl_node = n1, fl_running = ps @ (q, p1) # qs, fl_answered = as\<rparr>
      \<lparr>fl_node = n2, fl_running = ps @ (q, p2) # qs, fl_answered = as\<rparr>"
    using flight_step.advance [of "\<lparr>fl_node = n1, fl_running = ps @ (q, p1) # qs, fl_answered = as\<rparr>" ps q f qs p2 n2] by simp
  with step(3) show ?case by (rule rtranclp.rtrancl_into_rtrancl)
qed simp

lemma flight_start:
  "rq_command q \<in> {''get'', ''put''} \<Longrightarrow>
   flight_step h ctx \<lparr>fl_node = n, fl_running = qs, fl_answered = as\<rparr>
     \<lparr>fl_node = n, fl_running = qs @ [(q, handle_steps h ctx None q)], fl_answered = as\<rparr>"
  using flight_step.start [of q "\<lparr>fl_node = n, fl_running = qs, fl_answered = as\<rparr>" None] by (simp add: may_share_def)

lemma flight_finish:
  "flight_step h ctx \<lparr>fl_node = n, fl_running = ps @ (q, Done r) # qs, fl_answered = as\<rparr>
     \<lparr>fl_node = n, fl_running = ps @ qs, fl_answered = as @ [(q, r)]\<rparr>"
  using flight_step.finish [of "\<lparr>fl_node = n, fl_running = ps @ (q, Done r) # qs, fl_answered = as\<rparr>"] by simp



subsection \<open>Two puts of one action id\<close>

lemma advances_check: "alone p s = Some (Inr x, t) \<Longrightarrow> advances\<^sup>*\<^sup>* (check p fail k, s) (k x, t)"
  using advances_first [of p s "Inr x" t "case_sum fail k"] by (simp add: check_def)

lemma advances_dir: "advances\<^sup>*\<^sup>* (with_dir k, n) (k (dc_dir (n_cache n)), n)"
  unfolding with_dir_def by (rule advances_first) simp

lemma andthen_locked: "andthen (andthen (locked f) (\<lambda>_. Done x)) k = andthen (locked f) (\<lambda>_. k x)"
  by (simp add: locked_def act_def prod.map_comp comp_def)

lemmas advances_trans = rtranclp_trans [where r = advances]

text \<open>A put that has written its files: its critical section and its response are left.\<close>

definition index_last :: "request \<Rightarrow> metadata \<Rightarrow> ('v node, response) proc" where
  "index_last q m =
     andthen (locked (\<lambda>dc s. case now s of (t, s1) \<Rightarrow> ((), index_entry ''ab12'' ''/c/ab/ab12-d'' m t dc, s1)))
       (\<lambda>_. Done (zero_response\<lparr>rs_id := rq_id q, rs_diskPath := ''/c/ab/ab12-d''\<rparr>))"

definition room :: "'v node \<Rightarrow> bool" where
  "room n \<longleftrightarrow> dc_dir (n_cache n) = ''/c'' \<and> no_faults (n_sys n) \<and> sys_dirs (n_sys n) = {''/c'', ''/c/ab''}
     \<and> (\<forall>k. sys_files (n_sys n) (temp_name ''/c'' k) = None) \<and> (\<forall>i. format_time (sys_clock (n_sys n) i) \<noteq> None)"

lemma paths_ab12:
  "body_path ''/c'' ''ab12'' = Some ''/c/ab/ab12-d''" "metadata_path ''/c'' ''ab12'' = Some ''/c/ab/ab12-m''"
  "filepath_dir ''/c/ab/ab12-d'' = ''/c/ab''" "filepath_dir ''/c/ab/ab12-m'' = ''/c/ab''"
  "temp_name ''/c'' k \<noteq> ''/c/ab/ab12-d''" "temp_name ''/c'' k \<noteq> ''/c/ab/ab12-m''" "temp_name ''/c'' k \<noteq> ''/c/ab/ab12-m.tmp''"
  "temp_name ''/c'' k \<noteq> ''/c''" "temp_name ''/c'' k \<noteq> ''/c/ab''"
  by (simp_all add: body_path_def metadata_path_def filepath_dir_def temp_name_def)

abbreviation set_sys :: "sys \<Rightarrow> 'v node \<Rightarrow> 'v node" where
  "set_sys s n \<equiv> n\<lparr>n_world := (n_world n)\<lparr>w_sys := s\<rparr>\<rparr>"

lemma on_sys_result: "f (n_sys n) = (r, s) \<Longrightarrow> on_sys f n = (r, set_sys s n)"
  by (simp add: on_sys_def on_world_def call_sys_def)

text \<open>What a call leaves of the system, apart from the files.\<close>

definition same_room :: "sys \<Rightarrow> sys \<Rightarrow> bool" where
  "same_room s t \<longleftrightarrow> no_faults t \<and> sys_dirs t = sys_dirs s \<and> sys_clock t = sys_clock s"

lemma body_written:
  assumes "room n"
  shows "\<exists>k f s. alone (body_steps b) n = Some (Inr (\<lparr>d_hash = hex_encode (sha256 b), d_size = int (length b)\<rparr>, temp_name ''/c'' k), set_sys s n)
     \<and> sys_files s = (sys_files (n_sys n))(temp_name ''/c'' k \<mapsto> f) \<and> f_data f = b \<and> same_room (n_sys n) s"
proof -
  define s0 where "s0 = n_sys n"
  define t where "t = temp_name ''/c'' (sys_rand s0 (sys_calls s0))"
  have r: "no_faults s0" "sys_dirs s0 = {''/c'', ''/c/ab''}" "sys_files s0 t = None" "dc_dir (n_cache n) = ''/c''"
    using assms by (simp_all add: room_def s0_def t_def)
  obtain s1 where s1: "create_temp ''/c'' s0 = (Inr t, s1)" "no_faults s1" "sys_dirs s1 = sys_dirs s0" "sys_clock s1 = sys_clock s0"
    "\<exists>f. sys_files s1 = (sys_files s0)(t \<mapsto> f) \<and> f_data f = []"
    using r by (simp add: create_temp_def Let_def t_def [symmetric] paths_ab12) (force simp: t_def paths_ab12)
  obtain s2 where s2: "write_data t b s1 = (Inr (), s2)" "no_faults s2" "sys_dirs s2 = sys_dirs s0" "sys_clock s2 = sys_clock s0"
    "\<exists>f. sys_files s2 = (sys_files s0)(t \<mapsto> f) \<and> f_data f = b"
    using s1 by (auto simp: write_data_def append_data_def) force
  have s3: "close_file t s2 = (Inr (), called s2)" using s2(2) by (simp add: close_file_def)
  have "alone (body_steps b) n = Some (Inr (\<lparr>d_hash = hex_encode (sha256 b), d_size = int (length b)\<rparr>, t), set_sys (called s2) n)"
    using s1(1) s2(1) s3 r(4)
    by (simp add: alone_simps write_body_to_temp_def temp_file_def on_sys_result [of _ _ "Inr t" s1] s0_def
        on_sys_result [of "write_data t b" _ "Inr ()" s2] on_sys_result [of "close_file t" _ "Inr ()" "called s2"])
  moreover obtain f where "sys_files s2 = (sys_files s0)(t \<mapsto> f)" "f_data f = b" using s2(5) by blast
  ultimately show ?thesis using s2(2-4)
    by (intro exI [of _ "sys_rand s0 (sys_calls s0)"] exI [of _ f] exI [of _ "called s2"]) (simp add: same_room_def s0_def t_def)
qed

text \<open>An install up to its critical section, and a put.\<close>

lemma install_written:
  assumes "dc_dir (n_cache n) = ''/c''" and "no_faults s" and "sys_dirs s = {''/c'', ''/c/ab''}"
    and "sys_files s (temp_name ''/c'' k) = Some f" and "format_time (m_time m) \<noteq> None"
  shows "\<exists>t g. advances\<^sup>*\<^sup>* (install_steps ''ab12'' (temp_name ''/c'' k) m, set_sys s n)
       (andthen (locked (\<lambda>dc s. case now s of (t, s1) \<Rightarrow> ((), index_entry ''ab12'' ''/c/ab/ab12-d'' m t dc, s1)))
         (\<lambda>_. Done (Inr ''/c/ab/ab12-d'')), set_sys t n)
     \<and> same_room s t
     \<and> sys_files t = (sys_files s)(temp_name ''/c'' k := None, ''/c/ab/ab12-m.tmp'' := None, ''/c/ab/ab12-d'' \<mapsto> f, ''/c/ab/ab12-m'' \<mapsto> g)"
proof -
  let ?s2 = "(called (called s))\<lparr>sys_files := (sys_files s)(temp_name ''/c'' k := None, ''/c/ab/ab12-d'' \<mapsto> f)\<rparr>"
  have calls: "ensure_dir ''/c/ab'' s = (Inr (), called s)" "rename (temp_name ''/c'' k) ''/c/ab/ab12-d'' (called s) = (Inr (), ?s2)"
    using assms(2-4) by (simp_all add: ensure_dir_exists rename_def paths_ab12)
  obtain data where "encode_metadata m = Inr data" using assms(5) by (auto simp: encode_metadata_def)
  then obtain t g where t: "write_metadata ''/c/ab/ab12-m'' m ?s2 = (Inr (), t)" "same_room s t"
    "sys_files t = (sys_files ?s2)(''/c/ab/ab12-m.tmp'' := None, ''/c/ab/ab12-m'' \<mapsto> g)"
    using assms(2, 3)
    by (auto simp: write_metadata_def Let_def paths_ab12 ensure_dir_exists open_trunc_def write_data_def append_data_def
        close_file_def rename_def filepath_dir_def same_room_def)
  have "dc_dir (n_cache (set_sys s n)) = ''/c''" using assms(1) by simp
  moreover have "alone (ensure_dir_steps ''/c/ab'') (set_sys s n) = Some (Inr (), set_sys (called s) n)"
    "alone (os_call (rename (temp_name ''/c'' k) ''/c/ab/ab12-d'')) (set_sys (called s) n) = Some (Inr (), set_sys ?s2 n)"
    "alone (os_call (write_metadata ''/c/ab/ab12-m'' m)) (set_sys ?s2 n) = Some (Inr (), set_sys t n)"
    using calls t(1) by (simp_all add: alone_simps on_sys_result)
  ultimately have "advances\<^sup>*\<^sup>* (install_steps ''ab12'' (temp_name ''/c'' k) m, set_sys s n)
     (andthen (locked (\<lambda>dc s. case now s of (t, s1) \<Rightarrow> ((), index_entry ''ab12'' ''/c/ab/ab12-d'' m t dc, s1)))
       (\<lambda>_. Done (Inr ''/c/ab/ab12-d'')), set_sys t n)"
    unfolding install_steps_def
    by (intro advances_trans [OF advances_dir]) (simp add: paths_ab12,
      rule advances_trans [OF advances_check], assumption, rule advances_trans [OF advances_check], assumption, rule advances_check)
  with t(2, 3) show ?thesis by (intro exI [of _ t] exI [of _ g]) (simp add: fun_upd_twist)
qed

lemma files_written:
  assumes "room n" and "rq_actionID q = [0xab, 0x12]"
  shows "\<exists>m s f g. advances\<^sup>*\<^sup>* (put_steps local_handler q, n) (index_last q m, set_sys s n) \<and> room (set_sys s n)
     \<and> m_outputIDHex m = hex_encode (rq_outputID q) \<and> m_size m = rq_bodySize q
     \<and> sys_files s = (sys_files (n_sys n))(''/c/ab/ab12-m.tmp'' := None, ''/c/ab/ab12-d'' \<mapsto> f, ''/c/ab/ab12-m'' \<mapsto> g) \<and> f_data f = rq_body q"
proof -
  obtain k f s where body: "alone (body_steps (rq_body q)) n = Some (Inr (\<lparr>d_hash = hex_encode (sha256 (rq_body q)),
      d_size = int (length (rq_body q))\<rparr>, temp_name ''/c'' k), set_sys s n)"
    and s: "sys_files s = (sys_files (n_sys n))(temp_name ''/c'' k \<mapsto> f)" "f_data f = rq_body q" "same_room (n_sys n) s"
    using body_written [OF assms(1)] by blast
  have r: "no_faults s" "sys_dirs s = {''/c'', ''/c/ab''}" "format_time (sys_clock s i) \<noteq> None" "dc_dir (n_cache n) = ''/c''"
    "sys_files (n_sys n) (temp_name ''/c'' j) = None" for i j
    using assms(1) s(3) by (simp_all add: room_def same_room_def)
  let ?m = "\<lparr>m_outputIDHex = hex_encode (rq_outputID q), m_size = rq_bodySize q, m_time = sys_clock s (sys_calls s),
    m_casHash = hex_encode (sha256 (rq_body q)), m_casSize = int (length (rq_body q))\<rparr>"
  have now: "alone (os_call now) (set_sys s n) = Some (sys_clock s (sys_calls s), set_sys (called s) n)"
    by (simp add: alone_simps on_sys_result now_def)
  obtain t g where t: "advances\<^sup>*\<^sup>* (install_steps ''ab12'' (temp_name ''/c'' k) ?m, set_sys (called s) n)
       (andthen (locked (\<lambda>dc s. case now s of (t, s1) \<Rightarrow> ((), index_entry ''ab12'' ''/c/ab/ab12-d'' ?m t dc, s1)))
         (\<lambda>_. Done (Inr ''/c/ab/ab12-d'')), set_sys t n)" "same_room (called s) t"
    "sys_files t = (sys_files (called s))(temp_name ''/c'' k := None, ''/c/ab/ab12-m.tmp'' := None, ''/c/ab/ab12-d'' \<mapsto> f, ''/c/ab/ab12-m'' \<mapsto> g)"
    using install_written [of n "called s" k f ?m] r s(1) by auto
  have files: "sys_files t = (sys_files (n_sys n))(''/c/ab/ab12-m.tmp'' := None, ''/c/ab/ab12-d'' \<mapsto> f, ''/c/ab/ab12-m'' \<mapsto> g)"
    using t(3) s(1) r(5) [of k] by (simp add: fun_upd_idem)
  have "advances\<^sup>*\<^sup>* (put_steps local_handler q, n) (index_last q ?m, set_sys t n)"
    unfolding put_steps_def
    by (simp add: local_handler_def assms(2) hex_ab12 Let_def, rule advances_trans [OF advances_check [OF body]], simp,
        rule advances_trans [OF advances_first [OF now]], subst check_def,
        rule advances_andthen [OF t(1), unfolded andthen_locked, THEN back_subst [of "\<lambda>p. advances\<^sup>*\<^sup>* _ (p, _)"]])
      (simp add: index_last_def)
  moreover have "room (set_sys t n)" using r(2-5) t(2) files by (simp add: room_def same_room_def paths_ab12)
  ultimately show ?thesis using s(2) files by (intro exI [of _ ?m] exI [of _ t] exI [of _ f] exI [of _ g]) simp
qed

lemma indexed:
  assumes "room n"
  shows "\<exists>e n'. advances\<^sup>*\<^sup>* (index_last q m, n) (Done (zero_response\<lparr>rs_id := rq_id q, rs_diskPath := ''/c/ab/ab12-d''\<rparr>), n')
     \<and> room n' \<and> sys_files (n_sys n') = sys_files (n_sys n)
     \<and> dc_entries (n_cache n') ''ab12'' = Some e \<and> e_meta e = Some m \<and> e_bodyPath e = ''/c/ab/ab12-d''"
proof -
  let ?dc = "index_entry ''ab12'' ''/c/ab/ab12-d'' m (sys_clock (n_sys n) (sys_calls (n_sys n))) (n_cache n)"
  let ?n = "n\<lparr>n_cache := ?dc, n_world := (n_world n)\<lparr>w_sys := called (n_sys n)\<rparr>\<rparr>"
  have "alone (index_last q m) n = Some (zero_response\<lparr>rs_id := rq_id q, rs_diskPath := ''/c/ab/ab12-d''\<rparr>, ?n)"
    by (simp add: index_last_def alone_simps on_locked_def now_def)
  moreover have "room ?n" using assms by (auto simp: room_def index_entry_def Let_def pin_def split: option.splits)
  moreover obtain e where "dc_entries ?dc ''ab12'' = Some e" "e_meta e = Some m" "e_bodyPath e = ''/c/ab/ab12-d''"
    by (auto simp: index_entry_def Let_def pin_def)
  ultimately show ?thesis by (intro exI [of _ e] exI [of _ ?n]) (simp add: advances_alone)
qed

lemma stale_get:
  assumes "room n" and "dc_entries (n_cache n) ''ab12'' = Some e" and "e_meta e = Some m" and "e_bodyPath e = ''/c/ab/ab12-d''"
    and "sys_files (n_sys n) ''/c/ab/ab12-d'' = Some f" and "hex_decode (m_outputIDHex m) = Inr out"
  shows "\<exists>r n'. handle local_handler None None [] get_ab12 n = Some (r, n') \<and> \<not> rs_miss r \<and> rs_outputID r = out
    \<and> rs_size r = m_size m \<and> rs_diskPath r = ''/c/ab/ab12-d'' \<and> sys_files (n_sys n') ''/c/ab/ab12-d'' = Some f"
  using assms
  by (simp add: handle_def get_ab12_def handle_get_def hex_ab12 on_cache_def lookup_def cached_meta_def lookup_cached_def stat_def
      room_def touch_entry_def now_def hit_response_def zero_response_def Let_def)

text \<open>One request starts, another runs from its start to its end, and the first goes on.\<close>

lemma enclosing_run:
  assumes "rq_command a \<in> {''get'', ''put''}" and "rq_command b \<in> {''get'', ''put''}"
    and "advances\<^sup>*\<^sup>* (handle_steps h ctx None a, n) (p, u)" and "advances\<^sup>*\<^sup>* (handle_steps h ctx None b, u) (Done rb, v)"
    and "advances\<^sup>*\<^sup>* (p, v) (Done ra, w)"
  shows "(flight_step h ctx)\<^sup>*\<^sup>* (at_rest n) \<lparr>fl_node = w, fl_running = [], fl_answered = [(b, rb), (a, ra)]\<rparr>"
proof -
  let ?fl = "\<lambda>n ps as. \<lparr>fl_node = n, fl_running = ps, fl_answered = as\<rparr>"
  let ?a = "handle_steps h ctx None a" and ?b = "handle_steps h ctx None b"
  have "flight_step h ctx (at_rest n) (?fl n [(a, ?a)] [])" using flight_start [OF assms(1), of h ctx n "[]" "[]"] by (simp add: at_rest_def)
  moreover have "flight_step h ctx (?fl n [(a, ?a)] []) (?fl n [(a, ?a), (b, ?b)] [])"
    using flight_start [OF assms(2), of h ctx n "[(a, ?a)]" "[]"] by simp
  moreover have "(flight_step h ctx)\<^sup>*\<^sup>* (?fl n [(a, ?a), (b, ?b)] []) (?fl u [(a, p), (b, ?b)] [])"
    using advances_flight [OF assms(3), of h ctx "[]" a "[(b, ?b)]" "[]"] by simp
  moreover have "(flight_step h ctx)\<^sup>*\<^sup>* (?fl u [(a, p), (b, ?b)] []) (?fl v [(a, p), (b, Done rb)] [])"
    using advances_flight [OF assms(4), of h ctx "[(a, p)]" b "[]" "[]"] by simp
  moreover have "flight_step h ctx (?fl v [(a, p), (b, Done rb)] []) (?fl v [(a, p)] [(b, rb)])"
    using flight_finish [of h ctx v "[(a, p)]" b rb "[]" "[]"] by simp
  moreover have "(flight_step h ctx)\<^sup>*\<^sup>* (?fl v [(a, p)] [(b, rb)]) (?fl w [(a, Done ra)] [(b, rb)])"
    using advances_flight [OF assms(5), of h ctx "[]" a "[]" "[(b, rb)]"] by simp
  moreover have "flight_step h ctx (?fl w [(a, Done ra)] [(b, rb)]) (?fl w [] [(b, rb), (a, ra)])"
    using flight_finish [of h ctx w "[]" a ra "[]" "[(b, rb)]"] by simp
  ultimately show ?thesis by (meson converse_rtranclp_into_rtranclp r_into_rtranclp rtranclp_trans)
qed

definition put_other :: request where
  "put_other = put_ab12\<lparr>rq_id := 4, rq_outputID := [0x0d], rq_body := [9], rq_bodySize := 1\<rparr>"

text \<open>
  C20: the condition on action ids is needed. From a sound node, two puts of one action id, of five
  bytes and of one byte, can interleave so that both are accepted and that afterwards a get returns the
  output id and the size 5 of the first with the file of the second: the first has renamed its body
  and written its metadata, the second does the same and indexes its metadata, and then the first
  indexes its own.
\<close>

theorem same_id_puts_mix:
  "node_ok ''/c'' local_node
   \<and> (\<exists>s r\<^sub>1 r\<^sub>2 r n f. (flight_step local_handler None)\<^sup>*\<^sup>* (at_rest local_node) s
     \<and> fl_running s = [] \<and> fl_answered s = [(put_other, r\<^sub>2), (put_ab12, r\<^sub>1)] \<and> rs_err r\<^sub>1 = [] \<and> rs_err r\<^sub>2 = []
     \<and> handle local_handler None None [] get_ab12 (fl_node s) = Some (r, n) \<and> \<not> rs_miss r
     \<and> rs_outputID r = [0x0c] \<and> rs_size r = 5 \<and> sys_files (n_sys n) (rs_diskPath r) = Some f \<and> f_data f = [9])"
proof
  let ?A = put_ab12 and ?B = put_other
  have ids: "rq_command ?A = ''put''" "rq_command ?B = ''put''" "rq_actionID ?A = [0xab, 0x12]" "rq_actionID ?B = [0xab, 0x12]"
    by (simp_all add: put_ab12_def put_other_def)
  have "room local_node" using example_time
    by (simp add: room_def local_node_def empty_cache_def) (simp add: example_sys_def)
  from files_written [OF this ids(3)] obtain m s1 where A: "advances\<^sup>*\<^sup>* (put_steps local_handler ?A, local_node) (index_last ?A m, set_sys s1 local_node)"
    "room (set_sys s1 local_node)" "m_outputIDHex m = hex_encode (rq_outputID ?A)" "m_size m = rq_bodySize ?A" by blast
  from files_written [OF A(2) ids(4)] obtain m' s2 f g where B: "advances\<^sup>*\<^sup>* (put_steps local_handler ?B, set_sys s1 local_node) (index_last ?B m', set_sys s2 (set_sys s1 local_node))"
    "room (set_sys s2 (set_sys s1 local_node))" "f_data f = rq_body ?B"
    "sys_files s2 = (sys_files (n_sys (set_sys s1 local_node)))(''/c/ab/ab12-m.tmp'' := None, ''/c/ab/ab12-d'' \<mapsto> f, ''/c/ab/ab12-m'' \<mapsto> g)" by blast
  obtain e n3 where n3: "advances\<^sup>*\<^sup>* (index_last ?B m', set_sys s2 (set_sys s1 local_node)) (Done (zero_response\<lparr>rs_id := rq_id ?B, rs_diskPath := ''/c/ab/ab12-d''\<rparr>), n3)"
    "room n3" "sys_files (n_sys n3) = sys_files (n_sys (set_sys s2 (set_sys s1 local_node)))" using indexed [OF B(2)] by blast
  obtain e n4 where n4: "advances\<^sup>*\<^sup>* (index_last ?A m, n3) (Done (zero_response\<lparr>rs_id := rq_id ?A, rs_diskPath := ''/c/ab/ab12-d''\<rparr>), n4)"
    "room n4" "sys_files (n_sys n4) = sys_files (n_sys n3)" "dc_entries (n_cache n4) ''ab12'' = Some e" "e_meta e = Some m" "e_bodyPath e = ''/c/ab/ab12-d''"
    using indexed [OF n3(2)] by blast
  let ?r = "\<lambda>q. zero_response\<lparr>rs_id := rq_id q, rs_diskPath := ''/c/ab/ab12-d''\<rparr>"
  let ?s = "\<lparr>fl_node = n4, fl_running = [], fl_answered = [(?B, ?r ?B), (?A, ?r ?A)]\<rparr>"
  have "handle_steps local_handler None None ?A = put_steps local_handler ?A" "handle_steps local_handler None None ?B = put_steps local_handler ?B"
    using ids by (simp_all add: handle_steps_def)
  with A(1) advances_trans [OF B(1) n3(1)] n4(1) ids have run: "(flight_step local_handler None)\<^sup>*\<^sup>* (at_rest local_node) ?s"
    by (intro enclosing_run [where v = n3]) simp_all
  have body: "sys_files (n_sys n4) ''/c/ab/ab12-d'' = Some f" using n4(3) n3(3) B(4) by simp
  have out: "hex_decode (m_outputIDHex m) = Inr [0x0c]" using A(3) by (simp add: put_ab12_def)
  obtain r n where "handle local_handler None None [] get_ab12 n4 = Some (r, n)" "\<not> rs_miss r" "rs_outputID r = [0x0c]"
    "rs_size r = m_size m" "sys_files (n_sys n) (rs_diskPath r) = Some f"
    using stale_get [OF n4(2, 4-6) body out] by auto
  with run A(4) B(3) show "\<exists>s r\<^sub>1 r\<^sub>2 r n f. (flight_step local_handler None)\<^sup>*\<^sup>* (at_rest local_node) s
     \<and> fl_running s = [] \<and> fl_answered s = [(?B, r\<^sub>2), (?A, r\<^sub>1)] \<and> rs_err r\<^sub>1 = [] \<and> rs_err r\<^sub>2 = []
     \<and> handle local_handler None None [] get_ab12 (fl_node s) = Some (r, n) \<and> \<not> rs_miss r
     \<and> rs_outputID r = [0x0c] \<and> rs_size r = 5 \<and> sys_files (n_sys n) (rs_diskPath r) = Some f \<and> f_data f = [9]"
    by (intro exI [of _ ?s] exI [of _ "?r ?A"] exI [of _ "?r ?B"] exI [of _ r] exI [of _ n] exI [of _ f])
      (simp add: zero_response_def put_ab12_def put_other_def)
qed (rule local_node_ok)

end
